(* ===== verification/Prelude.thy ===== *)
theory Prelude
  imports Main "HOL-Library.Word"
begin

text \<open>
  Shared vocabulary of the development: the Rust types the repository uses everywhere
  (bytes, strings, fixed-width integers, \<open>Result\<close>, \<open>Duration\<close>), the \<open>?\<close> operator, and the
  generic facts about them that the component theories use.

  \<^item> A byte is HOL's \<open>char\<close>, which has exactly 256 values, and both a Rust \<open>str\<close> (its UTF-8
    bytes) and a \<open>Vec<u8>\<close> are lists of them; \<open>len()\<close> is the list's length, as in Rust.
  \<^item> \<open>u8\<close>, \<open>u16\<close>, \<open>u32\<close>, \<open>u64\<close> are words of those widths.
  \<^item> \<open>Result<A, E>\<close> is \<open>'e + 'a\<close>, \<open>Inl\<close> being \<open>Err\<close>; \<open>res_bind\<close> is \<open>?\<close>.
  \<^item> A \<open>Duration\<close> is a number of nanoseconds, at most \<open>DURATION_MAX\<close>.
\<close>

type_synonym byte = char
type_synonym bytes = "char list"
type_synonym u8 = "8 word"
type_synonym u16 = "16 word"
type_synonym u32 = "32 word"
type_synonym u64 = "64 word"
type_synonym ('a, 'e) result = "'e + 'a"
type_synonym duration = nat

named_theorems result_simps \<open>inversion of results built with the question-mark operator\<close>
named_theorems wire_simps \<open>evaluation of stream operations on concrete framings\<close>

subsection \<open>Results and the question mark\<close>

fun res_bind :: "'e + 'a \<Rightarrow> ('a \<Rightarrow> 'e + 'b) \<Rightarrow> 'e + 'b" where
  "res_bind (Inl e) f = Inl e"
| "res_bind (Inr x) f = f x"

fun map_err :: "('e \<Rightarrow> 'f) \<Rightarrow> 'e + 'a \<Rightarrow> 'f + 'a" where
  "map_err f (Inl e) = Inl (f e)"
| "map_err f (Inr x) = Inr x"

definition ok_or :: "'e \<Rightarrow> 'a option \<Rightarrow> 'e + 'a" where
  "ok_or e x = (case x of None \<Rightarrow> Inl e | Some y \<Rightarrow> Inr y)"

definition is_ok :: "'e + 'a \<Rightarrow> bool" where
  "is_ok r = (case r of Inl _ \<Rightarrow> False | Inr _ \<Rightarrow> True)"

definition bail_if :: "bool \<Rightarrow> 'e \<Rightarrow> 'e + unit" where
  "bail_if b e = (if b then Inl e else Inr ())"

text \<open>\<open>iter().map(f).collect::<Result<Vec<_>, _>>()\<close>: left to right, stopping at the first error.\<close>

fun collect_results :: "('a \<Rightarrow> 'e + 'b) \<Rightarrow> 'a list \<Rightarrow> 'e + 'b list" where
  "collect_results f [] = Inr []"
| "collect_results f (x # xs) =
     res_bind (f x) (\<lambda>y. res_bind (collect_results f xs) (\<lambda>ys. Inr (y # ys)))"

lemma res_bind_Inr_iff [result_simps]:
  "res_bind m f = Inr y \<longleftrightarrow> (\<exists>x. m = Inr x \<and> f x = Inr y)"
  by (cases m) auto

lemma res_bind_Inl_iff [result_simps]:
  "res_bind m f = Inl e \<longleftrightarrow> m = Inl e \<or> (\<exists>x. m = Inr x \<and> f x = Inl e)"
  by (cases m) auto

lemma map_err_Inr_iff [result_simps]: "map_err f m = Inr y \<longleftrightarrow> m = Inr y"
  by (cases m) auto

lemma map_err_Inl_iff [result_simps]: "map_err f m = Inl e \<longleftrightarrow> (\<exists>e'. m = Inl e' \<and> e = f e')"
  by (cases m) auto

lemma ok_or_Inr_iff [result_simps]: "ok_or e x = Inr y \<longleftrightarrow> x = Some y"
  by (auto simp: ok_or_def split: option.splits)

lemma ok_or_Inl_iff [result_simps]: "ok_or e x = Inl e' \<longleftrightarrow> x = None \<and> e' = e"
  by (auto simp: ok_or_def split: option.splits)

lemma bail_if_Inr_iff [result_simps]: "bail_if b e = Inr u \<longleftrightarrow> \<not> b"
  by (auto simp: bail_if_def)

lemma bail_if_Inl_iff [result_simps]: "bail_if b e = Inl e' \<longleftrightarrow> b \<and> e' = e"
  by (auto simp: bail_if_def)

lemma ok_or_simps [simp]: "ok_or e None = Inl e" "ok_or e (Some x) = Inr x"
  by (simp_all add: ok_or_def)

lemma bail_if_simps [simp]: "bail_if True e = Inl e" "bail_if False e = Inr ()"
  by (simp_all add: bail_if_def)

lemma is_ok_simps [simp]: "is_ok (Inr x)" "\<not> is_ok (Inl e)"
  by (simp_all add: is_ok_def)

lemma is_ok_iff: "is_ok r \<longleftrightarrow> (\<exists>x. r = Inr x)"
  by (cases r) simp_all

lemma collect_results_Inr_iff:
  "collect_results f xs = Inr ys \<longleftrightarrow> list_all2 (\<lambda>x y. f x = Inr y) xs ys"
  by (induction xs arbitrary: ys)
    (auto simp: result_simps list_all2_Cons1)

text \<open>
  A loop over items with a \<open>HashSet\<close> of what has been seen: compute the item's key, refuse a key
  seen before, then do the rest of the body with the key; the first error ends the loop.
\<close>

fun each_distinct ::
  "('a \<Rightarrow> 'e + 'k) \<Rightarrow> ('k \<Rightarrow> 'e) \<Rightarrow> ('k \<Rightarrow> 'a \<Rightarrow> 'e + 'b) \<Rightarrow> 'k set \<Rightarrow> 'a list \<Rightarrow> 'e + 'b list"
where
  "each_distinct key dup body seen [] = Inr []"
| "each_distinct key dup body seen (x # xs) =
     res_bind (key x) (\<lambda>k.
       if k \<in> seen then Inl (dup k)
       else res_bind (body k x) (\<lambda>y.
         res_bind (each_distinct key dup body (insert k seen) xs) (\<lambda>ys. Inr (y # ys))))"

lemma each_distinct_Inr_iff:
  "each_distinct key dup body seen xs = Inr ys \<longleftrightarrow>
   (\<exists>ks. list_all2 (\<lambda>x k. key x = Inr k) xs ks \<and>
      list_all2 (\<lambda>(k, x) y. body k x = Inr y) (zip ks xs) ys \<and> distinct ks \<and> set ks \<inter> seen = {})"
proof (induction xs arbitrary: seen ys)
  case Nil
  then show ?case by auto
next
  case (Cons x xs)
  have "each_distinct key dup body seen (x # xs) = Inr ys \<longleftrightarrow>
     (\<exists>k y ys'. key x = Inr k \<and> k \<notin> seen \<and> body k x = Inr y \<and> ys = y # ys' \<and>
        each_distinct key dup body (insert k seen) xs = Inr ys')"
    by (auto simp: result_simps)
  also have "\<dots> \<longleftrightarrow> (\<exists>ks. list_all2 (\<lambda>x k. key x = Inr k) (x # xs) ks \<and>
      list_all2 (\<lambda>(k, x) y. body k x = Inr y) (zip ks (x # xs)) ys \<and> distinct ks \<and> set ks \<inter> seen = {})"
    unfolding Cons by (fastforce simp: list_all2_Cons1)
  finally show ?case .
qed

lemma list_all2_same_iff: "list_all2 P xs xs \<longleftrightarrow> (\<forall>x\<in>set xs. P x x)"
  by (induction xs) auto

subsection \<open>Strings\<close>

text \<open>\<open>str::split(c)\<close>: always at least one part.\<close>

fun split_on :: "char \<Rightarrow> string \<Rightarrow> string list" where
  "split_on c [] = [[]]"
| "split_on c (x # xs) =
     (if x = c then [] # split_on c xs
      else (case split_on c xs of [] \<Rightarrow> [[x]] | p # ps \<Rightarrow> (x # p) # ps))"

text \<open>\<open>str::split_once(c)\<close> and \<open>strip_prefix\<close>, \<open>strip_suffix\<close>.\<close>

fun split_once :: "char \<Rightarrow> string \<Rightarrow> (string \<times> string) option" where
  "split_once c [] = None"
| "split_once c (x # xs) =
     (if x = c then Some ([], xs)
      else (case split_once c xs of None \<Rightarrow> None | Some (a, b) \<Rightarrow> Some (x # a, b)))"

fun strip_prefix :: "string \<Rightarrow> string \<Rightarrow> string option" where
  "strip_prefix [] s = Some s"
| "strip_prefix (p # ps) [] = None"
| "strip_prefix (p # ps) (x # xs) = (if p = x then strip_prefix ps xs else None)"

definition strip_suffix :: "string \<Rightarrow> string \<Rightarrow> string option" where
  "strip_suffix suf s = map_option rev (strip_prefix (rev suf) (rev s))"

definition starts_with :: "string \<Rightarrow> string \<Rightarrow> bool" where
  "starts_with p s = (strip_prefix p s \<noteq> None)"

definition ends_with :: "string \<Rightarrow> string \<Rightarrow> bool" where
  "ends_with p s = (strip_suffix p s \<noteq> None)"

fun contains_str :: "string \<Rightarrow> string \<Rightarrow> bool" where
  "contains_str p [] = (p = [])"
| "contains_str p (x # xs) = (starts_with p (x # xs) \<or> contains_str p xs)"

text \<open>\<open>[String]::join(sep)\<close>.\<close>

fun join_with :: "string \<Rightarrow> string list \<Rightarrow> string" where
  "join_with sep [] = []"
| "join_with sep [x] = x"
| "join_with sep (x # y # zs) = x @ sep @ join_with sep (y # zs)"

text \<open>The ASCII classes of \<open>u8\<close>.\<close>

definition code :: "char \<Rightarrow> nat" where
  "code c = of_char c"

definition in_range :: "nat \<Rightarrow> nat \<Rightarrow> char \<Rightarrow> bool" where
  "in_range lo hi c = (lo \<le> code c \<and> code c \<le> hi)"

definition is_ascii_digit :: "char \<Rightarrow> bool" where
  "is_ascii_digit c = in_range 48 57 c"

definition is_ascii_uppercase :: "char \<Rightarrow> bool" where
  "is_ascii_uppercase c = in_range 65 90 c"

definition is_ascii_lowercase :: "char \<Rightarrow> bool" where
  "is_ascii_lowercase c = in_range 97 122 c"

definition is_ascii_alphanumeric :: "char \<Rightarrow> bool" where
  "is_ascii_alphanumeric c = (is_ascii_digit c \<or> is_ascii_uppercase c \<or> is_ascii_lowercase c)"

definition is_ascii_hexdigit :: "char \<Rightarrow> bool" where
  "is_ascii_hexdigit c = (is_ascii_digit c \<or> in_range 65 70 c \<or> in_range 97 102 c)"

definition is_ascii_graphic :: "char \<Rightarrow> bool" where
  "is_ascii_graphic c = in_range 33 126 c"

definition is_ascii_control :: "char \<Rightarrow> bool" where
  "is_ascii_control c = (code c \<le> 31 \<or> code c = 127)"

text \<open>\<open>u8::is_ascii_whitespace\<close>: space, tab, line feed, form feed, carriage return.\<close>

definition is_ascii_whitespace :: "char \<Rightarrow> bool" where
  "is_ascii_whitespace c = (code c \<in> {32, 9, 10, 12, 13})"

definition to_ascii_lower :: "char \<Rightarrow> char" where
  "to_ascii_lower c = (if is_ascii_uppercase c then char_of (code c + 32) else c)"

definition to_ascii_lowercase :: "string \<Rightarrow> string" where
  "to_ascii_lowercase s = map to_ascii_lower s"

text \<open>
  \<open>str::trim\<close> on the ASCII part of \<open>char::is_whitespace\<close> (U+0009 to U+000D and the space).
  The non-ASCII white space of \<open>char::is_whitespace\<close> is two or three UTF-8 bytes and is left
  in place: the callers below only use \<open>trim\<close> on ASCII data or to test for an empty rest.
\<close>

definition is_trim_space :: "char \<Rightarrow> bool" where
  "is_trim_space c = (in_range 9 13 c \<or> code c = 32)"

definition trim :: "string \<Rightarrow> string" where
  "trim s = rev (dropWhile is_trim_space (rev (dropWhile is_trim_space s)))"

text \<open>Unsigned integers in decimal.\<close>

definition digit_char :: "nat \<Rightarrow> char" where
  "digit_char d = char_of (48 + d)"

fun decimal :: "nat \<Rightarrow> string" where
  "decimal n = (if n < 10 then [digit_char n] else decimal (n div 10) @ [digit_char (n mod 10)])"

declare decimal.simps [simp del]

lemmas ascii_defs = code_def in_range_def is_ascii_digit_def is_ascii_uppercase_def
  is_ascii_lowercase_def is_ascii_alphanumeric_def is_ascii_hexdigit_def is_ascii_graphic_def
  is_ascii_control_def is_ascii_whitespace_def is_trim_space_def

lemma decimal_digits: "list_all is_ascii_digit (decimal n)"
proof (induction n rule: decimal.induct)
  case (1 n)
  have "is_ascii_digit (digit_char d)" if "d < 10" for d
    using that by (simp add: digit_char_def ascii_defs)
  with 1 show ?case by (subst decimal.simps) auto
qed

lemma split_on_not_Nil [simp]: "split_on c s \<noteq> []"
  by (induction s) (auto split: list.splits)

lemma split_on_no_sep: "c \<notin> set s \<Longrightarrow> split_on c s = [s]"
  by (induction s) auto

lemma split_on_append_sep: "c \<notin> set s \<Longrightarrow> split_on c (s @ c # t) = s # split_on c t"
  by (induction s) auto

lemma split_on_parts_no_sep: "p \<in> set (split_on c s) \<Longrightarrow> c \<notin> set p"
  by (induction s arbitrary: p) (auto split: list.splits if_splits)

lemma join_split_on: "join_with [c] (split_on c s) = s"
proof (induction s)
  case Nil
  then show ?case by simp
next
  case (Cons x xs)
  obtain p ps where s: "split_on c xs = p # ps"
    by (cases "split_on c xs") auto
  with Cons show ?case
    by (cases ps) auto
qed

lemma split_once_Some_iff:
  "split_once c s = Some (a, b) \<longleftrightarrow> c \<notin> set a \<and> s = a @ c # b"
proof (induction s arbitrary: a)
  case Nil
  then show ?case by simp
next
  case (Cons x xs)
  show ?case
  proof (cases "x = c")
    case True
    then show ?thesis by (cases a) auto
  next
    case False
    have "split_once c (x # xs) = Some (a, b) \<longleftrightarrow>
        (\<exists>a'. split_once c xs = Some (a', b) \<and> a = x # a')"
      using False by (auto split: option.splits)
    then show ?thesis using False Cons by (cases a) auto
  qed
qed

lemma split_once_None_iff: "split_once c s = None \<longleftrightarrow> c \<notin> set s"
  by (induction s) (auto split: option.splits)

lemma strip_prefix_Some_iff: "strip_prefix p s = Some t \<longleftrightarrow> s = p @ t"
  by (induction p s rule: strip_prefix.induct) auto

lemma strip_prefix_append [simp]: "strip_prefix p (p @ t) = Some t"
  by (simp add: strip_prefix_Some_iff)

lemma strip_suffix_Some_iff: "strip_suffix p s = Some t \<longleftrightarrow> s = t @ p"
  by (auto simp: strip_suffix_def strip_prefix_Some_iff) (metis rev_append rev_rev_ident)+

lemma starts_with_iff: "starts_with p s \<longleftrightarrow> (\<exists>t. s = p @ t)"
  by (cases "strip_prefix p s") (auto simp: starts_with_def strip_prefix_Some_iff)

lemma ends_with_iff: "ends_with p s \<longleftrightarrow> (\<exists>t. s = t @ p)"
  unfolding ends_with_def by (metis not_None_eq strip_suffix_Some_iff)

lemma contains_str_iff: "contains_str p s \<longleftrightarrow> (\<exists>a b. s = a @ p @ b)"
proof (induction s)
  case Nil
  then show ?case by auto
next
  case (Cons x xs)
  show ?case
  proof
    assume "contains_str p (x # xs)"
    then consider "starts_with p (x # xs)" | "contains_str p xs" by auto
    then show "\<exists>a b. x # xs = a @ p @ b"
    proof cases
      case 1
      then show ?thesis by (metis append_Nil starts_with_iff)
    next
      case 2
      then show ?thesis using Cons by (metis append_Cons)
    qed
  next
    assume "\<exists>a b. x # xs = a @ p @ b"
    then obtain a b where eq: "x # xs = a @ p @ b" by blast
    show "contains_str p (x # xs)"
    proof (cases a)
      case Nil
      then have "starts_with p (x # xs)" using eq by (simp add: starts_with_iff)
      then show ?thesis by simp
    next
      case (Cons y ys)
      then show ?thesis using eq Cons.IH by auto
    qed
  qed
qed

lemma to_ascii_lower_idem: "to_ascii_lower (to_ascii_lower c) = to_ascii_lower c"
  by (auto simp: to_ascii_lower_def ascii_defs)

lemma to_ascii_lowercase_idem [simp]:
  "to_ascii_lowercase (to_ascii_lowercase s) = to_ascii_lowercase s"
  by (simp add: to_ascii_lowercase_def to_ascii_lower_idem)

lemma length_to_ascii_lowercase [simp]: "length (to_ascii_lowercase s) = length s"
  by (simp add: to_ascii_lowercase_def)

lemma is_ascii_hexdigit_lower: "is_ascii_hexdigit c \<Longrightarrow> is_ascii_hexdigit (to_ascii_lower c)"
  by (auto simp: to_ascii_lower_def ascii_defs)

lemma trim_Nil [simp]: "trim [] = []"
  by (simp add: trim_def)

subsection \<open>Big-endian words\<close>

text \<open>\<open>u32::to_be_bytes\<close> and \<open>u32::from_be_bytes\<close>; \<open>u32::try_from(usize)\<close>.\<close>

definition to_be_bytes :: "u32 \<Rightarrow> bytes" where
  "to_be_bytes w = map char_of [unat w div 2 ^ 24, unat w div 2 ^ 16, unat w div 2 ^ 8, unat w]"

fun be_value :: "nat \<Rightarrow> bytes \<Rightarrow> nat" where
  "be_value acc [] = acc"
| "be_value acc (b # bs) = be_value (256 * acc + of_char b) bs"

definition from_be_bytes :: "bytes \<Rightarrow> u32" where
  "from_be_bytes bs = word_of_nat (be_value 0 bs)"

definition u32_try_from :: "nat \<Rightarrow> u32 option" where
  "u32_try_from n = (if n < 2 ^ 32 then Some (word_of_nat n) else None)"

lemma length_to_be_bytes [simp]: "length (to_be_bytes w) = 4"
  by (simp add: to_be_bytes_def)

lemma be_digit_step: "256 * (n div (k * 256)) + n div k mod 256 = (n div k :: nat)"
  by (simp add: div_mult2_eq)

lemma be_value_to_be_bytes: "be_value 0 (to_be_bytes w) = unat w"
proof -
  define n where "n = unat w"
  have "n < 2 ^ 32"
    using unsigned_less [of w] by (simp add: n_def)
  then have top: "n div 2 ^ 24 mod 256 = n div 2 ^ 24"
    by simp
  have "be_value 0 (to_be_bytes w) =
      256 * (256 * (256 * (n div 2 ^ 24) + n div 2 ^ 16 mod 256) + n div 2 ^ 8 mod 256) + n mod 256"
    using top by (simp add: to_be_bytes_def n_def [symmetric])
  also have "\<dots> = n"
    using be_digit_step [of n "2 ^ 16"] be_digit_step [of n "2 ^ 8"] be_digit_step [of n 1] by simp
  finally show ?thesis by (simp add: n_def)
qed

lemma from_to_be_bytes [simp]: "from_be_bytes (to_be_bytes w) = w"
  by (simp add: from_be_bytes_def be_value_to_be_bytes)

lemma u32_try_from_Some: "u32_try_from n = Some w \<Longrightarrow> unat w = n"
  by (auto simp: u32_try_from_def unat_of_nat split: if_splits)

lemma u32_try_from_small [simp]: "n < 2 ^ 32 \<Longrightarrow> u32_try_from n = Some (word_of_nat n)"
  by (simp add: u32_try_from_def)

subsection \<open>Durations\<close>

text \<open>
  \<open>std::time::Duration\<close> in nanoseconds. The largest value is \<open>u64::MAX\<close> seconds and
  999\,999\,999 nanoseconds; \<open>checked_mul\<close> is \<open>None\<close> above it.
\<close>

definition DURATION_MAX :: duration where
  "DURATION_MAX = (2 ^ 64 - 1) * 10 ^ 9 + 999999999"

definition from_secs :: "nat \<Rightarrow> duration" where
  "from_secs s = s * 10 ^ 9"

definition from_millis :: "nat \<Rightarrow> duration" where
  "from_millis m = m * 10 ^ 6"

definition checked_mul :: "duration \<Rightarrow> nat \<Rightarrow> duration option" where
  "checked_mul d k = (if d * k \<le> DURATION_MAX then Some (d * k) else None)"

lemmas duration_defs = from_secs_def from_millis_def DURATION_MAX_def

text \<open>The text before the first separator is determined.\<close>

lemma before_sep:
  assumes "x \<notin> set xs" "x \<notin> set xs'" "xs @ x # ys = xs' @ x # ys'"
  shows "xs = xs' \<and> ys = ys'"
proof -
  have "takeWhile (\<lambda>y. y \<noteq> x) (us @ x # vs) = us" if "x \<notin> set us" for us vs
    using that by (subst takeWhile_append2) auto
  from this [OF assms(1), of ys] this [OF assms(2), of ys'] assms(3) have "xs = xs'" by simp
  with assms(3) show ?thesis by simp
qed

end
