(* ===== verification/Capability.thy ===== *)
theory Capability
  imports Prelude
begin

text \<open>
  Services, capabilities and secret proofs: \<open>crates/locho-core/src/service.rs\<close>,
  \<open>capability.rs\<close> and \<open>auth.rs\<close>, with \<open>src/auth.rs\<close>.

  A capability is the text \<open><service>:<type>:<secret>\<close>. \<open>capability_parse_iff\<close> says exactly
  which texts are accepted and with which result, \<open>capability_parse_error\<close> which error each
  other text gets. The hash, the hexadecimal encoding and the constant-time comparison are
  third-party crates (\<open>sha2\<close>, \<open>hex\<close>, \<open>subtle\<close>): they are the fields of \<open>crypto_api\<close>, an
  argument of every definition that uses them.
\<close>

subsection \<open>Services\<close>

datatype service_type = Http | Tcp

fun service_type_as_str :: "service_type \<Rightarrow> string" where
  "service_type_as_str Http = ''http''"
| "service_type_as_str Tcp = ''tcp''"

definition safe_name_byte :: "char \<Rightarrow> bool" where
  "safe_name_byte c = (is_ascii_alphanumeric c \<or> c = CHR ''-'' \<or> c = CHR ''_'')"

definition is_safe_service_name :: "string \<Rightarrow> bool" where
  "is_safe_service_name name = (name \<noteq> [] \<and> length name \<le> 64 \<and> list_all safe_name_byte name)"

subsection \<open>Capabilities\<close>

record capability =
  cap_service :: string
  cap_service_type :: service_type
  cap_secret :: string

definition capability_format :: "string \<Rightarrow> service_type \<Rightarrow> string \<Rightarrow> string" where
  "capability_format service st secret = service @ '':'' @ service_type_as_str st @ '':'' @ secret"

datatype capability_error = InvalidFormat | InvalidServiceType | EmptySecret

fun capability_error_display :: "capability_error \<Rightarrow> string" where
  "capability_error_display InvalidFormat =
     ''invalid capability; expected <service>:<type>:<secret>''"
| "capability_error_display InvalidServiceType =
     ''invalid capability service type; expected http or tcp''"
| "capability_error_display EmptySecret = ''invalid capability; secret cannot be empty''"

text \<open>What \<open>debug_struct\<close> is given: the field names with the values whose \<open>Debug\<close> is printed.\<close>

datatype debug_value = DebugStr string | DebugServiceType service_type

definition capability_debug :: "capability \<Rightarrow> string \<times> (string \<times> debug_value) list" where
  "capability_debug c =
     (''Capability'',
      [(''service'', DebugStr (cap_service c)),
       (''service_type'', DebugServiceType (cap_service_type c)),
       (''secret'', DebugStr ''[REDACTED]'')])"

text \<open>\<open>parts.next().unwrap_or_default()\<close>, the iterator being the list of remaining parts.\<close>

fun next_part :: "string list \<Rightarrow> string \<times> string list" where
  "next_part [] = ([], [])"
| "next_part (p # ps) = (p, ps)"

definition parse_service_type :: "string \<Rightarrow> service_type option" where
  "parse_service_type t =
     (if t = ''http'' then Some Http else if t = ''tcp'' then Some Tcp else None)"

definition capability_parse :: "string \<Rightarrow> capability_error + capability" where
  "capability_parse value =
     (let (service, ps1) = next_part (split_on CHR '':'' value);
          (stype, ps2) = next_part ps1;
          (secret, ps3) = next_part ps2
      in if ps3 \<noteq> [] \<or> \<not> is_safe_service_name service then Inl InvalidFormat
         else (case parse_service_type stype of
                 None \<Rightarrow> Inl InvalidServiceType
               | Some st \<Rightarrow>
                   if secret = [] then Inl EmptySecret
                   else Inr \<lparr>cap_service = service, cap_service_type = st, cap_secret = secret\<rparr>))"

subsection \<open>Secret proofs\<close>

record crypto_api =
  sha256 :: "bytes \<Rightarrow> bytes"
  hex_encode :: "bytes \<Rightarrow> string"
  ct_eq :: "bytes \<Rightarrow> bytes \<Rightarrow> bool"

definition secret_proof :: "crypto_api \<Rightarrow> string \<Rightarrow> string" where
  "secret_proof cr secret = hex_encode cr (sha256 cr (''locho-v1:'' @ secret))"

datatype proof_error = InvalidSecretProof

definition verify_secret_proof :: "crypto_api \<Rightarrow> string \<Rightarrow> string \<Rightarrow> proof_error + unit" where
  "verify_secret_proof cr secret proof =
     (let expected = secret_proof cr secret
      in if ct_eq cr expected proof then Inr () else Inl InvalidSecretProof)"

text \<open>\<open>generate_secret\<close>: \<open>rand::fill\<close> supplies the 32 bytes, so they are an argument.\<close>

definition generate_secret :: "crypto_api \<Rightarrow> bytes \<Rightarrow> string" where
  "generate_secret cr random_bytes = hex_encode cr random_bytes"

text \<open>Documented behaviour of the crates, used as named hypotheses.\<close>

definition ct_eq_is_equality :: "crypto_api \<Rightarrow> bool" where
  "ct_eq_is_equality cr \<longleftrightarrow> (\<forall>a b. ct_eq cr a b = (a = b))"

definition hex_alphabet :: string where
  "hex_alphabet = ''0123456789abcdef''"

definition hex_is_base16 :: "crypto_api \<Rightarrow> bool" where
  "hex_is_base16 cr \<longleftrightarrow> (\<forall>bs. length (hex_encode cr bs) = 2 * length bs \<and>
     set (hex_encode cr bs) \<subseteq> set hex_alphabet)"

subsection \<open>Valid capabilities\<close>

text \<open>What the parser guarantees of every capability it returns.\<close>

definition valid_capability :: "capability \<Rightarrow> bool" where
  "valid_capability c \<longleftrightarrow> is_safe_service_name (cap_service c) \<and> cap_secret c \<noteq> [] \<and>
     CHR '':'' \<notin> set (cap_secret c)"

definition capability_text :: "capability \<Rightarrow> string" where
  "capability_text c = capability_format (cap_service c) (cap_service_type c) (cap_secret c)"

lemma colon_not_safe: "\<not> safe_name_byte CHR '':''"
  by (simp add: safe_name_byte_def ascii_defs)

lemma safe_name_no_colon: "is_safe_service_name s \<Longrightarrow> CHR '':'' \<notin> set s"
  using colon_not_safe by (auto simp: is_safe_service_name_def list_all_iff)

lemma service_type_no_colon [simp]: "CHR '':'' \<notin> set (service_type_as_str st)"
  by (cases st) simp_all

lemma parse_service_type_Some_iff:
  "parse_service_type t = Some st \<longleftrightarrow> t = service_type_as_str st"
  by (cases st) (auto simp: parse_service_type_def)

lemma parse_service_type_as_str [simp]: "parse_service_type (service_type_as_str st) = Some st"
  by (simp add: parse_service_type_Some_iff)

lemma split_capability_format:
  assumes "CHR '':'' \<notin> set service" "CHR '':'' \<notin> set secret"
  shows "split_on CHR '':'' (capability_format service st secret) =
    [service, service_type_as_str st, secret]"
  using assms by (simp add: capability_format_def split_on_append_sep split_on_no_sep)

lemma capability_parse_format:
  assumes "is_safe_service_name service" "secret \<noteq> []" "CHR '':'' \<notin> set secret"
  shows "capability_parse (capability_format service st secret) =
    Inr \<lparr>cap_service = service, cap_service_type = st, cap_secret = secret\<rparr>"
  using assms
  by (simp add: capability_parse_def split_capability_format safe_name_no_colon)

lemma capability_parse_parts:
  assumes "capability_parse value = Inr c"
  shows "split_on CHR '':'' value =
      [cap_service c, service_type_as_str (cap_service_type c), cap_secret c] \<and>
    is_safe_service_name (cap_service c) \<and> cap_secret c \<noteq> []"
proof -
  obtain p ps where s: "split_on CHR '':'' value = p # ps"
    by (cases "split_on CHR '':'' value") auto
  show ?thesis
  proof (cases ps)
    case Nil
    with assms s show ?thesis
      by (auto simp: capability_parse_def parse_service_type_def split: if_splits)
  next
    case (Cons t qs)
    with assms s show ?thesis
      by (cases qs)
        (auto simp: capability_parse_def parse_service_type_Some_iff
          split: if_splits option.splits)
  qed
qed

lemma capability_parse_sound:
  assumes "capability_parse value = Inr c"
  shows "valid_capability c \<and> value = capability_text c"
proof -
  note parts = capability_parse_parts [OF assms]
  have "cap_secret c \<in> set (split_on CHR '':'' value)"
    using parts by simp
  then have "CHR '':'' \<notin> set (cap_secret c)"
    by (rule split_on_parts_no_sep)
  moreover have "value = join_with '':'' (split_on CHR '':'' value)"
    by (simp add: join_split_on)
  ultimately show ?thesis
    using parts by (simp add: valid_capability_def capability_text_def capability_format_def)
qed

lemma capability_parse_text: "valid_capability c \<Longrightarrow> capability_parse (capability_text c) = Inr c"
  by (simp add: valid_capability_def capability_text_def capability_parse_format)

lemma capability_parse_parts_of:
  assumes "capability_parse (capability_format service st secret) = Inr c" "is_safe_service_name service"
  shows "c = \<lparr>cap_service = service, cap_service_type = st, cap_secret = secret\<rparr>"
proof -
  from capability_parse_sound [OF assms(1)] have v: "valid_capability c"
    and e: "capability_format service st secret = capability_text c" by auto
  from v have "CHR '':'' \<notin> set (cap_service c)" by (simp add: valid_capability_def safe_name_no_colon)
  moreover have "CHR '':'' \<notin> set service" using assms(2) by (rule safe_name_no_colon)
  ultimately have "service = cap_service c \<and> service_type_as_str st @ CHR '':'' # secret =
      service_type_as_str (cap_service_type c) @ CHR '':'' # cap_secret c"
    using e before_sep [of "CHR '':''" service "cap_service c"] by (simp add: capability_text_def capability_format_def)
  moreover from this before_sep [of "CHR '':''" "service_type_as_str st" "service_type_as_str (cap_service_type c)" secret "cap_secret c"]
  have "service_type_as_str st = service_type_as_str (cap_service_type c) \<and> secret = cap_secret c" by simp
  ultimately show ?thesis by (cases c; cases st; cases "cap_service_type c") auto
qed

lemma verify_secret_proof_iff:
  "ct_eq_is_equality cr \<Longrightarrow> verify_secret_proof cr s p = Inr () \<longleftrightarrow> p = secret_proof cr s"
  by (auto simp: verify_secret_proof_def ct_eq_is_equality_def)

lemma verify_secret_proof_own:
  "ct_eq_is_equality cr \<Longrightarrow> verify_secret_proof cr s (secret_proof cr s) = Inr ()"
  by (simp add: verify_secret_proof_iff)

lemma hex_alphabet_is_hexdigit: "c \<in> set hex_alphabet \<Longrightarrow> is_ascii_hexdigit c"
  by (auto simp: hex_alphabet_def ascii_defs)

text \<open>
  A generated secret is valid in a capability of any safely named service: the printed
  capability parses back to it.
\<close>

lemma generated_secret_valid:
  assumes "hex_is_base16 cr" "length rnd = 32"
  shows "length (generate_secret cr rnd) = 64 \<and> list_all is_ascii_hexdigit (generate_secret cr rnd)"
  using assms hex_alphabet_is_hexdigit
  by (auto simp: hex_is_base16_def generate_secret_def list_all_iff)

lemma generated_secret_no_colon:
  assumes "hex_is_base16 cr"
  shows "CHR '':'' \<notin> set (generate_secret cr rnd)"
  using assms by (auto simp: hex_is_base16_def generate_secret_def hex_alphabet_def)

subsection \<open>Properties\<close>

text \<open>
  C25. A text is accepted as a capability exactly when it is the printed form of a valid
  capability (a safe service name, the type \<open>http\<close> or \<open>tcp\<close>, a non-empty secret without a
  colon), and the result is that capability: parsing and formatting are inverse to each other.
\<close>

theorem capability_parse_iff:
  "capability_parse value = Inr c \<longleftrightarrow> valid_capability c \<and> value = capability_text c"
  using capability_parse_sound capability_parse_text by blast

text \<open>
  Every rejected text gets the error of the first check it fails, in the code's order: the
  part count and the service name, then the type, then the empty secret.
\<close>

theorem capability_parse_error:
  "capability_parse value = Inl e \<longleftrightarrow>
     (case split_on CHR '':'' value of
        service # rest \<Rightarrow>
          if length rest \<le> 2 \<and> is_safe_service_name service
          then if rest = [] \<or> parse_service_type (rest ! 0) = None then e = InvalidServiceType
               else e = EmptySecret \<and> (length rest = 1 \<or> rest ! 1 = [])
          else e = InvalidFormat
      | [] \<Rightarrow> False)"
proof -
  obtain p ps where s: "split_on CHR '':'' value = p # ps"
    by (cases "split_on CHR '':'' value") auto
  consider "ps = []" | t where "ps = [t]" | t u us where "ps = t # u # us"
    by (metis list.exhaust)
  then show ?thesis
  proof cases
    case 1
    with s show ?thesis by (auto simp: capability_parse_def parse_service_type_def)
  next
    case 2
    with s show ?thesis by (auto simp: capability_parse_def split: option.splits)
  next
    case 3
    with s show ?thesis by (cases us) (auto simp: capability_parse_def split: option.splits)
  qed
qed

text \<open>
  With a comparison that decides equality, a proof is accepted for a secret exactly when it
  is the hexadecimal SHA-256 of \<open>locho-v1:\<close> followed by that secret.
\<close>

theorem verify_secret_proof_exact:
  assumes "ct_eq_is_equality cr"
  shows "verify_secret_proof cr s p =
    (if p = hex_encode cr (sha256 cr (''locho-v1:'' @ s)) then Inr () else Inl InvalidSecretProof)"
  using assms by (auto simp: verify_secret_proof_def secret_proof_def ct_eq_is_equality_def)

definition sample_crypto :: crypto_api where
  "sample_crypto = \<lparr>sha256 = rev,
     hex_encode = (\<lambda>bs. concat (map (\<lambda>b. [hex_alphabet ! (of_char b div 16),
       hex_alphabet ! (of_char b mod 16)]) bs)),
     ct_eq = (\<lambda>a b. a = b)\<rparr>"

lemma sample_crypto_ct_eq [simp]: "ct_eq_is_equality sample_crypto"
  by (simp add: ct_eq_is_equality_def sample_crypto_def)

theorem verify_secret_proof_exact_witness:
  "ct_eq_is_equality sample_crypto \<and>
   verify_secret_proof sample_crypto ''k'' (secret_proof sample_crypto ''k'') = Inr () \<and>
   verify_secret_proof sample_crypto ''k'' ''not-a-proof'' = Inl InvalidSecretProof"
proof -
  note exact = verify_secret_proof_exact [OF sample_crypto_ct_eq, of "''k''"]
  have "hex_encode sample_crypto (sha256 sample_crypto (''locho-v1:'' @ ''k'')) \<noteq> ''not-a-proof''"
    by (simp add: sample_crypto_def)
  then show ?thesis
    by (simp add: exact) (simp add: secret_proof_def)
qed

text \<open>
  The errors of the parser and the \<open>Debug\<close> form of a capability carry nothing of the
  secret: the debug form is the same for every secret, and equal only for equal services.
\<close>

theorem capability_debug_redacts:
  "capability_debug (c\<lparr>cap_secret := s\<rparr>) = capability_debug c \<and>
   (capability_debug c = capability_debug d \<longleftrightarrow>
      cap_service c = cap_service d \<and> cap_service_type c = cap_service_type d)"
  by (auto simp: capability_debug_def)

end
