(* ===== verification/Wire_Protocol.thy ===== *)
theory Wire_Protocol
  imports Capability
begin

text \<open>
  The tunnel's wire protocol, \<open>crates/locho-core/src/protocol.rs\<close>: constants, request and
  response heads, length-prefixed JSON heads and the two body framings (a declared length, or
  chunks of at most \<open>BODY_CHUNK_LEN\<close> bytes ended by an empty chunk).

  An \<open>AsyncRead\<close> is the bytes it still delivers and what follows them: the end of the stream,
  a transport error, or silence. An \<open>AsyncWrite\<close> is the bytes accepted so far and, optionally,
  how many more it accepts before it fails or blocks. An asynchronous operation is \<open>Done\<close>, has
  \<open>Fail\<close>ed, or \<open>Hang\<close>s, i.e. never completes by itself, which is when an enclosing \<open>timeout\<close>
  fires. \<open>serde_json\<close> is a third-party crate: its two functions are the fields of \<open>codec\<close>.
\<close>

subsection \<open>Constants\<close>

definition ALPN :: bytes where "ALPN = ''locho/3''"
definition PROTOCOL_VERSION :: u8 where "PROTOCOL_VERSION = 3"
definition MAX_BODY_LEN :: nat where "MAX_BODY_LEN = 32 * 1024 * 1024"
definition MAX_HEAD_LEN :: nat where "MAX_HEAD_LEN = 1024 * 1024"
definition MAX_TCP_CONNECTIONS :: nat where "MAX_TCP_CONNECTIONS = 128"
definition MAX_HTTP_CONNECTIONS :: nat where "MAX_HTTP_CONNECTIONS = 128"
definition TCP_CONNECT_TIMEOUT :: duration where "TCP_CONNECT_TIMEOUT = from_secs 10"
definition TCP_IDLE_TIMEOUT :: duration where "TCP_IDLE_TIMEOUT = from_secs 300"
definition HANDSHAKE_TIMEOUT :: duration where "HANDSHAKE_TIMEOUT = from_secs 10"
definition HTTP_REQUEST_TIMEOUT :: duration where "HTTP_REQUEST_TIMEOUT = from_secs 60"
definition MAX_HTTP_REQUEST_TIMEOUT_SECS :: nat where "MAX_HTTP_REQUEST_TIMEOUT_SECS = 300"
definition ATTACH_RECONNECT_TIMEOUT :: duration where "ATTACH_RECONNECT_TIMEOUT = from_secs 10"
definition RECONNECT_INITIAL_BACKOFF :: duration where
  "RECONNECT_INITIAL_BACKOFF = from_millis 250"
definition RECONNECT_MAX_BACKOFF :: duration where "RECONNECT_MAX_BACKOFF = from_secs 30"
definition RECONNECT_STABLE_DURATION :: duration where "RECONNECT_STABLE_DURATION = from_secs 5"
definition SHUTDOWN_TIMEOUT :: duration where "SHUTDOWN_TIMEOUT = from_secs 10"
definition BODY_CHUNK_LEN :: nat where "BODY_CHUNK_LEN = 16 * 1024"

lemmas limit_defs = MAX_BODY_LEN_def MAX_HEAD_LEN_def BODY_CHUNK_LEN_def

subsection \<open>Heads\<close>

record tcp_request_head =
  tcp_version :: u8
  tcp_service :: string
  tcp_secret_proof :: string

record locho_request_head =
  req_version :: u8
  req_service :: string
  req_secret_proof :: string
  req_method :: string
  req_path_and_query :: string
  req_headers :: "(string \<times> string) list"
  req_body_len :: "u64 option"

datatype stream_request_head = HttpHead locho_request_head | TcpHead tcp_request_head

record locho_response_head =
  resp_version :: u8
  resp_status :: u16
  resp_headers :: "(string \<times> string) list"
  resp_body_len :: "u64 option"

text \<open>The fields the \<open>Debug\<close> implementations print.\<close>

datatype head_debug =
    DebugVersion u8 | DebugStatus u16 | DebugRedacted string | DebugBodyLen "u64 option"

definition tcp_request_head_debug :: "tcp_request_head \<Rightarrow> head_debug list" where
  "tcp_request_head_debug h = [DebugVersion (tcp_version h), DebugRedacted ''secret_proof'']"

definition locho_request_head_debug :: "locho_request_head \<Rightarrow> head_debug list" where
  "locho_request_head_debug h =
     [DebugVersion (req_version h), DebugRedacted ''secret_proof'', DebugBodyLen (req_body_len h)]"

definition locho_response_head_debug :: "locho_response_head \<Rightarrow> head_debug list" where
  "locho_response_head_debug h =
     [DebugVersion (resp_version h), DebugStatus (resp_status h), DebugBodyLen (resp_body_len h)]"

subsection \<open>Streams\<close>

datatype stream_end = Eof | Broken | Stalled

record reader =
  r_bytes :: bytes
  r_end :: stream_end

record writer =
  w_sent :: bytes
  w_limit :: "(nat \<times> stream_end) option"

datatype ('a, 'e) outcome = Done 'a | Fail 'e | Hang

fun out_bind :: "('a, 'e) outcome \<Rightarrow> ('a \<Rightarrow> ('b, 'e) outcome) \<Rightarrow> ('b, 'e) outcome" where
  "out_bind (Done x) f = f x"
| "out_bind (Fail e) f = Fail e"
| "out_bind Hang f = Hang"

text \<open>\<open>timeout(d, op)\<close>: an operation that never completes is cut off with the given error.\<close>

fun with_timeout :: "'e \<Rightarrow> ('a, 'e) outcome \<Rightarrow> 'e + 'a" where
  "with_timeout late (Done x) = Inr x"
| "with_timeout late (Fail e) = Inl e"
| "with_timeout late Hang = Inl late"

definition read_exact :: "'e \<Rightarrow> nat \<Rightarrow> reader \<Rightarrow> (bytes \<times> reader, 'e) outcome" where
  "read_exact e n r =
     (if n \<le> length (r_bytes r)
      then Done (take n (r_bytes r), r\<lparr>r_bytes := drop n (r_bytes r)\<rparr>)
      else if r_end r = Stalled then Hang else Fail e)"

definition write_all :: "'e \<Rightarrow> bytes \<Rightarrow> writer \<Rightarrow> (unit, 'e) outcome \<times> writer" where
  "write_all e bs w =
     (case w_limit w of
        None \<Rightarrow> (Done (), w\<lparr>w_sent := w_sent w @ bs\<rparr>)
      | Some (n, x) \<Rightarrow>
          if length bs \<le> n
          then (Done (), w\<lparr>w_sent := w_sent w @ bs, w_limit := Some (n - length bs, x)\<rparr>)
          else (if x = Stalled then Hang else Fail e,
                w\<lparr>w_sent := w_sent w @ take n bs, w_limit := Some (0, x)\<rparr>))"

text \<open>Two operations on a writer, the second only after the first is done.\<close>

definition then_write ::
  "(unit, 'e) outcome \<times> writer \<Rightarrow> (writer \<Rightarrow> ('a, 'e) outcome \<times> writer) \<Rightarrow> ('a, 'e) outcome \<times> writer"
where
  "then_write m f = (case m of (Done _, w) \<Rightarrow> f w | (Fail e, w) \<Rightarrow> (Fail e, w) | (Hang, w) \<Rightarrow> (Hang, w))"

subsection \<open>Heads on the wire\<close>

datatype wire_error =
    SerializeHeader | HeaderTooLarge | WriteFailed | ReadHeaderLength | HeaderExceedsLimit
  | ReadHeader | DecodeHeader | ChunkTooLarge | ReadChunkLength | ChunkExceedsLimit | ReadChunk
  | BodyLengthRequired | BodyExceedsLimit | ReadBody

text \<open>
  \<open>Display\<close> of these errors is the outermost context. A failed write is returned without a
  context, so its text is the transport's own and is an argument.
\<close>

fun wire_error_text :: "string \<Rightarrow> wire_error \<Rightarrow> string" where
  "wire_error_text io SerializeHeader = ''serialize tunnel header''"
| "wire_error_text io HeaderTooLarge = ''tunnel header is too large''"
| "wire_error_text io WriteFailed = io"
| "wire_error_text io ReadHeaderLength = ''read tunnel header length''"
| "wire_error_text io HeaderExceedsLimit = ''tunnel header exceeds limit''"
| "wire_error_text io ReadHeader = ''read tunnel header''"
| "wire_error_text io DecodeHeader = ''decode tunnel header''"
| "wire_error_text io ChunkTooLarge = ''body chunk is too large''"
| "wire_error_text io ReadChunkLength = ''read body chunk length''"
| "wire_error_text io ChunkExceedsLimit = ''body chunk exceeds limit''"
| "wire_error_text io ReadChunk = ''read body chunk''"
| "wire_error_text io BodyLengthRequired = ''body length is required''"
| "wire_error_text io BodyExceedsLimit = ''body exceeds limit''"
| "wire_error_text io ReadBody = ''read body''"

record 'a codec =
  to_vec :: "'a \<Rightarrow> bytes option"
  from_slice :: "bytes \<Rightarrow> 'a option"

definition codec_roundtrip :: "'a codec \<Rightarrow> bool" where
  "codec_roundtrip c \<longleftrightarrow> (\<forall>v b. to_vec c v = Some b \<longrightarrow> from_slice c b = Some v)"

definition write_json_head :: "'a codec \<Rightarrow> 'a \<Rightarrow> writer \<Rightarrow> (unit, wire_error) outcome \<times> writer" where
  "write_json_head c value w =
     (case to_vec c value of
        None \<Rightarrow> (Fail SerializeHeader, w)
      | Some json \<Rightarrow>
          (case u32_try_from (length json) of
             None \<Rightarrow> (Fail HeaderTooLarge, w)
           | Some len \<Rightarrow>
               then_write (write_all WriteFailed (to_be_bytes len) w)
                 (\<lambda>w. write_all WriteFailed json w)))"

definition read_json_head :: "'a codec \<Rightarrow> nat \<Rightarrow> reader \<Rightarrow> ('a \<times> reader, wire_error) outcome" where
  "read_json_head c max_len r =
     out_bind (read_exact ReadHeaderLength 4 r) (\<lambda>(prefix, r).
       let len = unat (from_be_bytes prefix) in
       if max_len < len then Fail HeaderExceedsLimit
       else out_bind (read_exact ReadHeader len r) (\<lambda>(data, r).
         case from_slice c data of None \<Rightarrow> Fail DecodeHeader | Some v \<Rightarrow> Done (v, r)))"

subsection \<open>Bodies on the wire\<close>

definition write_body :: "bytes \<Rightarrow> writer \<Rightarrow> (unit, wire_error) outcome \<times> writer" where
  "write_body body w = write_all WriteFailed body w"

definition write_body_chunk :: "bytes \<Rightarrow> writer \<Rightarrow> (unit, wire_error) outcome \<times> writer" where
  "write_body_chunk body w =
     (case u32_try_from (length body) of
        None \<Rightarrow> (Fail ChunkTooLarge, w)
      | Some len \<Rightarrow>
          then_write (write_all WriteFailed (to_be_bytes len) w)
            (\<lambda>w. write_all WriteFailed body w))"

definition write_body_end :: "writer \<Rightarrow> (unit, wire_error) outcome \<times> writer" where
  "write_body_end w = write_all WriteFailed (to_be_bytes 0) w"

definition read_body_chunk :: "reader \<Rightarrow> (bytes option \<times> reader, wire_error) outcome" where
  "read_body_chunk r =
     out_bind (read_exact ReadChunkLength 4 r) (\<lambda>(prefix, r).
       let len = unat (from_be_bytes prefix) in
       if BODY_CHUNK_LEN < len then Fail ChunkExceedsLimit
       else if len = 0 then Done (None, r)
       else out_bind (read_exact ReadChunk len r) (\<lambda>(data, r). Done (Some data, r)))"

definition read_body_with_limit ::
  "u64 option \<Rightarrow> nat \<Rightarrow> reader \<Rightarrow> (bytes \<times> reader, wire_error) outcome" where
  "read_body_with_limit len max_len r =
     (case len of
        None \<Rightarrow> Fail BodyLengthRequired
      | Some n \<Rightarrow>
          if max_len < unat n then Fail BodyExceedsLimit
          else read_exact ReadBody (unat n) r)"

text \<open>
  Reading a framed sequence until its end mark, as the host does with a request body and the
  attachment with a response body. The fuel is spent one unit per item; every item consumes
  input, so the length of the input is enough (\<open>drain_total\<close>).
\<close>

fun drain ::
  "nat \<Rightarrow> (reader \<Rightarrow> ('a option \<times> reader, 'e) outcome) \<Rightarrow> reader \<Rightarrow> ('a list \<times> reader, 'e) outcome option"
where
  "drain 0 get r = None"
| "drain (Suc k) get r =
     (case get r of
        Fail e \<Rightarrow> Some (Fail e)
      | Hang \<Rightarrow> Some Hang
      | Done (None, r') \<Rightarrow> Some (Done ([], r'))
      | Done (Some x, r') \<Rightarrow>
          map_option (\<lambda>o'. out_bind o' (\<lambda>(xs, r'). Done (x # xs, r'))) (drain k get r'))"

subsection \<open>The framing interface\<close>

text \<open>
  What a reader of framed items relies on: a written item is read back, with the rest of the
  input untouched, the end mark is read as the end, and every item consumes input.
\<close>

locale framing =
  fixes put :: "'a \<Rightarrow> bytes"
    and stop :: bytes
    and item_ok :: "'a \<Rightarrow> bool"
    and get :: "reader \<Rightarrow> ('a option \<times> reader, 'e) outcome"
  assumes get_put: "item_ok x \<Longrightarrow> get (r\<lparr>r_bytes := put x @ bs\<rparr>) = Done (Some x, r\<lparr>r_bytes := bs\<rparr>)"
    and get_stop: "get (r\<lparr>r_bytes := stop @ bs\<rparr>) = Done (None, r\<lparr>r_bytes := bs\<rparr>)"
    and get_progress: "get r = Done (Some x, r') \<Longrightarrow>
      item_ok x \<and> r_end r' = r_end r \<and> r_bytes r = put x @ r_bytes r' \<and> r_bytes r' \<noteq> r_bytes r"
    and get_end: "get r = Done (None, r') \<Longrightarrow> r_end r' = r_end r \<and> r_bytes r = stop @ r_bytes r'"
begin

lemma drain_puts:
  assumes "list_all item_ok xs" "length xs < k"
  shows "drain k get (r\<lparr>r_bytes := concat (map put xs) @ stop @ bs\<rparr>) =
    Some (Done (xs, r\<lparr>r_bytes := bs\<rparr>))"
  using assms
proof (induction xs arbitrary: k)
  case Nil
  then show ?case by (cases k) (simp_all add: get_stop)
next
  case (Cons x xs)
  then show ?case by (cases k) (simp_all add: get_put)
qed

lemma progress_length: "get r = Done (Some x, r') \<Longrightarrow> length (r_bytes r') < length (r_bytes r)"
  using get_progress [of r x r'] by (cases "put x") auto

lemma drain_total: "length (r_bytes r) < k \<Longrightarrow> \<exists>o'. drain k get r = Some o'"
proof (induction k arbitrary: r)
  case 0
  then show ?case by simp
next
  case (Suc k)
  show ?case
  proof (cases "get r")
    case (Done p)
    obtain x r' where p: "p = (x, r')" by (cases p)
    show ?thesis
    proof (cases x)
      case None
      with Done p show ?thesis by simp
    next
      case (Some y)
      with Done p have "length (r_bytes r') < k"
        using progress_length [of r y r'] Suc.prems by simp
      then obtain o' where "drain k get r' = Some o'"
        using Suc.IH by blast
      with Done p Some show ?thesis by simp
    qed
  qed simp_all
qed

lemma drain_sound:
  "drain k get r = Some (Done (xs, r')) \<Longrightarrow>
   list_all item_ok xs \<and> r_end r' = r_end r \<and> r_bytes r = concat (map put xs) @ stop @ r_bytes r'"
proof (induction k arbitrary: r xs)
  case 0
  then show ?case by simp
next
  case (Suc k)
  show ?case
  proof (cases "get r")
    case (Done p)
    obtain x r1 where p: "p = (x, r1)" by (cases p)
    show ?thesis
    proof (cases x)
      case None
      with Done p Suc.prems show ?thesis by (auto dest: get_end)
    next
      case (Some y)
      with Done p Suc.prems obtain ys where
        d: "drain k get r1 = Some (Done (ys, r'))" and xs: "xs = y # ys"
        by (auto elim!: out_bind.elims)
      have "item_ok y \<and> r_end r1 = r_end r \<and> r_bytes r = put y @ r_bytes r1"
        using get_progress [of r y r1] Done p Some by simp
      with Suc.IH [OF d] xs show ?thesis by simp
    qed
  qed (use Suc.prems in simp_all)
qed

end

subsection \<open>Lemmas\<close>

lemma out_bind_Done_iff [result_simps]:
  "out_bind m f = Done y \<longleftrightarrow> (\<exists>x. m = Done x \<and> f x = Done y)"
  by (cases m) auto

lemma with_timeout_Inr_iff [result_simps]: "with_timeout e m = Inr x \<longleftrightarrow> m = Done x"
  by (cases m) auto

lemma read_exact_append [simp]:
  "length a = n \<Longrightarrow> read_exact e n (r\<lparr>r_bytes := a @ b\<rparr>) = Done (a, r\<lparr>r_bytes := b\<rparr>)"
  by (simp add: read_exact_def)

lemma read_exact_Done:
  "read_exact e n r = Done (d, r') \<Longrightarrow>
   length d = n \<and> r_bytes r = d @ r_bytes r' \<and> r_end r' = r_end r"
  by (auto simp: read_exact_def split: if_splits)

lemma write_all_open [simp]:
  "w_limit w = None \<Longrightarrow> write_all e bs w = (Done (), w\<lparr>w_sent := w_sent w @ bs\<rparr>)"
  by (simp add: write_all_def)

lemma then_write_Done [simp]: "then_write (Done (), w) f = f w"
  by (simp add: then_write_def)

lemma then_write_not_done [simp]:
  "then_write (Fail e, w) f = (Fail e, w)" "then_write (Hang, w) f = (Hang, w)"
  by (simp_all add: then_write_def)

text \<open>Whatever happens, what a writer has accepted is only ever extended.\<close>

lemma write_all_prefix: "\<exists>bs'. w_sent (snd (write_all e bs w)) = w_sent w @ bs' \<and> (\<exists>t. bs = bs' @ t)"
proof (cases "w_limit w")
  case None
  then show ?thesis by simp
next
  case (Some p)
  obtain n x where p: "p = (n, x)" by (cases p)
  show ?thesis
  proof (cases "length bs \<le> n")
    case True
    then show ?thesis using Some p by (simp add: write_all_def)
  next
    case False
    then show ?thesis using Some p
      by (simp add: write_all_def) (metis append_take_drop_id)
  qed
qed

lemma write_all_Done:
  "write_all e bs w = (Done u, w') \<Longrightarrow> w_sent w' = w_sent w @ bs"
  by (auto simp: write_all_def split: option.splits if_splits)

lemma then_write_all_Done:
  assumes "then_write (write_all e a w) (\<lambda>w. write_all e b w) = (Done u, w')"
  shows "w_sent w' = w_sent w @ a @ b"
proof -
  obtain o1 w1 where w1: "write_all e a w = (o1, w1)" by (cases "write_all e a w")
  with assms have "o1 = Done ()" by (cases o1) simp_all
  with assms w1 have "write_all e b w1 = (Done u, w')" by simp
  then have "w_sent w' = w_sent w1 @ b" by (rule write_all_Done)
  moreover have "w_sent w1 = w_sent w @ a"
    using w1 \<open>o1 = Done ()\<close> by (simp add: write_all_Done)
  ultimately show ?thesis by simp
qed

definition json_frame :: "bytes \<Rightarrow> bytes" where
  "json_frame json = to_be_bytes (word_of_nat (length json)) @ json"

definition chunk_frame :: "bytes \<Rightarrow> bytes" where
  "chunk_frame chunk = to_be_bytes (word_of_nat (length chunk)) @ chunk"

definition chunk_end :: bytes where
  "chunk_end = to_be_bytes 0"

definition chunk_ok :: "bytes \<Rightarrow> bool" where
  "chunk_ok c \<longleftrightarrow> c \<noteq> [] \<and> length c \<le> BODY_CHUNK_LEN"

lemma chunk_frame_not_Nil [simp]: "chunk_frame c \<noteq> []"
  by (simp add: chunk_frame_def to_be_bytes_def)

lemma unat_word_of_length: "n < 2 ^ 32 \<Longrightarrow> unat (word_of_nat n :: u32) = n"
  by (simp add: unat_of_nat)

lemma write_json_head_open:
  assumes "w_limit w = None" "to_vec c v = Some json" "length json < 2 ^ 32"
  shows "write_json_head c v w = (Done (), w\<lparr>w_sent := w_sent w @ json_frame json\<rparr>)"
  using assms by (simp add: write_json_head_def json_frame_def)

lemma write_json_head_Done:
  assumes "write_json_head c v w = (Done u, w')"
  shows "\<exists>json. to_vec c v = Some json \<and> length json < 2 ^ 32 \<and> w_sent w' = w_sent w @ json_frame json"
proof -
  from assms obtain json where j: "to_vec c v = Some json"
    by (auto simp: write_json_head_def split: option.splits)
  with assms have len: "length json < 2 ^ 32"
    by (auto simp: write_json_head_def u32_try_from_def split: if_splits)
  with assms j have "then_write (write_all WriteFailed (to_be_bytes (word_of_nat (length json))) w)
      (\<lambda>w. write_all WriteFailed json w) = (Done u, w')"
    by (simp add: write_json_head_def)
  then have "w_sent w' = w_sent w @ json_frame json"
    unfolding json_frame_def by (rule then_write_all_Done)
  with j len show ?thesis by blast
qed

lemma read_json_frame:
  assumes "from_slice c json = Some v" "length json \<le> max_len" "length json < 2 ^ 32"
  shows "read_json_head c max_len (r\<lparr>r_bytes := json_frame json @ bs\<rparr>) = Done (v, r\<lparr>r_bytes := bs\<rparr>)"
  using assms by (simp add: read_json_head_def json_frame_def unat_word_of_length)

lemma read_json_head_Done:
  assumes "read_json_head c max_len r = Done (v, r')"
  shows "\<exists>json. from_slice c json = Some v \<and> length json \<le> max_len \<and> length json < 2 ^ 32 \<and>
    (\<exists>prefix. length prefix = 4 \<and> unat (from_be_bytes prefix) = length json \<and>
      r_bytes r = prefix @ json @ r_bytes r') \<and> r_end r' = r_end r"
proof -
  from assms obtain prefix r1 json where
    p: "read_exact ReadHeaderLength 4 r = Done (prefix, r1)" and
    l: "unat (from_be_bytes prefix) \<le> max_len" and
    j: "read_exact ReadHeader (unat (from_be_bytes prefix)) r1 = Done (json, r')" and
    v: "from_slice c json = Some v"
    by (auto simp: read_json_head_def result_simps Let_def split: if_splits option.splits)
  note p1 = read_exact_Done [OF p] and j1 = read_exact_Done [OF j]
  have "unat (from_be_bytes prefix) < 2 ^ 32"
    using unsigned_less [of "from_be_bytes prefix"] by simp
  with p1 j1 l v show ?thesis by auto
qed

lemma write_body_chunk_open:
  assumes "w_limit w = None" "length c < 2 ^ 32"
  shows "write_body_chunk c w = (Done (), w\<lparr>w_sent := w_sent w @ chunk_frame c\<rparr>)"
  using assms by (simp add: write_body_chunk_def chunk_frame_def)

lemma write_body_end_open:
  "w_limit w = None \<Longrightarrow> write_body_end w = (Done (), w\<lparr>w_sent := w_sent w @ chunk_end\<rparr>)"
  by (simp add: write_body_end_def chunk_end_def)

lemma chunk_len_small: "chunk_ok c \<Longrightarrow> length c < 2 ^ 32"
  by (simp add: chunk_ok_def BODY_CHUNK_LEN_def)

lemma read_chunk_frame:
  assumes "chunk_ok c"
  shows "read_body_chunk (r\<lparr>r_bytes := chunk_frame c @ bs\<rparr>) = Done (Some c, r\<lparr>r_bytes := bs\<rparr>)"
  using assms chunk_len_small [OF assms]
  by (simp add: read_body_chunk_def chunk_frame_def unat_word_of_length chunk_ok_def)

lemma read_chunk_end:
  "read_body_chunk (r\<lparr>r_bytes := chunk_end @ bs\<rparr>) = Done (None, r\<lparr>r_bytes := bs\<rparr>)"
  by (simp add: read_body_chunk_def chunk_end_def)

lemma read_chunk_oversized:
  assumes "BODY_CHUNK_LEN < length c" "length c < 2 ^ 32"
  shows "read_body_chunk (r\<lparr>r_bytes := chunk_frame c @ bs\<rparr>) = Fail ChunkExceedsLimit"
  using assms by (simp add: read_body_chunk_def chunk_frame_def unat_word_of_length)

text \<open>Four bytes are determined by the word they spell.\<close>

lemma of_char_bound: "of_char c < (256::nat)"
  by (metis mod_less_divisor of_char_mod_256 zero_less_numeral)

lemma be_digit_bound: "n < (256::nat) \<Longrightarrow> 256 * acc + n + 1 \<le> (acc + 1) * 256"
  by simp

lemma be_digit_unique:
  "256 * x + m = 256 * y + n \<Longrightarrow> m < (256::nat) \<Longrightarrow> n < 256 \<Longrightarrow> x = y \<and> m = n"
  by (cases x y rule: linorder_cases) simp_all

lemma be_value_bound: "be_value acc bs < (acc + 1) * 256 ^ length bs"
proof (induction bs arbitrary: acc)
  case Nil
  then show ?case by simp
next
  case (Cons b bs)
  have "256 * acc + of_char b + 1 \<le> (acc + 1) * (256::nat)"
    by (rule be_digit_bound [OF of_char_bound])
  then have "(256 * acc + of_char b + 1) * 256 ^ length bs \<le> (acc + 1) * 256 * 256 ^ length bs"
    by (rule mult_right_mono) simp
  from less_le_trans [OF Cons this] show ?case by (simp add: algebra_simps)
qed

lemma be_value_inj: "length as = length bs \<Longrightarrow> be_value x as = be_value y bs \<Longrightarrow> x = y \<and> as = bs"
proof (induction as arbitrary: bs x y)
  case Nil
  then show ?case by simp
next
  case (Cons a as)
  from Cons.prems(1) obtain b bs' where bs: "bs = b # bs'" by (cases bs) auto
  have "length as = length bs'"
    "be_value (256 * x + of_char a) as = be_value (256 * y + of_char b) bs'"
    using Cons.prems bs by simp_all
  from Cons.IH [OF this]
  have eq: "256 * x + of_char a = 256 * y + of_char b" and tl: "as = bs'"
    by simp_all
  have "x = y \<and> (of_char a :: nat) = of_char b"
    by (rule be_digit_unique [OF eq of_char_bound of_char_bound])
  with bs tl show ?case by simp
qed

lemma to_from_be_bytes:
  assumes "length p = 4"
  shows "to_be_bytes (from_be_bytes p) = p"
proof -
  have "be_value 0 p < 2 ^ 32"
    using be_value_bound [of 0 p] assms by simp
  then have "be_value 0 (to_be_bytes (from_be_bytes p)) = be_value 0 p"
    by (simp add: be_value_to_be_bytes from_be_bytes_def unat_of_nat)
  with assms show ?thesis
    using be_value_inj [of "to_be_bytes (from_be_bytes p)" p 0 0] by simp
qed

lemma prefix_of_length:
  "length p = 4 \<Longrightarrow> unat (from_be_bytes p) = n \<Longrightarrow> p = to_be_bytes (word_of_nat n)"
  using to_from_be_bytes [of p] by auto

lemma read_chunk_Some:
  assumes "read_body_chunk r = Done (Some c, r')"
  shows "chunk_ok c \<and> r_end r' = r_end r \<and> r_bytes r = chunk_frame c @ r_bytes r' \<and>
    r_bytes r' \<noteq> r_bytes r"
proof -
  from assms obtain prefix r1 where
    p: "read_exact ReadChunkLength 4 r = Done (prefix, r1)" and
    l: "unat (from_be_bytes prefix) \<le> BODY_CHUNK_LEN" "unat (from_be_bytes prefix) \<noteq> 0" and
    d: "read_exact ReadChunk (unat (from_be_bytes prefix)) r1 = Done (c, r')"
    by (auto simp: read_body_chunk_def result_simps Let_def split: if_splits)
  note p1 = read_exact_Done [OF p] and d1 = read_exact_Done [OF d]
  have "prefix = to_be_bytes (word_of_nat (length c))"
    using prefix_of_length [of prefix "length c"] p1 d1 by simp
  with p1 d1 have "r_bytes r = chunk_frame c @ r_bytes r'"
    by (metis append_assoc chunk_frame_def)
  moreover have "chunk_ok c"
    using d1 l by (auto simp: chunk_ok_def)
  ultimately show ?thesis using p1 d1 by (metis append_self_conv2 chunk_frame_not_Nil)
qed

lemma read_chunk_None:
  assumes "read_body_chunk r = Done (None, r')"
  shows "r_end r' = r_end r \<and> r_bytes r = chunk_end @ r_bytes r'"
proof -
  from assms obtain prefix where
    p: "read_exact ReadChunkLength 4 r = Done (prefix, r')" and
    l: "unat (from_be_bytes prefix) = 0"
    by (auto simp: read_body_chunk_def result_simps Let_def split: if_splits)
  note p1 = read_exact_Done [OF p]
  have "prefix = to_be_bytes (word_of_nat 0)"
    using prefix_of_length [of prefix 0] p1 l by simp
  with p1 show ?thesis by (simp add: chunk_end_def)
qed

interpretation chunks: framing chunk_frame chunk_end chunk_ok read_body_chunk
  by unfold_locales
    (simp_all add: read_chunk_frame read_chunk_end read_chunk_Some read_chunk_None)

lemma length_concat_frames: "length cs \<le> length (concat (map chunk_frame cs))"
proof (induction cs)
  case Nil
  then show ?case by simp
next
  case (Cons c cs)
  moreover have "0 < length (chunk_frame c)" by simp
  ultimately show ?case by (simp del: length_greater_0_conv)
qed

subsection \<open>Properties\<close>

text \<open>
  A head written by \<open>write_json_head\<close> on a stream that accepts it is read back by
  \<open>read_json_head\<close> as the same value, and the reader is left exactly at the byte after it,
  for every JSON codec that decodes what it encodes and every limit the encoding respects.
\<close>

theorem json_head_roundtrip:
  assumes "codec_roundtrip c"
    and "write_json_head c v w = (Done u, w')"
    and "length (w_sent w') - length (w_sent w) \<le> max_len + 4"
  shows "\<exists>frame. w_sent w' = w_sent w @ frame \<and>
    (\<forall>r rest. read_json_head c max_len (r\<lparr>r_bytes := frame @ rest\<rparr>) = Done (v, r\<lparr>r_bytes := rest\<rparr>))"
proof -
  obtain json where j: "to_vec c v = Some json" "length json < 2 ^ 32"
      "w_sent w' = w_sent w @ json_frame json"
    using write_json_head_Done [OF assms(2)] by blast
  have "from_slice c json = Some v"
    using assms(1) j(1) by (auto simp: codec_roundtrip_def)
  moreover have "length json \<le> max_len"
    using assms(3) j(3) by (simp add: json_frame_def)
  ultimately show ?thesis
    using j(2,3) by (intro exI [of _ "json_frame json"]) (simp add: read_json_frame)
qed

definition char_codec :: "char codec" where
  "char_codec = \<lparr>to_vec = (\<lambda>c. Some [c]), from_slice = (\<lambda>bs. case bs of [c] \<Rightarrow> Some c | _ \<Rightarrow> None)\<rparr>"

lemma char_codec_roundtrip: "codec_roundtrip char_codec"
  by (auto simp: codec_roundtrip_def char_codec_def)

theorem json_head_roundtrip_witness:
  "codec_roundtrip char_codec \<and>
   write_json_head char_codec CHR ''v'' \<lparr>w_sent = [], w_limit = None\<rparr> =
     (Done (), \<lparr>w_sent = json_frame ''v'', w_limit = None\<rparr>) \<and>
   (\<exists>frame. json_frame ''v'' = frame \<and>
     read_json_head char_codec 8 \<lparr>r_bytes = frame @ ''tail'', r_end = Eof\<rparr> =
       Done (CHR ''v'', \<lparr>r_bytes = ''tail'', r_end = Eof\<rparr>))"
proof -
  have w: "write_json_head char_codec CHR ''v'' \<lparr>w_sent = [], w_limit = None\<rparr> =
     (Done (), \<lparr>w_sent = json_frame ''v'', w_limit = None\<rparr>)"
    by (simp add: write_json_head_def char_codec_def json_frame_def)
  from json_head_roundtrip [OF char_codec_roundtrip w, of 8]
  have all: "\<forall>r rest. read_json_head char_codec 8 (r\<lparr>r_bytes := json_frame ''v'' @ rest\<rparr>) =
       Done (CHR ''v'', r\<lparr>r_bytes := rest\<rparr>)"
    by (auto simp: json_frame_def)
  have "read_json_head char_codec 8 (\<lparr>r_bytes = [], r_end = Eof\<rparr>\<lparr>r_bytes := json_frame ''v'' @ ''tail''\<rparr>) =
       Done (CHR ''v'', \<lparr>r_bytes = [], r_end = Eof\<rparr>\<lparr>r_bytes := ''tail''\<rparr>)"
    using all by blast
  with w char_codec_roundtrip show ?thesis by simp
qed


text \<open>
  The two ends disagree on the chunk limit: \<open>write_body_chunk\<close> accepts every chunk shorter
  than 4 GiB, but a chunk longer than \<open>BODY_CHUNK_LEN\<close> written that way makes the peer's
  \<open>read_body_chunk\<close> fail, whatever follows; an empty chunk is written as the end mark.
\<close>

theorem written_chunk_readable_iff:
  assumes "length c < 2 ^ 32" "w_limit w = None"
  shows "write_body_chunk c w = (Done (), w\<lparr>w_sent := w_sent w @ chunk_frame c\<rparr>) \<and>
    read_body_chunk (r\<lparr>r_bytes := chunk_frame c @ rest\<rparr>) =
      (if BODY_CHUNK_LEN < length c then Fail ChunkExceedsLimit
       else if c = [] then Done (None, r\<lparr>r_bytes := rest\<rparr>)
       else Done (Some c, r\<lparr>r_bytes := rest\<rparr>))"
proof -
  have "chunk_frame [] = chunk_end" by (simp add: chunk_frame_def chunk_end_def)
  then show ?thesis
    using assms write_body_chunk_open [OF assms(2,1)] read_chunk_oversized [where c = c and r = r]
      read_chunk_frame [where c = c and r = r] read_chunk_end [where r = r]
    by (auto simp: chunk_ok_def)
qed

theorem written_chunk_readable_iff_witness:
  "length (replicate 16385 CHR ''x'') < 2 ^ 32 \<and>
   read_body_chunk (\<lparr>r_bytes = [], r_end = Eof\<rparr>
     \<lparr>r_bytes := chunk_frame (replicate 16385 CHR ''x'') @ []\<rparr>) = Fail ChunkExceedsLimit"
  using written_chunk_readable_iff [where c = "replicate 16385 CHR ''x''" and rest = "[]"
      and w = "\<lparr>w_sent = [], w_limit = None\<rparr>" and r = "\<lparr>r_bytes = [], r_end = Eof\<rparr>"]
  by (simp add: BODY_CHUNK_LEN_def)

end
