(* ===== verification/Session_Status.thy ===== *)
theory Session_Status
  imports Wire_Protocol
begin

text \<open>
  The vocabulary of peer sessions, from \<open>crates/locho-core/src/session.rs\<close>: states, errors and
  the published status; the status updates of the driver; reconnect delays; the description of
  transport paths; and \<open>authorize_tcp\<close>, the client side of the TCP handshake.

  Revisions and generations are \<open>u64\<close> counters advanced by one per event and are modelled by
  natural numbers.
\<close>

datatype session_state =
  Starting | Connecting | Connected | Reconnecting | Failed | Closing | Closed

datatype transport_path = PathUnknown | PathDirect | PathRelay | PathMixed

datatype error_stage = StageConnect | StageAcquire | StageOpenStream | StageHandshake | StageShutdown

datatype session_error =
    SessClosed | SessCancelled | SessTimeout error_stage | SessTransport error_stage | SessProtocol
  | SessServiceRejected u16 | SessUnsupportedService | SessResourceLimit | SessDriverStopped

record session_status =
  revision :: nat
  state :: session_state
  path :: transport_path
  path_description :: string
  last_error :: "session_error option"
  terminal_error :: "session_error option"

definition default_status :: session_status where
  "default_status = \<lparr>revision = 0, state = Starting, path = PathUnknown,
     path_description = ''none'', last_error = None, terminal_error = None\<rparr>"

subsection \<open>Status updates of the driver\<close>

definition driver_update :: "session_state \<Rightarrow> session_error option \<Rightarrow> session_status \<Rightarrow> session_status" where
  "driver_update st err s =
     (let s = s\<lparr>revision := revision s + 1, state := st\<rparr>;
          s = (if err \<noteq> None \<or> st = Connected then s\<lparr>last_error := err\<rparr> else s)
      in if st \<noteq> Connected then s\<lparr>path := PathUnknown, path_description := ''none''\<rparr> else s)"

text \<open>A path snapshot entry: remote address, direct, relay, selected.\<close>

type_synonym path_info = "string \<times> bool \<times> bool \<times> bool"

definition strip_address :: "string \<Rightarrow> string" where
  "strip_address a =
     (case strip_prefix ''ip:'' a of
        Some t \<Rightarrow> t
      | None \<Rightarrow> (case strip_prefix ''relay:'' a of Some t \<Rightarrow> t | None \<Rightarrow> a))"

fun collect_paths ::
  "path_info list \<Rightarrow> string list \<times> string list \<times> string option \<Rightarrow> string list \<times> string list \<times> string option"
where
  "collect_paths [] acc = acc"
| "collect_paths ((a, d, r, sel) # ps) (direct, relay, selected) =
     (let a = strip_address a
      in collect_paths ps
        (if d then direct @ [a] else direct, if r then relay @ [a] else relay,
         if sel then Some a else selected))"

definition format_transport_paths :: "path_info list \<Rightarrow> string" where
  "format_transport_paths ps =
     (let (direct, relay, selected) = collect_paths ps ([], [], None)
      in case (direct = [], relay = []) of
           (False, True) \<Rightarrow>
             ''direct('' @ (case selected of Some a \<Rightarrow> a | None \<Rightarrow> join_with '', '' direct) @ '')''
         | (True, False) \<Rightarrow>
             ''relay('' @ (case selected of Some a \<Rightarrow> a | None \<Rightarrow> join_with '', '' relay) @ '')''
         | (False, False) \<Rightarrow>
             ''mixed(direct: '' @ join_with '', '' direct @ '', relay: '' @ join_with '', '' relay @ '')''
         | (True, True) \<Rightarrow> ''none'')"

definition path_of_flags :: "bool \<Rightarrow> bool \<Rightarrow> transport_path" where
  "path_of_flags direct relay =
     (case (direct, relay) of
        (True, True) \<Rightarrow> PathMixed
      | (True, False) \<Rightarrow> PathDirect
      | (False, True) \<Rightarrow> PathRelay
      | _ \<Rightarrow> PathUnknown)"

definition driver_path :: "path_info list \<Rightarrow> session_status \<Rightarrow> session_status" where
  "driver_path ps s =
     (let direct = list_ex (\<lambda>(_, d, _, _). d) ps;
          relay = list_ex (\<lambda>(_, _, r, _). r) ps;
          description = format_transport_paths ps
      in if path_description s = description then s
         else s\<lparr>revision := revision s + 1, path := path_of_flags direct relay,
                path_description := description\<rparr>)"

subsection \<open>Reconnect delays\<close>

definition next_backoff :: "duration \<Rightarrow> duration" where
  "next_backoff current =
     min (case checked_mul current 2 of None \<Rightarrow> RECONNECT_MAX_BACKOFF | Some d \<Rightarrow> d)
         RECONNECT_MAX_BACKOFF"

definition reconnect_delay :: "bool \<Rightarrow> duration \<Rightarrow> duration" where
  "reconnect_delay recovering backoff = (if recovering then RECONNECT_INITIAL_BACKOFF else backoff)"

subsection \<open>The client side of the TCP handshake\<close>

definition tcp_head_of :: "crypto_api \<Rightarrow> capability \<Rightarrow> stream_request_head" where
  "tcp_head_of cr cap = TcpHead \<lparr>tcp_version = PROTOCOL_VERSION, tcp_service = cap_service cap,
     tcp_secret_proof = secret_proof cr (cap_secret cap)\<rparr>"

definition check_tcp_response :: "locho_response_head \<Rightarrow> session_error + unit" where
  "check_tcp_response response =
     (if resp_version response \<noteq> PROTOCOL_VERSION \<or>
         \<not> (100 \<le> resp_status response \<and> resp_status response \<le> 599) then Inl SessProtocol
      else if resp_status response \<noteq> 200 then Inl (SessServiceRejected (resp_status response))
      else if resp_body_len response \<noteq> Some 0 \<or> resp_headers response \<noteq> [] then Inl SessProtocol
      else Inr ())"

definition authorize_tcp ::
  "crypto_api \<Rightarrow> stream_request_head codec \<Rightarrow> locho_response_head codec \<Rightarrow> capability \<Rightarrow>
   writer \<Rightarrow> reader \<Rightarrow> (reader, session_error) outcome \<times> writer" where
  "authorize_tcp cr reqc respc cap w r =
     (case write_json_head reqc (tcp_head_of cr cap) w of
        (Fail _, w) \<Rightarrow> (Fail (SessTransport StageHandshake), w)
      | (Hang, w) \<Rightarrow> (Hang, w)
      | (Done _, w) \<Rightarrow>
          (case read_json_head respc MAX_HEAD_LEN r of
             Fail _ \<Rightarrow> (Fail SessProtocol, w)
           | Hang \<Rightarrow> (Hang, w)
           | Done (response, r) \<Rightarrow>
               (case check_tcp_response response of
                  Inl e \<Rightarrow> (Fail e, w)
                | Inr _ \<Rightarrow> (Done r, w))))"

subsection \<open>Lemmas\<close>

lemma driver_update_simps [simp]:
  "revision (driver_update st err s) = revision s + 1"
  "state (driver_update st err s) = st"
  "terminal_error (driver_update st err s) = terminal_error s"
  "path (driver_update st err s) = (if st = Connected then path s else PathUnknown)"
  "path_description (driver_update st err s) = (if st = Connected then path_description s else ''none'')"
  "last_error (driver_update st err s) = (if err \<noteq> None \<or> st = Connected then err else last_error s)"
  by (simp_all add: driver_update_def Let_def)

lemma driver_path_frame [simp]:
  "state (driver_path ps s) = state s"
  "last_error (driver_path ps s) = last_error s"
  "terminal_error (driver_path ps s) = terminal_error s"
  by (simp_all add: driver_path_def Let_def)

lemma collect_paths_eq:
  "collect_paths ps (direct, relay, sel) =
     (direct @ map (strip_address \<circ> fst) (filter (\<lambda>(_, d, _, _). d) ps),
      relay @ map (strip_address \<circ> fst) (filter (\<lambda>(_, _, r, _). r) ps),
      fold (\<lambda>(a, _, _, s) acc. if s then Some (strip_address a) else acc) ps sel)"
  by (induction ps arbitrary: direct relay sel) (auto simp: Let_def)

text \<open>The kind of path a description stands for, read off its first letter.\<close>

definition path_of_description :: "string \<Rightarrow> transport_path" where
  "path_of_description d =
     (if take 1 d = ''m'' then PathMixed else if take 1 d = ''d'' then PathDirect
      else if take 1 d = ''r'' then PathRelay else PathUnknown)"

definition path_kind :: "path_info list \<Rightarrow> transport_path" where
  "path_kind ps = path_of_flags (list_ex (\<lambda>(_, d, _, _). d) ps) (list_ex (\<lambda>(_, _, r, _). r) ps)"

lemma direct_paths_empty: "filter (\<lambda>(_, d, _, _). d) ps = [] \<longleftrightarrow> \<not> list_ex (\<lambda>(_, d, _, _). d) ps"
  by (auto simp: filter_empty_conv list_ex_iff)

lemma relay_paths_empty: "filter (\<lambda>(_, _, r, _). r) ps = [] \<longleftrightarrow> \<not> list_ex (\<lambda>(_, _, r, _). r) ps"
  by (auto simp: filter_empty_conv list_ex_iff)

lemma format_transport_paths_kind: "path_of_description (format_transport_paths ps) = path_kind ps"
  by (simp add: format_transport_paths_def collect_paths_eq direct_paths_empty relay_paths_empty
      path_of_flags_def path_of_description_def path_kind_def split: bool.splits)

lemma format_transport_paths_none: "format_transport_paths ps = ''none'' \<longleftrightarrow> path_kind ps = PathUnknown"
  by (simp add: format_transport_paths_def collect_paths_eq direct_paths_empty relay_paths_empty
      path_of_flags_def path_kind_def split: bool.splits)

text \<open>The published path and its description always agree.\<close>

definition path_agrees :: "session_status \<Rightarrow> bool" where
  "path_agrees s \<longleftrightarrow> path s = path_of_description (path_description s)"

lemma path_of_none [simp]: "path_of_description ''none'' = PathUnknown"
  by (simp add: path_of_description_def)

lemma path_agrees_default: "path_agrees default_status"
  by (simp add: path_agrees_def default_status_def)

lemma path_agrees_update: "path_agrees s \<Longrightarrow> path_agrees (driver_update st err s)"
  by (simp add: path_agrees_def)

lemma path_agrees_path: "path_agrees s \<Longrightarrow> path_agrees (driver_path ps s)"
  by (simp add: path_agrees_def driver_path_def Let_def format_transport_paths_kind
      path_kind_def [symmetric])

lemma check_tcp_response_Inr_iff:
  "check_tcp_response h = Inr u \<longleftrightarrow>
   h = \<lparr>resp_version = PROTOCOL_VERSION, resp_status = 200, resp_headers = [], resp_body_len = Some 0\<rparr>"
  by (cases h) (auto simp: check_tcp_response_def split: if_splits)

lemma next_backoff_bounds:
  "RECONNECT_INITIAL_BACKOFF \<le> b \<Longrightarrow>
   RECONNECT_INITIAL_BACKOFF \<le> next_backoff b \<and> next_backoff b \<le> RECONNECT_MAX_BACKOFF"
  by (auto simp: next_backoff_def checked_mul_def RECONNECT_INITIAL_BACKOFF_def
      RECONNECT_MAX_BACKOFF_def duration_defs split: if_splits)

lemma next_backoff_eq:
  "b \<le> RECONNECT_MAX_BACKOFF \<Longrightarrow> next_backoff b = min (2 * b) RECONNECT_MAX_BACKOFF"
  by (auto simp: next_backoff_def checked_mul_def RECONNECT_MAX_BACKOFF_def duration_defs)

text \<open>The delay after \<open>n\<close> failed first attempts.\<close>

lemma next_backoff_iterate:
  "(next_backoff ^^ n) RECONNECT_INITIAL_BACKOFF =
   min (RECONNECT_INITIAL_BACKOFF * 2 ^ n) RECONNECT_MAX_BACKOFF"
proof (induction n)
  case 0
  then show ?case by (simp add: RECONNECT_INITIAL_BACKOFF_def RECONNECT_MAX_BACKOFF_def duration_defs)
next
  case (Suc n)
  then show ?case by (simp add: next_backoff_eq)
qed

subsection \<open>Properties\<close>

text \<open>
  The description of the transport paths determines their kind, so skipping the status
  update when the description is unchanged never leaves a stale typed \<open>path\<close>: from a status
  whose path and description agree, the path published after a snapshot is the kind of that
  snapshot, and the description is \<open>none\<close> exactly when there is neither a direct nor a relay path.
\<close>

theorem driver_path_exact:
  assumes "path_agrees s"
  shows "path (driver_path ps s) = path_kind ps \<and>
    path_description (driver_path ps s) = format_transport_paths ps \<and>
    (format_transport_paths ps = ''none'' \<longleftrightarrow> path_kind ps = PathUnknown)"
proof -
  have "path_description (driver_path ps s) = format_transport_paths ps"
    by (simp add: driver_path_def Let_def)
  with path_agrees_path [OF assms, of ps] show ?thesis
    by (simp add: path_agrees_def format_transport_paths_kind format_transport_paths_none)
qed

theorem driver_path_exact_witness:
  "path_agrees default_status \<and>
   path (driver_path [(''ip:10.0.0.1:7'', True, False, True)] default_status) = PathDirect \<and>
   path_description (driver_path [(''ip:10.0.0.1:7'', True, False, True)] default_status) =
     ''direct(10.0.0.1:7)''"
proof -
  have "path_kind [(''ip:10.0.0.1:7'', True, False, True)] = PathDirect"
    by (simp add: path_kind_def path_of_flags_def)
  moreover have "format_transport_paths [(''ip:10.0.0.1:7'', True, False, True)] = ''direct(10.0.0.1:7)''"
    by (simp add: format_transport_paths_def strip_address_def Let_def)
  ultimately show ?thesis
    using driver_path_exact [OF path_agrees_default, of "[(''ip:10.0.0.1:7'', True, False, True)]"]
      path_agrees_default by simp
qed

text \<open>
  The delay before the \<open>n\<close>-th retry of a first connection is 250 ms doubled \<open>n\<close> times and
  capped at 30 s, so it never decreases and never exceeds the cap; a session that has been
  connected before always retries after 250 ms.
\<close>

theorem reconnect_delay_schedule:
  "reconnect_delay False ((next_backoff ^^ n) RECONNECT_INITIAL_BACKOFF) =
     min (from_millis 250 * 2 ^ n) (from_secs 30) \<and>
   reconnect_delay True b = from_millis 250"
  by (simp add: reconnect_delay_def next_backoff_iterate)
    (simp add: RECONNECT_INITIAL_BACKOFF_def RECONNECT_MAX_BACKOFF_def)

text \<open>
  The client accepts a TCP handshake only for the one response head protocol version 3
  allows (status 200, no headers, body length zero): success means the request head was written
  completely and exactly that head was read, and the application bytes start right after it.
\<close>

theorem authorize_tcp_success:
  assumes "authorize_tcp cr reqc respc cap w r = (Done r', w')"
  shows "\<exists>json. to_vec reqc (tcp_head_of cr cap) = Some json \<and> w_sent w' = w_sent w @ json_frame json \<and>
    (\<exists>prefix data. from_slice respc data = Some \<lparr>resp_version = PROTOCOL_VERSION, resp_status = 200,
        resp_headers = [], resp_body_len = Some 0\<rparr> \<and>
      length prefix = 4 \<and> r_bytes r = prefix @ data @ r_bytes r')"
proof -
  obtain o1 w1 where w1: "write_json_head reqc (tcp_head_of cr cap) w = (o1, w1)"
    by (cases "write_json_head reqc (tcp_head_of cr cap) w")
  then have o1: "o1 = Done ()" and w': "w' = w1"
    and "\<exists>h. read_json_head respc MAX_HEAD_LEN r = Done (h, r') \<and> check_tcp_response h = Inr ()"
    using assms by (auto simp: authorize_tcp_def split: outcome.splits sum.splits)
  then obtain h where h: "read_json_head respc MAX_HEAD_LEN r = Done (h, r')"
    "h = \<lparr>resp_version = PROTOCOL_VERSION, resp_status = 200, resp_headers = [], resp_body_len = Some 0\<rparr>"
    by (auto simp: check_tcp_response_Inr_iff)
  from write_json_head_Done [OF w1 [unfolded o1]] read_json_head_Done [OF h(1)] h(2) w'
  show ?thesis by blast
qed

definition sample_head_codec :: "'a \<Rightarrow> 'a codec" where
  "sample_head_codec v = \<lparr>to_vec = (\<lambda>_. Some ''{}''), from_slice = (\<lambda>_. Some v)\<rparr>"


definition sample_cap :: capability where
  "sample_cap = \<lparr>cap_service = ''db'', cap_service_type = Tcp, cap_secret = ''k''\<rparr>"

definition tcp_accept_head :: locho_response_head where
  "tcp_accept_head = \<lparr>resp_version = PROTOCOL_VERSION, resp_status = 200,
     resp_headers = [], resp_body_len = Some 0\<rparr>"

theorem authorize_tcp_success_witness:
  "authorize_tcp sample_crypto (sample_head_codec (tcp_head_of sample_crypto sample_cap))
       (sample_head_codec tcp_accept_head) sample_cap
       \<lparr>w_sent = [], w_limit = None\<rparr> \<lparr>r_bytes = json_frame ''{}'' @ ''app'', r_end = Eof\<rparr> =
     (Done \<lparr>r_bytes = ''app'', r_end = Eof\<rparr>, \<lparr>w_sent = json_frame ''{}'', w_limit = None\<rparr>) \<and>
   (\<exists>json. to_vec (sample_head_codec (tcp_head_of sample_crypto sample_cap))
        (tcp_head_of sample_crypto sample_cap) = Some json \<and> json_frame ''{}'' = [] @ json_frame json)"
proof -
  have eq: "authorize_tcp sample_crypto (sample_head_codec (tcp_head_of sample_crypto sample_cap))
       (sample_head_codec tcp_accept_head) sample_cap
       \<lparr>w_sent = [], w_limit = None\<rparr> \<lparr>r_bytes = json_frame ''{}'' @ ''app'', r_end = Eof\<rparr> =
     (Done \<lparr>r_bytes = ''app'', r_end = Eof\<rparr>, \<lparr>w_sent = json_frame ''{}'', w_limit = None\<rparr>)"
    using read_json_frame [where c = "sample_head_codec tcp_accept_head" and json = "''{}''"
        and v = tcp_accept_head and max_len = MAX_HEAD_LEN
        and r = "\<lparr>r_bytes = [], r_end = Eof\<rparr>" and bs = "''app''"]
    by (simp add: authorize_tcp_def sample_head_codec_def write_json_head_open MAX_HEAD_LEN_def
        check_tcp_response_def tcp_accept_head_def)
  from eq authorize_tcp_success [OF eq] show ?thesis by auto
qed

end
