(* ===== verification/Step_Systems.thy ===== *)
theory Step_Systems
  imports Prelude
begin

text \<open>
  Interfaces shared by the components that are state machines (the session driver, the native
  client's attachments, the listeners): deterministic steps labelled by actions of the component
  and of its environment, reachable states, invariants, and published statuses with a revision
  counter that observers compare instead of the whole status.
\<close>

inductive reach :: "'s \<Rightarrow> ('a \<Rightarrow> 's \<Rightarrow> 's) \<Rightarrow> 's \<Rightarrow> bool" for init step where
  reach_init: "reach init step init"
| reach_step: "reach init step s \<Longrightarrow> reach init step (step a s)"

inductive_simps reach_simps: "reach init step s"

fun run_steps :: "('a \<Rightarrow> 's \<Rightarrow> 's) \<Rightarrow> 'a list \<Rightarrow> 's \<Rightarrow> 's" where
  "run_steps step [] s = s"
| "run_steps step (a # as) s = run_steps step as (step a s)"

lemma run_steps_append: "run_steps step (as @ bs) s = run_steps step bs (run_steps step as s)"
  by (induction as arbitrary: s) simp_all

lemma reach_run: "reach init step s \<Longrightarrow> reach init step (run_steps step as s)"
  by (induction as arbitrary: s) (auto intro: reach_step)

lemma reach_iff_run: "reach init step s \<longleftrightarrow> (\<exists>as. s = run_steps step as init)"
proof
  assume "reach init step s"
  then show "\<exists>as. s = run_steps step as init"
  proof induction
    case reach_init
    show ?case by (rule exI [of _ "[]"]) simp
  next
    case (reach_step s a)
    then obtain as where "s = run_steps step as init" by blast
    then show ?case by (intro exI [of _ "as @ [a]"]) (simp add: run_steps_append)
  qed
next
  assume "\<exists>as. s = run_steps step as init"
  then show "reach init step s" by (auto intro: reach_run reach.reach_init)
qed

text \<open>An invariant: true at the start and kept by every action.\<close>

locale invariant_system =
  fixes init :: 's
    and step :: "'a \<Rightarrow> 's \<Rightarrow> 's"
    and inv :: "'s \<Rightarrow> bool"
  assumes inv_init: "inv init"
    and inv_step: "inv s \<Longrightarrow> inv (step a s)"
begin

lemma inv_run: "inv s \<Longrightarrow> inv (run_steps step as s)"
  by (induction as arbitrary: s) (auto intro: inv_step)

lemma reach_inv: "reach init step s \<Longrightarrow> inv s"
  by (induction rule: reach.induct) (auto intro: inv_init inv_step)

end

text \<open>
  A published status with a revision: no action lowers the revision, and an action that changes
  what is published raises it. Equal revisions then identify equal statuses along a run, which is
  what a subscriber that only compares revisions relies on.
\<close>

locale revisioned_system =
  fixes step :: "'a \<Rightarrow> 's \<Rightarrow> 's"
    and published :: "'s \<Rightarrow> 'p"
    and rev_of :: "'p \<Rightarrow> nat"
  assumes step_revision: "published (step a s) = published s \<or> rev_of (published s) < rev_of (published (step a s))"
begin

lemma run_revision:
  "published (run_steps step as s) = published s \<or>
   rev_of (published s) < rev_of (published (run_steps step as s))"
proof (induction as arbitrary: s)
  case Nil
  then show ?case by simp
next
  case (Cons a as)
  from step_revision [of a s] Cons [of "step a s"] show ?case by auto
qed

lemma revision_mono: "rev_of (published s) \<le> rev_of (published (run_steps step as s))"
  using run_revision [of as s] by auto

lemma same_revision_same_status:
  "rev_of (published (run_steps step as s)) = rev_of (published s) \<Longrightarrow>
   published (run_steps step as s) = published s"
  using run_revision [of as s] by auto

end

text \<open>
  A progress measure: while a condition holds and the component has not arrived, each of its
  own actions lowers the measure and keeps the condition, so it arrives within that many actions,
  the condition still holding.
\<close>

locale bounded_progress =
  fixes own :: "'e \<Rightarrow> 's \<Rightarrow> 's"
    and cond :: "'s \<Rightarrow> bool"
    and arrived :: "'s \<Rightarrow> bool"
    and rank :: "'s \<Rightarrow> nat"
  assumes own_cond: "cond s \<Longrightarrow> \<not> arrived s \<Longrightarrow> cond (own e s)"
    and own_rank: "cond s \<Longrightarrow> \<not> arrived s \<Longrightarrow> rank (own e s) < rank s"
begin

lemma arrives:
  "cond s \<Longrightarrow> rank s \<le> length es \<Longrightarrow>
   \<exists>n \<le> length es. cond (run_steps own (take n es) s) \<and> arrived (run_steps own (take n es) s)"
proof (induction es arbitrary: s)
  case Nil
  then show ?case using own_rank [of s] by fastforce
next
  case (Cons e es)
  show ?case
  proof (cases "arrived s")
    case True
    with Cons.prems show ?thesis by (intro exI [of _ 0]) simp
  next
    case False
    with Cons.prems have "cond (own e s)" "rank (own e s) \<le> length es"
      using own_cond own_rank [of s e] by fastforce+
    from Cons.IH [OF this] obtain n where "n \<le> length es" "cond (run_steps own (take n es) (own e s))"
      "arrived (run_steps own (take n es) (own e s))"
      by blast
    then show ?thesis by (intro exI [of _ "Suc n"]) simp
  qed
qed

end

text \<open>
  A refinement: an abstraction of the states under which every step of a component, in states
  that satisfy its invariant, is a sequence of steps of a specification. Runs and reachable states
  are then those of the specification, and so is every property of its reachable states.
\<close>

locale simulation = invariant_system init step inv
  for init :: 's and step :: "'a \<Rightarrow> 's \<Rightarrow> 's" and inv :: "'s \<Rightarrow> bool" +
  fixes abstraction :: "'s \<Rightarrow> 't"
    and spec_init :: 't
    and spec_step :: "'b \<Rightarrow> 't \<Rightarrow> 't"
    and spec_acts :: "'a \<Rightarrow> 's \<Rightarrow> 'b list"
  assumes abs_init: "abstraction init = spec_init"
    and abs_step: "inv s \<Longrightarrow> abstraction (step a s) = run_steps spec_step (spec_acts a s) (abstraction s)"
begin

lemma abs_run: "inv s \<Longrightarrow> \<exists>bs. abstraction (run_steps step as s) = run_steps spec_step bs (abstraction s)"
proof (induction as arbitrary: s)
  case Nil
  show ?case by (rule exI [of _ "[]"]) simp
next
  case (Cons a as)
  from Cons.IH [OF inv_step [OF Cons.prems]] obtain bs where
    "abstraction (run_steps step as (step a s)) = run_steps spec_step bs (abstraction (step a s))" by blast
  with abs_step [OF Cons.prems, of a] show ?case
    by (intro exI [of _ "spec_acts a s @ bs"]) (simp add: run_steps_append)
qed

lemma abs_reach: "reach init step s \<Longrightarrow> reach spec_init spec_step (abstraction s)"
proof -
  assume "reach init step s"
  then obtain as where "s = run_steps step as init" by (auto simp: reach_iff_run)
  with abs_run [OF inv_init, of as] abs_init show ?thesis by (auto simp: reach_iff_run)
qed

end

end
