(* ===== verification/Session_Driver.thy ===== *)
theory Session_Driver
  imports Session_Status Step_Systems
begin

text \<open>
  The session driver, \<open>SessionDriver\<close> of \<open>crates/locho-core/src/session.rs\<close>: \<open>supervise\<close>,
  \<open>run\<close>, \<open>retry\<close> and the driver's \<open>Drop\<close>, with what other tasks can do to the shared state
  meanwhile (request shutdown, invalidate a lease, drop the driver, close the endpoint).

  The driver is its program counter, one value per \<open>await\<close> and per write to shared state, so
  that other tasks act between any two writes. \<open>driver_poll\<close> runs it to its next point; the
  event says what the awaited operation of the transport did. A biased \<open>select!\<close> checks the
  shutdown token first. The connection is identified by a number; \<open>closed_conns\<close> records which
  connections the driver closed.
\<close>

type_synonym conn = nat

datatype attempt_result = AttemptTimedOut | AttemptFailed | AttemptConnected conn "path_info list"

datatype watch_event = ConnectionClosed | StableElapsed | InvalidationChanged | PathsEnded | PathsChanged "path_info list"

datatype event =
    Proceed | Attempted attempt_result | SleepElapsed | Watched watch_event | CleanupFinished bool

datatype driver_pc =
    AtHead | FailTerminal | FailCancel | Attempting | RetryConnect
  | PublishPath conn "path_info list" | PublishConn conn | WatchHead conn | Watching conn
  | Recover conn | RecoverStatus | RetryRecover
  | Finishing | FinishConn | Cleaning | Completed | Dropped

record session =
  shutdown :: bool
  status :: session_status
  connections :: "(nat \<times> conn) option"
  endpoint_closed :: bool
  closed_conns :: "conn set"
  pc :: driver_pc
  backoff :: duration
  recovering :: bool
  generation :: nat
  is_stable :: bool

definition session_start :: session where
  "session_start = \<lparr>shutdown = False, status = default_status, connections = None,
     endpoint_closed = False, closed_conns = {}, pc = AtHead,
     backoff = RECONNECT_INITIAL_BACKOFF, recovering = False, generation = 0, is_stable = False\<rparr>"

definition connecting_state :: "session \<Rightarrow> session_state" where
  "connecting_state s = (if recovering s then Reconnecting else Connecting)"

subsection \<open>supervise\<close>

definition supervise_head :: "session \<Rightarrow> session" where
  "supervise_head s =
     (if endpoint_closed s \<and> \<not> shutdown s
      then s\<lparr>status := driver_update Failed (Some SessDriverStopped) (status s), pc := FailTerminal\<rparr>
      else s\<lparr>status := driver_update (connecting_state s) None (status s), pc := Attempting\<rparr>)"

definition supervise_fail_terminal :: "session \<Rightarrow> session" where
  "supervise_fail_terminal s =
     s\<lparr>status := (status s)\<lparr>revision := revision (status s) + 1,
         terminal_error := Some SessDriverStopped\<rparr>, pc := FailCancel\<rparr>"

definition supervise_attempt :: "attempt_result option \<Rightarrow> session \<Rightarrow> session" where
  "supervise_attempt res s =
     (if shutdown s then s\<lparr>pc := Finishing\<rparr>
      else case res of
        None \<Rightarrow> s
      | Some AttemptTimedOut \<Rightarrow>
          s\<lparr>status := driver_update (connecting_state s) (Some (SessTimeout StageConnect)) (status s),
            pc := RetryConnect\<rparr>
      | Some AttemptFailed \<Rightarrow>
          s\<lparr>status := driver_update (connecting_state s) (Some (SessTransport StageConnect)) (status s),
            pc := RetryConnect\<rparr>
      | Some (AttemptConnected c paths) \<Rightarrow>
          s\<lparr>generation := generation s + 1, status := driver_update Connected None (status s),
            pc := PublishPath c paths\<rparr>)"

text \<open>\<open>retry(delay)\<close>: the shutdown token first, then the sleep.\<close>

definition retry_connect :: "bool \<Rightarrow> session \<Rightarrow> session" where
  "retry_connect elapsed s =
     (if shutdown s then s\<lparr>pc := Finishing\<rparr>
      else if elapsed
      then s\<lparr>backoff := (if recovering s then backoff s else next_backoff (backoff s)), pc := AtHead\<rparr>
      else s)"

definition retry_recover :: "bool \<Rightarrow> session \<Rightarrow> session" where
  "retry_recover elapsed s =
     (if shutdown s then s\<lparr>pc := Finishing\<rparr> else if elapsed then s\<lparr>pc := AtHead\<rparr> else s)"

text \<open>
  The watch loop: its head looks at the published connection, since a lease may have invalidated
  it between two turns; the biased \<open>select!\<close> looks at the shutdown token first.
\<close>

definition supervise_watch_head :: "conn \<Rightarrow> session \<Rightarrow> session" where
  "supervise_watch_head c s =
     (if connections s = None then s\<lparr>pc := Recover c\<rparr> else s\<lparr>pc := Watching c\<rparr>)"

definition supervise_watch :: "conn \<Rightarrow> watch_event option \<Rightarrow> session \<Rightarrow> session" where
  "supervise_watch c ev s =
     (if shutdown s then s\<lparr>closed_conns := insert c (closed_conns s), pc := Finishing\<rparr>
      else case ev of
        None \<Rightarrow> s
      | Some ConnectionClosed \<Rightarrow> s\<lparr>pc := Recover c\<rparr>
      | Some StableElapsed \<Rightarrow>
          if is_stable s then s
          else s\<lparr>backoff := RECONNECT_INITIAL_BACKOFF, is_stable := True, pc := WatchHead c\<rparr>
      | Some InvalidationChanged \<Rightarrow>
          if connections s = None then s\<lparr>pc := Recover c\<rparr> else s\<lparr>pc := WatchHead c\<rparr>
      | Some PathsEnded \<Rightarrow> s\<lparr>pc := Recover c\<rparr>
      | Some (PathsChanged ps) \<Rightarrow> s\<lparr>status := driver_path ps (status s), pc := WatchHead c\<rparr>)"

definition supervise_recover :: "conn \<Rightarrow> session \<Rightarrow> session" where
  "supervise_recover c s =
     s\<lparr>connections := None, closed_conns := insert c (closed_conns s), recovering := True,
       pc := RecoverStatus\<rparr>"

definition supervise_recover_status :: "session \<Rightarrow> session" where
  "supervise_recover_status s =
     s\<lparr>status := driver_update Reconnecting (Some (SessTransport StageConnect)) (status s),
       pc := RetryRecover\<rparr>"

subsection \<open>run\<close>

definition run_cleanup :: "bool option \<Rightarrow> session \<Rightarrow> session" where
  "run_cleanup res s =
     (case res of
        None \<Rightarrow> s
      | Some in_time \<Rightarrow>
          s\<lparr>status := (status s)\<lparr>revision := revision (status s) + 1, state := Closed,
              terminal_error := (if in_time then terminal_error (status s)
                                 else Some (SessTimeout StageShutdown))\<rparr>,
            endpoint_closed := True, pc := Completed\<rparr>)"

definition attempt_of :: "event \<Rightarrow> attempt_result option" where
  "attempt_of ev = (case ev of Attempted r \<Rightarrow> Some r | _ \<Rightarrow> None)"

definition watch_of :: "event \<Rightarrow> watch_event option" where
  "watch_of ev = (case ev of Watched w \<Rightarrow> Some w | _ \<Rightarrow> None)"

definition cleanup_of :: "event \<Rightarrow> bool option" where
  "cleanup_of ev = (case ev of CleanupFinished b \<Rightarrow> Some b | _ \<Rightarrow> None)"

definition driver_poll :: "event \<Rightarrow> session \<Rightarrow> session" where
  "driver_poll ev s =
     (case pc s of
        AtHead \<Rightarrow> supervise_head s
      | FailTerminal \<Rightarrow> supervise_fail_terminal s
      | FailCancel \<Rightarrow> s\<lparr>shutdown := True, pc := Finishing\<rparr>
      | Attempting \<Rightarrow> supervise_attempt (attempt_of ev) s
      | RetryConnect \<Rightarrow> retry_connect (ev = SleepElapsed) s
      | PublishPath c ps \<Rightarrow> s\<lparr>status := driver_path ps (status s), pc := PublishConn c\<rparr>
      | PublishConn c \<Rightarrow>
          s\<lparr>connections := Some (generation s, c), is_stable := False, pc := WatchHead c\<rparr>
      | WatchHead c \<Rightarrow> supervise_watch_head c s
      | Watching c \<Rightarrow> supervise_watch c (watch_of ev) s
      | Recover c \<Rightarrow> supervise_recover c s
      | RecoverStatus \<Rightarrow> supervise_recover_status s
      | RetryRecover \<Rightarrow> retry_recover (ev = SleepElapsed) s
      | Finishing \<Rightarrow> s\<lparr>status := driver_update Closing None (status s), pc := FinishConn\<rparr>
      | FinishConn \<Rightarrow> s\<lparr>connections := None, pc := Cleaning\<rparr>
      | Cleaning \<Rightarrow> run_cleanup (cleanup_of ev) s
      | Completed \<Rightarrow> s
      | Dropped \<Rightarrow> s)"

subsection \<open>Dropping the driver, and the other tasks\<close>

definition driver_drop :: "session \<Rightarrow> session" where
  "driver_drop s =
     (if pc s = Completed \<or> pc s = Dropped then s
      else s\<lparr>shutdown := True,
        closed_conns := (case connections s of None \<Rightarrow> closed_conns s
                         | Some (_, c) \<Rightarrow> insert c (closed_conns s)),
        connections := None,
        status := (status s)\<lparr>revision := revision (status s) + 1, state := Closed,
          path := PathUnknown, path_description := ''none'',
          terminal_error := Some SessDriverStopped, last_error := Some SessDriverStopped\<rparr>,
        pc := Dropped\<rparr>)"

text \<open>\<open>ConnectionLease::invalidate\<close> of a lease of the given generation.\<close>

definition invalidate :: "nat \<Rightarrow> session \<Rightarrow> session" where
  "invalidate gen s =
     (case connections s of
        Some (g, c) \<Rightarrow> if g = gen then s\<lparr>connections := None\<rparr> else s
      | None \<Rightarrow> s)"

datatype action = Poll event | Invalidate nat | RequestShutdown | DropDriver | EndpointCloses

fun session_step :: "action \<Rightarrow> session \<Rightarrow> session" where
  "session_step (Poll ev) s = driver_poll ev s"
| "session_step (Invalidate gen) s = invalidate gen s"
| "session_step RequestShutdown s = s\<lparr>shutdown := True\<rparr>"
| "session_step DropDriver s = driver_drop s"
| "session_step EndpointCloses s = s\<lparr>endpoint_closed := True\<rparr>"

subsection \<open>The driver's invariant\<close>

definition live_pcs :: "driver_pc \<Rightarrow> bool" where
  "live_pcs p = (case p of PublishPath _ _ \<Rightarrow> True | PublishConn _ \<Rightarrow> True | WatchHead _ \<Rightarrow> True | Watching _ \<Rightarrow> True
     | Recover _ \<Rightarrow> True | RecoverStatus \<Rightarrow> True | _ \<Rightarrow> False)"

definition ending_pcs :: "driver_pc \<Rightarrow> bool" where
  "ending_pcs p = (p \<in> {Finishing, FinishConn, Cleaning, Completed, Dropped})"

definition ended_pcs :: "driver_pc \<Rightarrow> bool" where
  "ended_pcs p = (p \<in> {Completed, Dropped})"

definition state_ok :: "session \<Rightarrow> bool" where
  "state_ok s \<longleftrightarrow>
     (live_pcs (pc s) \<longrightarrow> state (status s) = Connected) \<and>
     (state (status s) = Connected \<longrightarrow> live_pcs (pc s) \<or> pc s = Finishing) \<and>
     (state (status s) = Closed \<longleftrightarrow> ended_pcs (pc s)) \<and>
     (state (status s) \<noteq> Connected \<longrightarrow> path (status s) = PathUnknown \<and> path_description (status s) = ''none'')"

definition conn_ok :: "session \<Rightarrow> bool" where
  "conn_ok s \<longleftrightarrow>
     (\<forall>g c. connections s = Some (g, c) \<longrightarrow> g = generation s \<and>
        (pc s = WatchHead c \<or> pc s = Watching c \<or> pc s = Recover c \<or> ((pc s = Finishing \<or> pc s = FinishConn) \<and> c \<in> closed_conns s))) \<and>
     (ending_pcs (pc s) \<longrightarrow> shutdown s)"

definition error_ok :: "session \<Rightarrow> bool" where
  "error_ok s \<longleftrightarrow>
     (terminal_error (status s) \<noteq> None \<longrightarrow> pc s = FailCancel \<or> ending_pcs (pc s)) \<and>
     (pc s = FailCancel \<longrightarrow> terminal_error (status s) = Some SessDriverStopped) \<and>
     (pc s = FailTerminal \<or> pc s = FailCancel \<longrightarrow> state (status s) = Failed) \<and>
     (terminal_error (status s) \<noteq> None \<longrightarrow> state (status s) \<in> {Failed, Closing, Closed}) \<and>
     (terminal_error (status s) \<in> {None, Some SessDriverStopped, Some (SessTimeout StageShutdown)}) \<and>
     (terminal_error (status s) = Some (SessTimeout StageShutdown) \<longrightarrow> pc s = Completed) \<and>
     RECONNECT_INITIAL_BACKOFF \<le> backoff s \<and> backoff s \<le> RECONNECT_MAX_BACKOFF"

definition session_inv :: "session \<Rightarrow> bool" where
  "session_inv s \<longleftrightarrow> state_ok s \<and> conn_ok s \<and> error_ok s \<and> path_agrees (status s)"

lemmas pcs_defs = live_pcs_def ending_pcs_def ended_pcs_def

lemmas supervise_defs = supervise_head_def supervise_fail_terminal_def supervise_attempt_def
  retry_connect_def retry_recover_def supervise_watch_head_def supervise_watch_def supervise_recover_def
  supervise_recover_status_def run_cleanup_def connecting_state_def

lemmas event_splits = option.splits attempt_result.splits watch_event.splits

lemma state_ok_poll: "state_ok s \<Longrightarrow> state_ok (driver_poll ev s)"
  unfolding driver_poll_def
  by (cases "pc s") (auto simp: state_ok_def pcs_defs supervise_defs split: event_splits)

lemma conn_ok_poll: "conn_ok s \<Longrightarrow> conn_ok (driver_poll ev s)"
  unfolding driver_poll_def
  by (cases "pc s") (auto simp: conn_ok_def pcs_defs supervise_defs split: event_splits)

lemma backoff_order: "RECONNECT_INITIAL_BACKOFF \<le> RECONNECT_MAX_BACKOFF"
  by (simp add: RECONNECT_INITIAL_BACKOFF_def RECONNECT_MAX_BACKOFF_def duration_defs)

lemma error_ok_poll: "error_ok s \<Longrightarrow> error_ok (driver_poll ev s)"
  unfolding driver_poll_def
  by (cases "pc s")
    (auto simp: error_ok_def pcs_defs supervise_defs backoff_order next_backoff_bounds split: event_splits)

lemma path_agrees_poll: "path_agrees (status s) \<Longrightarrow> state_ok s \<Longrightarrow> path_agrees (status (driver_poll ev s))"
  unfolding driver_poll_def
  by (cases "pc s")
    (auto simp: supervise_defs path_agrees_update path_agrees_path split: event_splits,
     auto simp: path_agrees_def)

lemma session_inv_flags:
  "session_inv s \<Longrightarrow> session_inv (s\<lparr>shutdown := True\<rparr>)"
  "session_inv s \<Longrightarrow> session_inv (s\<lparr>endpoint_closed := True\<rparr>)"
  "session_inv s \<Longrightarrow> session_inv (s\<lparr>connections := None\<rparr>)"
proof -
  have "state_ok (s\<lparr>shutdown := True\<rparr>) = state_ok s" "error_ok (s\<lparr>shutdown := True\<rparr>) = error_ok s"
    "state_ok (s\<lparr>endpoint_closed := True\<rparr>) = state_ok s" "error_ok (s\<lparr>endpoint_closed := True\<rparr>) = error_ok s"
    "state_ok (s\<lparr>connections := None\<rparr>) = state_ok s" "error_ok (s\<lparr>connections := None\<rparr>) = error_ok s"
    by (simp_all add: state_ok_def error_ok_def)
  moreover have "conn_ok s \<Longrightarrow> conn_ok (s\<lparr>shutdown := True\<rparr>)" "conn_ok s \<Longrightarrow> conn_ok (s\<lparr>connections := None\<rparr>)"
    "conn_ok s \<Longrightarrow> conn_ok (s\<lparr>endpoint_closed := True\<rparr>)"
    by (simp_all add: conn_ok_def)
  moreover assume "session_inv s"
  ultimately show "session_inv (s\<lparr>shutdown := True\<rparr>)" "session_inv (s\<lparr>endpoint_closed := True\<rparr>)"
    "session_inv (s\<lparr>connections := None\<rparr>)"
    by (simp_all add: session_inv_def)
qed

lemma session_inv_invalidate: "session_inv s \<Longrightarrow> session_inv (invalidate gen s)"
  by (simp add: invalidate_def session_inv_flags split: option.split)

lemma session_inv_drop: "session_inv s \<Longrightarrow> session_inv (driver_drop s)"
  by (simp add: driver_drop_def session_inv_def state_ok_def conn_ok_def error_ok_def pcs_defs path_agrees_def)

lemmas session_inv_other = session_inv_flags session_inv_invalidate session_inv_drop

lemma session_inv_step: "session_inv s \<Longrightarrow> session_inv (session_step a s)"
  by (cases a)
    (auto simp: session_inv_other, auto simp: session_inv_def state_ok_poll conn_ok_poll error_ok_poll path_agrees_poll)

lemma session_inv_start: "session_inv session_start"
  by (auto simp: session_inv_def session_start_def state_ok_def conn_ok_def error_ok_def pcs_defs
      default_status_def path_agrees_def backoff_order)

interpretation sess: invariant_system session_start session_step session_inv
  by unfold_locales (auto intro: session_inv_start session_inv_step)


text \<open>Every action that changes the published status raises its revision.\<close>

lemma driver_path_revision: "driver_path ps s = s \<or> revision s < revision (driver_path ps s)"
  by (simp add: driver_path_def Let_def)

lemma session_step_revision:
  "status (session_step a s) = status s \<or> revision (status s) < revision (status (session_step a s))"
proof (cases a)
  case (Poll ev)
  then show ?thesis
    using driver_path_revision [of _ "status s"]
    by (cases "pc s") (auto simp: driver_poll_def supervise_defs split: event_splits)
qed (auto simp: invalidate_def driver_drop_def split: option.splits)

interpretation sess_rev: revisioned_system session_step status revision
  by unfold_locales (rule session_step_revision)

text \<open>How many polls a cancelled driver is from its cleanup.\<close>

definition shutdown_rank :: "session \<Rightarrow> nat" where
  "shutdown_rank s = (case pc s of
     PublishPath _ _ \<Rightarrow> 8 | PublishConn _ \<Rightarrow> 7 | WatchHead _ \<Rightarrow> 6 | Recover _ \<Rightarrow> 5 | RecoverStatus \<Rightarrow> 4
   | AtHead \<Rightarrow> 4 | FailTerminal \<Rightarrow> 4 | FailCancel \<Rightarrow> 3 | Attempting \<Rightarrow> 3 | RetryConnect \<Rightarrow> 3
   | RetryRecover \<Rightarrow> 3 | Watching _ \<Rightarrow> 3 | Finishing \<Rightarrow> 2 | FinishConn \<Rightarrow> 1 | _ \<Rightarrow> 0)"

definition at_cleanup :: "session \<Rightarrow> bool" where
  "at_cleanup s \<longleftrightarrow> pc s \<in> {Cleaning, Completed, Dropped}"

lemma shutdown_kept: "shutdown s \<Longrightarrow> shutdown (session_step a s)"
  by (cases a; cases "pc s")
    (auto simp: driver_poll_def supervise_defs invalidate_def driver_drop_def split: event_splits)

lemma shutdown_rank_poll:
  "shutdown s \<Longrightarrow> \<not> at_cleanup s \<Longrightarrow> shutdown_rank (driver_poll ev s) < shutdown_rank s"
  by (cases "pc s") (auto simp: driver_poll_def supervise_defs at_cleanup_def shutdown_rank_def)

lemma shutdown_rank_le: "shutdown_rank s \<le> 8"
  by (simp add: shutdown_rank_def split: driver_pc.splits)

interpretation sess_stop: bounded_progress driver_poll shutdown at_cleanup shutdown_rank
  using shutdown_kept [of _ "Poll _"] shutdown_rank_poll by unfold_locales auto

text \<open>Generations identify connections.\<close>

definition lease_of :: "nat \<Rightarrow> conn \<Rightarrow> session \<Rightarrow> bool" where
  "lease_of g c s \<longleftrightarrow> conn_ok s \<and>
     (g < generation s \<or>
      (g = generation s \<and> (connections s = None \<or> connections s = Some (g, c)) \<and>
       (\<forall>d ps. pc s \<noteq> PublishPath d ps \<and> pc s \<noteq> PublishConn d)))"

lemma lease_of_connection: "conn_ok s \<Longrightarrow> connections s = Some (g, c) \<Longrightarrow> lease_of g c s"
  by (auto simp: lease_of_def conn_ok_def)

lemma conn_ok_step: "conn_ok s \<Longrightarrow> conn_ok (session_step a s)"
  by (cases a) (auto simp: conn_ok_poll, auto simp: invalidate_def driver_drop_def conn_ok_def pcs_defs split: option.splits)

lemma lease_of_poll: "lease_of g c s \<Longrightarrow> lease_of g c (driver_poll ev s)"
  using conn_ok_poll [of s ev]
  by (cases "pc s") (auto simp: lease_of_def driver_poll_def supervise_defs split: event_splits)

lemma lease_of_step: "lease_of g c s \<Longrightarrow> lease_of g c (session_step a s)"
  using conn_ok_step [of s a]
  by (cases a) (auto simp: lease_of_poll, auto simp: lease_of_def invalidate_def driver_drop_def split: option.splits)

lemma lease_of_run: "lease_of g c s \<Longrightarrow> lease_of g c (run_steps session_step as s)"
  by (induction as arbitrary: s) (auto intro: lease_of_step)

lemma lease_of_current:
  assumes "lease_of g c s" "connections s = Some (g', c')"
  shows "g' = g \<and> c' = c \<or> g < g'"
  using assms by (auto simp: lease_of_def conn_ok_def)

subsection \<open>Properties\<close>

text \<open>
  C4. Safety of the session driver, under any interleaving of its polls with leases being
  invalidated, shutdown requests, the driver being dropped and the endpoint closing: a published
  connection has the current generation and either the session is connected or that connection
  has been closed; a session that is not connected shows no transport path; a closed session has
  been cancelled and publishes no connection; and the terminal error is only ever
  \<open>DriverStopped\<close> or the shutdown timeout, set while or after the session stops.
\<close>

theorem session_driver_safe:
  assumes "reach session_start session_step s"
  shows "(\<forall>g c. connections s = Some (g, c) \<longrightarrow>
            g = generation s \<and> (state (status s) = Connected \<or> c \<in> closed_conns s)) \<and>
         (state (status s) \<noteq> Connected \<longrightarrow> path (status s) = PathUnknown) \<and>
         (state (status s) = Closed \<longrightarrow> shutdown s \<and> connections s = None) \<and>
         terminal_error (status s) \<in> {None, Some SessDriverStopped, Some (SessTimeout StageShutdown)} \<and>
         (terminal_error (status s) \<noteq> None \<longrightarrow> state (status s) \<in> {Failed, Closing, Closed})"
proof -
  have inv: "session_inv s" by (rule sess.reach_inv) (rule assms)
  from inv have st: "state_ok s" and co: "conn_ok s" and er: "error_ok s" by (simp_all add: session_inv_def)
  from st co have "connections s = Some (g, c) \<Longrightarrow>
      g = generation s \<and> (state (status s) = Connected \<or> c \<in> closed_conns s)" for g c
    by (cases "pc s") (simp_all add: state_ok_def conn_ok_def pcs_defs)
  moreover from st have "state (status s) \<noteq> Connected \<Longrightarrow> path (status s) = PathUnknown"
    by (simp add: state_ok_def)
  moreover have "state (status s) = Closed \<Longrightarrow> shutdown s \<and> connections s = None"
    using st co by (cases "connections s") (auto simp: state_ok_def conn_ok_def pcs_defs)
  moreover from er have
    "terminal_error (status s) \<in> {None, Some SessDriverStopped, Some (SessTimeout StageShutdown)}"
    "terminal_error (status s) \<noteq> None \<longrightarrow> state (status s) \<in> {Failed, Closing, Closed}"
    unfolding error_ok_def by blast+
  ultimately show ?thesis by blast
qed


definition demo_trace :: "action list" where
  "demo_trace = [Poll Proceed, Poll (Attempted (AttemptConnected 7 [(''ip:10.0.0.2:9'', True, False, True)])),
     Poll Proceed, Poll Proceed]"

theorem session_driver_safe_witness:
  "connections (run_steps session_step demo_trace session_start) = Some (1, 7) \<and>
   state (status (run_steps session_step (demo_trace @ [DropDriver]) session_start)) = Closed \<and>
   connections (run_steps session_step (demo_trace @ [DropDriver]) session_start) = None"
proof -
  have "reach session_start session_step (run_steps session_step (demo_trace @ [DropDriver]) session_start)"
    by (intro reach_run reach_init)
  note safe = session_driver_safe [OF this]
  have "connections (run_steps session_step demo_trace session_start) = Some (1, 7)"
    by (simp add: demo_trace_def session_start_def driver_poll_def supervise_defs attempt_of_def)
  moreover have "state (status (run_steps session_step (demo_trace @ [DropDriver]) session_start)) = Closed"
    by (simp add: demo_trace_def session_start_def driver_poll_def driver_drop_def supervise_defs attempt_of_def)
  ultimately show ?thesis using safe by blast
qed

text \<open>
  C6. A lease cannot disturb a later connection: after any further actions, either the
  connection published is the one that was leased, with the same generation, or its generation
  is greater, and then invalidating the old lease changes nothing.
\<close>

theorem stale_lease_harmless:
  assumes "reach session_start session_step s" "connections s = Some (g, c)"
    "connections (run_steps session_step as s) = Some (g', c')"
  shows "g' = g \<and> c' = c \<or>
         g < g' \<and> invalidate g (run_steps session_step as s) = run_steps session_step as s"
proof -
  have "conn_ok s" using sess.reach_inv [OF assms(1)] by (simp add: session_inv_def)
  from lease_of_current [OF lease_of_run [OF lease_of_connection [OF this assms(2)]] assms(3)]
  show ?thesis using assms(3) by (auto simp: invalidate_def)
qed

definition recover_trace :: "action list" where
  "recover_trace = [Poll Proceed, Poll (Watched ConnectionClosed), Poll Proceed, Poll Proceed,
     Poll SleepElapsed, Poll Proceed, Poll (Attempted (AttemptConnected 8 [])), Poll Proceed, Poll Proceed]"

theorem stale_lease_harmless_witness:
  "connections (run_steps session_step (demo_trace @ recover_trace) session_start) = Some (2, 8) \<and>
   invalidate 1 (run_steps session_step (demo_trace @ recover_trace) session_start) =
     run_steps session_step (demo_trace @ recover_trace) session_start"
proof -
  let ?s = "run_steps session_step demo_trace session_start"
  have r: "reach session_start session_step ?s" by (intro reach_run reach_init)
  have c: "connections ?s = Some (1, 7)"
    by (simp add: demo_trace_def session_start_def driver_poll_def supervise_defs attempt_of_def)
  have d: "connections (run_steps session_step recover_trace ?s) = Some (2, 8)"
    by (simp add: demo_trace_def recover_trace_def session_start_def driver_poll_def supervise_defs
        attempt_of_def watch_of_def numeral_2_eq_2)
  from stale_lease_harmless [OF r c d] d show ?thesis by (simp add: run_steps_append)
qed

text \<open>
  Revisions identify statuses: over any run the published status is unchanged or its revision
  has grown, so revisions never decrease and equal revisions mean equal statuses.
\<close>

theorem session_revision_identifies:
  "status (run_steps session_step as s) = status s \<or>
   revision (status s) < revision (status (run_steps session_step as s))"
  by (rule sess_rev.run_revision)

text \<open>
  C17. Shutdown makes progress: once the shutdown token is cancelled, wherever the driver is and
  whatever the transport answers, at most eight polls of the driver bring it to its cleanup (or
  it is already past it); the cleanup itself ends with the bounded wait for the endpoint, after
  which the session is closed with no connection published.
\<close>

theorem shutdown_reaches_cleanup:
  assumes "shutdown s" "length evs = 8"
  shows "\<exists>n \<le> 8. at_cleanup (run_steps driver_poll (take n evs) s)"
  using sess_stop.arrives [of s evs] assms shutdown_rank_le [of s] by auto

theorem shutdown_reaches_cleanup_witness:
  "\<exists>n \<le> 8. at_cleanup (run_steps driver_poll (take n (replicate 8 Proceed))
     (session_start\<lparr>shutdown := True, pc := PublishPath 3 []\<rparr>))"
  by (rule shutdown_reaches_cleanup) simp_all

end
