(* ===== verification/Session_Client.thy ===== *)
theory Session_Client
  imports Session_Driver
begin

text \<open>
  What the users of a peer session do with it (\<open>PeerSession\<close>, \<open>ConnectionLease\<close> and
  \<open>ServiceStream\<close> of \<open>crates/locho-core/src/session.rs\<close>): waiting for a connection, opening an
  authorized TCP stream under the limit of 512 streams, closing the session, and the stream's
  own shutdown and drop.

  A waiting task is modelled by the states it sees at its polls, in order; the end of the list is
  its deadline. An operation that is dropped by a biased \<open>select!\<close> leaves behind the stream it
  had opened so far, if any.
\<close>

subsection \<open>Acquiring a connection\<close>

record lease =
  lease_generation :: nat
  lease_connection :: conn

fun acquire :: "session list \<Rightarrow> session_error + lease" where
  "acquire [] = Inl (SessTimeout StageAcquire)"
| "acquire (s # polls) =
     (if shutdown s then Inl SessClosed
      else case connections s of
        Some (g, c) \<Rightarrow> Inr \<lparr>lease_generation = g, lease_connection = c\<rparr>
      | None \<Rightarrow> acquire polls)"

definition wait_connected :: "session list \<Rightarrow> session_error + unit" where
  "wait_connected polls = res_bind (acquire polls) (\<lambda>_. Inr ())"

definition lease_invalidate :: "lease \<Rightarrow> session \<Rightarrow> session" where
  "lease_invalidate l = invalidate (lease_generation l)"

subsection \<open>Service streams\<close>

record service_stream =
  ss_send :: writer
  ss_recv :: reader
  send_finished :: bool
  send_reset :: bool
  recv_stopped :: bool

definition service_stream_new :: "writer \<Rightarrow> reader \<Rightarrow> service_stream" where
  "service_stream_new w r = \<lparr>ss_send = w, ss_recv = r, send_finished = False,
     send_reset = False, recv_stopped = False\<rparr>"

text \<open>\<open>poll_shutdown\<close>, given what the inner stream's \<open>poll_shutdown\<close> returned.\<close>

datatype shutdown_poll = ShutdownPending | ShutdownOk | ShutdownErr

definition stream_poll_shutdown :: "shutdown_poll \<Rightarrow> service_stream \<Rightarrow> service_stream" where
  "stream_poll_shutdown result st = (if result = ShutdownOk then st\<lparr>send_finished := True\<rparr> else st)"

definition stream_drop :: "service_stream \<Rightarrow> service_stream" where
  "stream_drop st =
     (let st = (if \<not> send_finished st then st\<lparr>send_reset := True\<rparr> else st)
      in st\<lparr>recv_stopped := True\<rparr>)"

subsection \<open>Opening a TCP stream\<close>

definition STREAM_LIMIT :: nat where "STREAM_LIMIT = 512"

record peer =
  peer_session :: session
  permits :: nat
  live_streams :: nat

definition peer_start :: peer where
  "peer_start = \<lparr>peer_session = session_start, permits = STREAM_LIMIT, live_streams = 0\<rparr>"

datatype interruption =
    Uninterrupted | ShutdownSeen "service_stream option" | CancelSeen "service_stream option"

text \<open>
  The operation inside \<open>ConnectionLease::open_tcp\<close>: its outcome, and the stream it had opened
  and drops when it does not succeed.
\<close>

definition open_operation ::
  "crypto_api \<Rightarrow> stream_request_head codec \<Rightarrow> locho_response_head codec \<Rightarrow> capability \<Rightarrow>
   (writer \<times> reader, unit) outcome \<Rightarrow> (service_stream, session_error) outcome \<times> service_stream option" where
  "open_operation cr reqc respc cap opened =
     (case opened of
        Fail _ \<Rightarrow> (Fail (SessTransport StageOpenStream), None)
      | Hang \<Rightarrow> (Hang, None)
      | Done (w, r) \<Rightarrow>
          (case authorize_tcp cr reqc respc cap w r of
             (Done r, w) \<Rightarrow> (Done (service_stream_new w r), None)
           | (Fail e, w) \<Rightarrow> (Fail e, Some (service_stream_new w r))
           | (Hang, w) \<Rightarrow> (Hang, Some (service_stream_new w r))))"

text \<open>
  \<open>ConnectionLease::open_tcp\<close>. The permit is taken first and moves into the stream; whatever is
  dropped on the way out releases it, so only a returned stream holds one. \<open>close_reason\<close> is
  whether the connection is known to be closed when the operation has ended.
\<close>

definition lease_open_tcp ::
  "crypto_api \<Rightarrow> stream_request_head codec \<Rightarrow> locho_response_head codec \<Rightarrow> lease \<Rightarrow> capability \<Rightarrow>
   (writer \<times> reader, unit) outcome \<Rightarrow> bool \<Rightarrow> interruption \<Rightarrow> peer \<Rightarrow>
   (session_error + service_stream) \<times> service_stream option \<times> peer" where
  "lease_open_tcp cr reqc respc l cap opened close_reason intr p =
     (if cap_service_type cap \<noteq> Tcp then (Inl SessUnsupportedService, None, p)
      else if permits p = 0 then (Inl SessResourceLimit, None, p)
      else case intr of
        ShutdownSeen st \<Rightarrow> (Inl SessClosed, map_option stream_drop st, p)
      | CancelSeen st \<Rightarrow> (Inl SessCancelled, map_option stream_drop st, p)
      | Uninterrupted \<Rightarrow>
          (case open_operation cr reqc respc cap opened of
             (Hang, st) \<Rightarrow> (Inl (SessTimeout StageHandshake), map_option stream_drop st, p)
           | (Fail e, st) \<Rightarrow>
               (Inl e, map_option stream_drop st,
                if close_reason then p\<lparr>peer_session := lease_invalidate l (peer_session p)\<rparr> else p)
           | (Done st, _) \<Rightarrow>
               (Inr st, None, p\<lparr>permits := permits p - 1, live_streams := live_streams p + 1\<rparr>)))"

text \<open>
  \<open>PeerSession::open_tcp\<close>: the acquisition under the biased \<open>select!\<close>, where each poll sees the
  session and the caller's token, then the lease's \<open>open_tcp\<close>. The two deadlines are the same;
  \<open>same_tick\<close> is whether the inner one also fires at the poll at which the outer one does.
\<close>

fun acquire_for_open :: "bool \<Rightarrow> (session \<times> bool) list \<Rightarrow> session_error + lease" where
  "acquire_for_open same_tick [] = Inl (SessTimeout (if same_tick then StageAcquire else StageHandshake))"
| "acquire_for_open same_tick ((s, cancelled) # polls) =
     (if shutdown s then Inl SessClosed
      else if cancelled then Inl SessCancelled
      else case connections s of
        Some (g, c) \<Rightarrow> Inr \<lparr>lease_generation = g, lease_connection = c\<rparr>
      | None \<Rightarrow> acquire_for_open same_tick polls)"

definition session_open_tcp ::
  "crypto_api \<Rightarrow> stream_request_head codec \<Rightarrow> locho_response_head codec \<Rightarrow> capability \<Rightarrow>
   bool \<Rightarrow> (session \<times> bool) list \<Rightarrow> (conn \<Rightarrow> (writer \<times> reader, unit) outcome) \<Rightarrow> (conn \<Rightarrow> bool) \<Rightarrow>
   interruption \<Rightarrow> peer \<Rightarrow> (session_error + service_stream) \<times> service_stream option \<times> peer" where
  "session_open_tcp cr reqc respc cap same_tick polls open_bi close_reason intr p =
     (if cap_service_type cap \<noteq> Tcp then (Inl SessUnsupportedService, None, p)
      else case acquire_for_open same_tick polls of
        Inl e \<Rightarrow> (Inl e, None, p)
      | Inr l \<Rightarrow> lease_open_tcp cr reqc respc l cap (open_bi (lease_connection l))
                 (close_reason (lease_connection l)) intr p)"

text \<open>Dropping a returned stream gives its permit back.\<close>

definition peer_drop_stream :: "service_stream \<Rightarrow> peer \<Rightarrow> service_stream \<times> peer" where
  "peer_drop_stream st p =
     (stream_drop st, p\<lparr>permits := permits p + 1, live_streams := live_streams p - 1\<rparr>)"

subsection \<open>Closing the session\<close>

datatype status_event = StatusSeen session_status | StatusSenderGone

fun close_inner :: "status_event list \<Rightarrow> (unit, session_error) outcome" where
  "close_inner [] = Hang"
| "close_inner (StatusSenderGone # evs) = Fail SessDriverStopped"
| "close_inner (StatusSeen st # evs) =
     (if state st = Closed
      then (case terminal_error st of None \<Rightarrow> Done () | Some e \<Rightarrow> Fail e)
      else close_inner evs)"

definition session_close :: "status_event list \<Rightarrow> session_error + unit" where
  "session_close evs = with_timeout (SessTimeout StageShutdown) (close_inner evs)"

text \<open>Dropping the last handle (\<open>Drop for Owner\<close>), and \<open>close\<close>'s first step.\<close>

definition owner_drop :: "session \<Rightarrow> session" where
  "owner_drop s = s\<lparr>shutdown := True\<rparr>"

subsection \<open>A peer and its users\<close>

datatype peer_action =
    SessionAction action
  | OpenTcp lease capability "(writer \<times> reader, unit) outcome" bool interruption
  | DropStream service_stream

fun peer_step ::
  "crypto_api \<Rightarrow> stream_request_head codec \<Rightarrow> locho_response_head codec \<Rightarrow> peer_action \<Rightarrow> peer \<Rightarrow> peer"
where
  "peer_step cr reqc respc (SessionAction a) p = p\<lparr>peer_session := session_step a (peer_session p)\<rparr>"
| "peer_step cr reqc respc (OpenTcp l cap opened closed intr) p =
     snd (snd (lease_open_tcp cr reqc respc l cap opened closed intr p))"
| "peer_step cr reqc respc (DropStream st) p =
     (if live_streams p = 0 then p else snd (peer_drop_stream st p))"

definition peer_inv :: "peer \<Rightarrow> bool" where
  "peer_inv p \<longleftrightarrow> permits p + live_streams p = STREAM_LIMIT \<and> reach session_start session_step (peer_session p)"

lemma lease_open_tcp_cases:
  obtains
    (opened) st where "cap_service_type cap = Tcp" "intr = Uninterrupted" "0 < permits p"
      "fst (open_operation cr reqc respc cap opened) = Done st"
      "lease_open_tcp cr reqc respc l cap opened closed intr p =
         (Inr st, None, p\<lparr>permits := permits p - 1, live_streams := live_streams p + 1\<rparr>)"
  | (failed) e dr where "intr = Uninterrupted" "fst (open_operation cr reqc respc cap opened) = Fail e"
      "lease_open_tcp cr reqc respc l cap opened closed intr p =
         (Inl e, map_option stream_drop dr,
          if closed then p\<lparr>peer_session := lease_invalidate l (peer_session p)\<rparr> else p)"
  | (refused) e dr where
      "e \<in> {SessUnsupportedService, SessResourceLimit, SessClosed, SessCancelled, SessTimeout StageHandshake}"
      "lease_open_tcp cr reqc respc l cap opened closed intr p = (Inl e, map_option stream_drop dr, p)"
proof -
  obtain oo dr where oo: "open_operation cr reqc respc cap opened = (oo, dr)" by fastforce
  show thesis
  proof (cases "cap_service_type cap = Tcp \<and> 0 < permits p")
    case False
    then show thesis
      by (intro refused [of "if cap_service_type cap \<noteq> Tcp then SessUnsupportedService else SessResourceLimit" None])
        (auto simp: lease_open_tcp_def)
  next
    case True
    show thesis
    proof (cases intr)
      case Uninterrupted
      with True oo show thesis
        using opened failed [of _ dr] refused [of "SessTimeout StageHandshake" dr]
        by (cases oo) (auto simp: lease_open_tcp_def)
    next
      case (ShutdownSeen dr)
      with True show thesis by (intro refused [of SessClosed dr]) (auto simp: lease_open_tcp_def)
    next
      case (CancelSeen dr)
      with True show thesis by (intro refused [of SessCancelled dr]) (auto simp: lease_open_tcp_def)
    qed
  qed
qed

lemma reach_invalidate:
  "reach session_start session_step s \<Longrightarrow> reach session_start session_step (lease_invalidate l s)"
  using reach_step [of session_start session_step s "Invalidate (lease_generation l)"]
  by (simp add: lease_invalidate_def)

lemma peer_inv_open: "peer_inv p \<Longrightarrow> peer_inv (snd (snd (lease_open_tcp cr reqc respc l cap opened closed intr p)))"
  by (cases rule: lease_open_tcp_cases [of cap intr p cr reqc respc opened l closed])
    (auto simp: peer_inv_def reach_invalidate)

lemma peer_inv_step: "peer_inv p \<Longrightarrow> peer_inv (peer_step cr reqc respc a p)"
  by (cases a) (auto simp: peer_inv_open, auto simp: peer_inv_def peer_drop_stream_def intro: reach_step)

interpretation peers: invariant_system peer_start "peer_step cr reqc respc" peer_inv for cr reqc respc
  by unfold_locales (auto simp: peer_inv_step, simp add: peer_inv_def peer_start_def reach_init)

text \<open>Only the operation's own errors can reach the invalidation.\<close>

lemma open_operation_error:
  "fst (open_operation cr reqc respc cap opened) = Fail e \<Longrightarrow>
   e \<in> {SessTransport StageOpenStream, SessTransport StageHandshake, SessProtocol} \<or> (\<exists>n. e = SessServiceRejected n)"
  by (auto simp: open_operation_def authorize_tcp_def check_tcp_response_def
      split: outcome.splits prod.splits sum.splits if_splits)

lemma acquire_Inr:
  "acquire polls = Inr l \<Longrightarrow>
   \<exists>s\<in>set polls. \<not> shutdown s \<and> connections s = Some (lease_generation l, lease_connection l)"
  by (induction polls) (auto split: if_splits option.splits)

lemma acquire_total:
  "acquire polls = Inl e \<Longrightarrow> e \<in> {SessClosed, SessTimeout StageAcquire}"
  by (induction polls) (auto split: if_splits option.splits)

text \<open>A session that has not failed or stopped, once cancelled, goes to its cleanup without an error.\<close>

definition closing_well :: "session \<Rightarrow> bool" where
  "closing_well s \<longleftrightarrow> shutdown s \<and> terminal_error (status s) = None \<and>
     pc s \<notin> {FailTerminal, FailCancel, Completed, Dropped}"

lemma closing_well_poll: "closing_well s \<Longrightarrow> \<not> at_cleanup s \<Longrightarrow> closing_well (driver_poll ev s)"
  by (cases "pc s") (auto simp: closing_well_def at_cleanup_def driver_poll_def supervise_defs)

interpretation sess_close: bounded_progress driver_poll closing_well at_cleanup shutdown_rank
  using closing_well_poll shutdown_rank_poll by unfold_locales (auto simp: closing_well_def)

lemma run_polls: "run_steps driver_poll evs s = run_steps session_step (map Poll evs) s"
  by (induction evs arbitrary: s) simp_all

lemma cleanup_closes:
  assumes "reach session_start session_step s" "closing_well s" "at_cleanup s"
  shows "connections (driver_poll (CleanupFinished b) s) = None \<and>
    close_inner [StatusSeen (status (driver_poll (CleanupFinished b) s))] =
      (if b then Done () else Fail (SessTimeout StageShutdown))"
proof -
  have "conn_ok s" using sess.reach_inv [OF assms(1)] by (simp add: session_inv_def)
  with assms(2,3) show ?thesis
    by (cases "connections s")
      (auto simp: closing_well_def at_cleanup_def driver_poll_def run_cleanup_def cleanup_of_def conn_ok_def)
qed

subsection \<open>Properties\<close>

text \<open>
  Capacity of a peer: in every reachable state of a session with its users, the free permits
  and the live streams add up to 512, and opening a stream reports the resource limit exactly
  when the capability is for TCP and 512 streams are live.
\<close>

theorem stream_capacity_conserved:
  assumes "reach peer_start (peer_step cr reqc respc) p"
  shows "permits p + live_streams p = 512 \<and>
    (fst (lease_open_tcp cr reqc respc l cap opened closed intr p) = Inl SessResourceLimit \<longleftrightarrow>
     cap_service_type cap = Tcp \<and> live_streams p = 512)"
proof -
  from peers.reach_inv [OF assms] have sum: "permits p + live_streams p = 512"
    by (simp add: peer_inv_def STREAM_LIMIT_def)
  moreover have "fst (lease_open_tcp cr reqc respc l cap opened closed intr p) = Inl SessResourceLimit \<longleftrightarrow>
      cap_service_type cap = Tcp \<and> permits p = 0"
    using open_operation_error [of cr reqc respc cap opened SessResourceLimit]
    by (cases "open_operation cr reqc respc cap opened"; cases "fst (open_operation cr reqc respc cap opened)")
      (auto simp: lease_open_tcp_def split: interruption.splits)
  ultimately show ?thesis by auto
qed

theorem stream_capacity_conserved_witness:
  "permits peer_start + live_streams peer_start = 512"
  using stream_capacity_conserved [OF reach_init [of peer_start
      "peer_step sample_crypto (sample_head_codec (tcp_head_of sample_crypto sample_cap)) (sample_head_codec tcp_accept_head)"]]
  by simp

text \<open>
  Opening a stream is all or nothing: success takes one permit, leaves the session alone and
  returns a fresh stream; any failure leaves the permits as they were, resets and stops the
  stream it may have opened, and invalidates the lease only when the handshake itself failed (not
  on a timeout, cancellation, shutdown or limit) on a connection known to be closed.
\<close>

theorem lease_open_tcp_effects:
  "case lease_open_tcp cr reqc respc l cap opened closed intr p of
     (Inr st, dropped, p') \<Rightarrow>
       dropped = None \<and> permits p = permits p' + 1 \<and> live_streams p' = live_streams p + 1 \<and>
       peer_session p' = peer_session p \<and> cap_service_type cap = Tcp \<and> intr = Uninterrupted \<and>
       fst (open_operation cr reqc respc cap opened) = Done st
   | (Inl e, dropped, p') \<Rightarrow>
       permits p' = permits p \<and> live_streams p' = live_streams p \<and>
       dropped = map_option stream_drop dropped \<and>
       peer_session p' =
         (if closed \<and> (e \<in> {SessTransport StageOpenStream, SessTransport StageHandshake, SessProtocol} \<or>
             (\<exists>n. e = SessServiceRejected n))
          then lease_invalidate l (peer_session p) else peer_session p)"
proof -
  have drop2: "map_option stream_drop d = map_option stream_drop (map_option stream_drop d)" for d
    by (cases d) (auto simp: stream_drop_def Let_def)
  show ?thesis
  proof (cases rule: lease_open_tcp_cases [of cap intr p cr reqc respc opened l closed])
    case (opened st)
    then show ?thesis by simp
  next
    case (failed e dr)
    with open_operation_error [OF failed(2)] drop2 [of dr] show ?thesis by auto
  next
    case (refused e dr)
    with drop2 [of dr] show ?thesis by auto
  qed
qed

text \<open>
  A lease obtained by a task that watches a running session is for a connection the driver
  really published while the session was not shutting down, and invalidating it later can only
  withdraw that very connection: any other connection published afterwards is untouched.
\<close>

theorem acquired_lease_scoped:
  assumes "reach session_start session_step s"
    and "acquire (map (\<lambda>n. run_steps session_step (take n as) s) [0..<Suc (length as)]) = Inr l"
  shows "\<exists>n \<le> length as. let t = run_steps session_step (take n as) s in
    \<not> shutdown t \<and> connections t = Some (lease_generation l, lease_connection l) \<and>
    (\<forall>bs g c. connections (run_steps session_step bs t) = Some (g, c) \<longrightarrow>
       (if g = lease_generation l then c = lease_connection l
        else lease_invalidate l (run_steps session_step bs t) = run_steps session_step bs t))"
proof -
  from acquire_Inr [OF assms(2)] obtain n where n: "n \<le> length as"
    and t: "\<not> shutdown (run_steps session_step (take n as) s)"
      "connections (run_steps session_step (take n as) s) = Some (lease_generation l, lease_connection l)"
    by (auto simp: less_Suc_eq_le simp del: upt_Suc)
  have "conn_ok (run_steps session_step (take n as) s)"
    using sess.reach_inv [OF reach_run [OF assms(1)]] by (simp add: session_inv_def)
  from lease_of_run [OF lease_of_connection [OF this t(2)]]
  have lease: "lease_of (lease_generation l) (lease_connection l)
      (run_steps session_step bs (run_steps session_step (take n as) s))" for bs .
  have "if g = lease_generation l then c = lease_connection l
      else lease_invalidate l (run_steps session_step bs (run_steps session_step (take n as) s)) =
           run_steps session_step bs (run_steps session_step (take n as) s)"
    if "connections (run_steps session_step bs (run_steps session_step (take n as) s)) = Some (g, c)" for bs g c
    using lease_of_current [OF lease that] that by (auto simp: lease_invalidate_def invalidate_def)
  with n t show ?thesis unfolding Let_def by blast
qed


theorem acquired_lease_scoped_witness:
  "acquire (map (\<lambda>n. run_steps session_step (take n demo_trace) session_start) [0..<Suc (length demo_trace)]) =
     Inr \<lparr>lease_generation = 1, lease_connection = 7\<rparr> \<and>
   (\<exists>n \<le> length demo_trace. let t = run_steps session_step (take n demo_trace) session_start in
      \<not> shutdown t \<and> connections t = Some (1, 7))"
proof -
  have eq: "acquire (map (\<lambda>n. run_steps session_step (take n demo_trace) session_start) [0..<Suc (length demo_trace)]) =
     Inr \<lparr>lease_generation = 1, lease_connection = 7\<rparr>"
    by (simp add: demo_trace_def session_start_def driver_poll_def supervise_defs attempt_of_def
        upt_rec numeral_2_eq_2 numeral_3_eq_3)
  from eq acquired_lease_scoped [OF reach_init eq] show ?thesis by (auto simp: Let_def)
qed

text \<open>
  C18. Closing completes: for a reachable session that has neither failed nor ended, after
  \<open>close\<close> has cancelled it at most eight polls bring the driver to its cleanup; when that ends,
  no connection is published and \<open>close\<close> returns success if the endpoint closed in time and the
  shutdown timeout otherwise.
\<close>

theorem close_completes:
  assumes "reach session_start session_step s" "closing_well (owner_drop s)" "length evs = 8"
  shows "\<exists>n \<le> 8. let t = driver_poll (CleanupFinished b) (run_steps driver_poll (take n evs) (owner_drop s)) in
    connections t = None \<and>
    session_close [StatusSeen (status s), StatusSeen (status t)] =
      (if b then Inr () else Inl (SessTimeout StageShutdown))"
proof -
  from sess_close.arrives [OF assms(2), of evs] assms(3) shutdown_rank_le [of "owner_drop s"]
  obtain n where n: "n \<le> 8" "closing_well (run_steps driver_poll (take n evs) (owner_drop s))"
    "at_cleanup (run_steps driver_poll (take n evs) (owner_drop s))" by auto
  have "reach session_start session_step (run_steps driver_poll (take n evs) (owner_drop s))"
    unfolding run_polls using reach_step [OF assms(1), of RequestShutdown]
    by (intro reach_run) (simp add: owner_drop_def)
  note closes = cleanup_closes [OF this n(2,3), of b]
  have "state (status s) \<noteq> Closed"
    using sess.reach_inv [OF assms(1)] assms(2)
    by (auto simp: session_inv_def state_ok_def pcs_defs closing_well_def owner_drop_def)
  with closes n(1) show ?thesis by (intro exI [of _ n]) (auto simp: Let_def session_close_def)
qed

theorem close_completes_witness:
  "\<exists>n \<le> 8. session_close [StatusSeen (status session_start), StatusSeen (status (driver_poll (CleanupFinished True)
     (run_steps driver_poll (take n (replicate 8 Proceed)) (owner_drop session_start))))] = Inr ()"
proof -
  have "closing_well (owner_drop session_start)"
    by (simp add: closing_well_def owner_drop_def session_start_def default_status_def)
  from close_completes [OF reach_init this, of "replicate 8 Proceed" True]
  show ?thesis by (auto simp: Let_def)
qed

end
