(* ===== verification/Relay_Policy.thy ===== *)
theory Relay_Policy
  imports Capability
begin

text \<open>
  Relay settings: \<open>crates/locho-core/src/relay.rs\<close> (validation of relay URLs and tokens and the
  relay map a session uses) and \<open>src/relay.rs\<close> (the relay file of the command line).

  The crates \<open>url\<close>, \<open>http\<close>, \<open>toml\<close> and \<open>iroh\<close> are parameters: \<open>url_api\<close> lists the functions of
  \<open>url::Url\<close> the code calls, \<open>header_value_ok\<close> is \<open>HeaderValue::from_str(..).is_ok()\<close>, and
  \<open>iroh\<close>'s default relay map is an argument. A \<open>RelayMap\<close> is a finite map from URLs to
  configurations, \<open>insert\<close> an update and \<open>extend\<close> the right-biased sum.
\<close>

record 'u url_api =
  url_parse :: "string \<Rightarrow> 'u option"
  url_scheme :: "'u \<Rightarrow> string"
  url_has_host :: "'u \<Rightarrow> bool"
  url_host_str :: "'u \<Rightarrow> string option"
  url_domain :: "'u \<Rightarrow> string option"
  url_username :: "'u \<Rightarrow> string"
  url_password :: "'u \<Rightarrow> string option"
  url_path :: "'u \<Rightarrow> string"
  url_query :: "'u \<Rightarrow> string option"
  url_fragment :: "'u \<Rightarrow> string option"
  url_to_string :: "'u \<Rightarrow> string"
  url_set_host :: "string \<Rightarrow> 'u \<Rightarrow> 'u option"
  url_set_path :: "string \<Rightarrow> 'u \<Rightarrow> 'u"
  url_set_query :: "string option \<Rightarrow> 'u \<Rightarrow> 'u"

subsection \<open>Validated settings\<close>

record relay_options =
  opt_url :: string
  opt_auth_token :: "string option"
  opt_quic :: bool

datatype relay_options_debug = DbgUnvalidated | DbgRedacted | DbgNone | DbgFlag bool

definition relay_options_debug_fields :: "relay_options \<Rightarrow> (string \<times> relay_options_debug) list" where
  "relay_options_debug_fields o' =
     [(''url'', DbgUnvalidated),
      (''auth_token'', case opt_auth_token o' of None \<Rightarrow> DbgNone | Some _ \<Rightarrow> DbgRedacted),
      (''quic_address_discovery'', DbgFlag (opt_quic o'))]"

record 'u configured_relay =
  relay_url :: 'u
  relay_quic :: bool

datatype relay_error =
    InvalidUrl | HttpsRequired | HostRequired | CredentialsInUrl | BaseUrlRequired | DuplicateUrl
  | InvalidToken | EmptyConfiguration

fun relay_error_display :: "relay_error \<Rightarrow> string" where
  "relay_error_display InvalidUrl = ''relay URL is not valid''"
| "relay_error_display HttpsRequired = ''relay URL must use HTTPS''"
| "relay_error_display HostRequired = ''relay URL must include a host''"
| "relay_error_display CredentialsInUrl = ''relay URL must not contain credentials''"
| "relay_error_display BaseUrlRequired =
     ''relay URL must be a base URL without a path, query, or fragment''"
| "relay_error_display DuplicateUrl = ''duplicate relay URL''"
| "relay_error_display InvalidToken = ''relay authentication token is not a valid bearer token''"
| "relay_error_display EmptyConfiguration =
     ''relay configuration must define at least one relay when include_n0_relays is false''"

text \<open>
  \<open>iroh::RelayConfig\<close>: the URL, whether QUIC address discovery is on (\<open>RelayConfig::from\<close>) or
  off (\<open>RelayConfig::new(url, None)\<close>), and the token.
\<close>

record 'u relay_config =
  rc_url :: 'u
  rc_quic :: bool
  rc_token :: "string option"

record 'u relay_settings =
  settings_mode :: "'u \<Rightarrow> 'u relay_config option"
  settings_relays :: "'u configured_relay list"
  settings_include_n0 :: bool

definition parse_relay_url :: "'u url_api \<Rightarrow> string \<Rightarrow> relay_error + 'u" where
  "parse_relay_url api v =
     (case url_parse api v of
        None \<Rightarrow> Inl InvalidUrl
      | Some url \<Rightarrow>
          if url_scheme api url \<noteq> ''https'' then Inl HttpsRequired
          else if \<not> url_has_host api url then Inl HostRequired
          else if url_username api url \<noteq> [] \<or> url_password api url \<noteq> None then Inl CredentialsInUrl
          else if url_path api url \<noteq> ''/'' \<or> url_query api url \<noteq> None \<or> url_fragment api url \<noteq> None
          then Inl BaseUrlRequired
          else Inr url)"

definition validate_token :: "(string \<Rightarrow> bool) \<Rightarrow> string \<Rightarrow> relay_error + unit" where
  "validate_token header_value_ok token =
     (if token = [] \<or> \<not> header_value_ok (''Bearer '' @ token) then Inl InvalidToken else Inr ())"

text \<open>The body of the loop of \<open>RelaySettings::new\<close> once the URL is parsed and not a duplicate.\<close>

definition relay_entry ::
  "(string \<Rightarrow> bool) \<Rightarrow> 'u \<Rightarrow> relay_options \<Rightarrow> relay_error + ('u \<times> 'u relay_config) \<times> 'u configured_relay" where
  "relay_entry header_value_ok url option =
     (let config = \<lparr>rc_url = url, rc_quic = opt_quic option, rc_token = None\<rparr>;
          relay = \<lparr>relay_url = url, relay_quic = opt_quic option\<rparr>
      in case opt_auth_token option of
           None \<Rightarrow> Inr ((url, config), relay)
         | Some token \<Rightarrow>
             res_bind (validate_token header_value_ok token) (\<lambda>_.
               Inr ((url, config\<lparr>rc_token := Some token\<rparr>), relay)))"

definition insert_all :: "('k \<times> 'v) list \<Rightarrow> ('k \<Rightarrow> 'v option) \<Rightarrow> ('k \<Rightarrow> 'v option)" where
  "insert_all kvs m = foldl (\<lambda>m (k, v). m(k \<mapsto> v)) m kvs"

definition relay_settings_new ::
  "'u url_api \<Rightarrow> (string \<Rightarrow> bool) \<Rightarrow> ('u \<Rightarrow> 'u relay_config option) \<Rightarrow> bool \<Rightarrow> relay_options list \<Rightarrow>
   relay_error + 'u relay_settings" where
  "relay_settings_new api header_value_ok n0_map include_n0 options =
     res_bind (each_distinct (\<lambda>option. parse_relay_url api (opt_url option)) (\<lambda>_. DuplicateUrl)
                 (relay_entry header_value_ok) {} options)
       (\<lambda>entries.
          let custom_map = insert_all (map fst entries) Map.empty
          in if \<not> include_n0 \<and> entries = [] then Inl EmptyConfiguration
             else Inr \<lparr>settings_mode = (if include_n0 then n0_map else Map.empty) ++ custom_map,
                       settings_relays = map snd entries,
                       settings_include_n0 = include_n0\<rparr>)"

definition relay_settings_report :: "'u relay_settings \<Rightarrow> 'u configured_relay list \<times> bool" where
  "relay_settings_report s = (settings_relays s, settings_include_n0 s)"

subsection \<open>The relay file\<close>

record relay_file_entry =
  entry_url :: string
  entry_token_env :: "string option"
  entry_quic :: bool

record relay_file =
  file_include_n0 :: bool
  file_relays :: "relay_file_entry list"

datatype relay_file_error =
    RelayFileRead | RelayFileParse | TokenEnvName nat | TokenEnvUnset nat | TokenNotBearer nat
  | RelayFileInvalid relay_error

definition env_name_byte :: "char \<Rightarrow> bool" where
  "env_name_byte b = (is_ascii_alphanumeric b \<or> b = CHR ''_'')"

definition read_token ::
  "(string \<Rightarrow> bool) \<Rightarrow> (string \<Rightarrow> string option) \<Rightarrow> string \<Rightarrow> nat \<Rightarrow> relay_file_error + string" where
  "read_token header_value_ok env name index =
     (if name = [] \<or> \<not> list_all env_name_byte name then Inl (TokenEnvName index)
      else case env name of
        None \<Rightarrow> Inl (TokenEnvUnset index)
      | Some token \<Rightarrow>
          if \<not> is_ok (validate_token header_value_ok token) then Inl (TokenNotBearer index)
          else Inr token)"

definition file_option ::
  "(string \<Rightarrow> bool) \<Rightarrow> (string \<Rightarrow> string option) \<Rightarrow> nat \<times> relay_file_entry \<Rightarrow> relay_file_error + relay_options" where
  "file_option header_value_ok env = (\<lambda>(index, entry).
     res_bind
       (case entry_token_env entry of
          None \<Rightarrow> Inr None
        | Some name \<Rightarrow> res_bind (read_token header_value_ok env name (index + 1)) (\<lambda>t. Inr (Some t)))
       (\<lambda>auth_token. Inr \<lparr>opt_url = entry_url entry, opt_auth_token = auth_token,
          opt_quic = entry_quic entry\<rparr>))"

definition relay_file_parse ::
  "'u url_api \<Rightarrow> (string \<Rightarrow> bool) \<Rightarrow> ('u \<Rightarrow> 'u relay_config option) \<Rightarrow> (string \<Rightarrow> string option) \<Rightarrow>
   (string \<Rightarrow> relay_file option) \<Rightarrow> string \<Rightarrow> relay_file_error + 'u relay_settings" where
  "relay_file_parse api header_value_ok n0_map env from_toml contents =
     res_bind (ok_or RelayFileParse (from_toml contents)) (\<lambda>file.
     res_bind (collect_results (file_option header_value_ok env) (enumerate 0 (file_relays file))) (\<lambda>options.
     map_err RelayFileInvalid
       (relay_settings_new api header_value_ok n0_map (file_include_n0 file) options)))"

definition relay_file_load ::
  "'u url_api \<Rightarrow> (string \<Rightarrow> bool) \<Rightarrow> ('u \<Rightarrow> 'u relay_config option) \<Rightarrow> (string \<Rightarrow> string option) \<Rightarrow>
   (string \<Rightarrow> relay_file option) \<Rightarrow> (string \<Rightarrow> string option) \<Rightarrow> string option \<Rightarrow>
   relay_file_error + 'u relay_settings option" where
  "relay_file_load api header_value_ok n0_map env from_toml read_file path =
     (case path of
        None \<Rightarrow> Inr None
      | Some path \<Rightarrow>
          res_bind (ok_or RelayFileRead (read_file path)) (\<lambda>contents.
          res_bind (relay_file_parse api header_value_ok n0_map env from_toml contents) (\<lambda>settings.
          Inr (Some settings))))"

text \<open>\<open>endpoint_builder\<close>: what it sets on \<open>iroh\<close>'s builder.\<close>

record 'u builder_choice =
  eager_dns :: bool
  custom_relays :: "('u \<Rightarrow> 'u relay_config option) option"

definition endpoint_builder ::
  "(string \<Rightarrow> string option) \<Rightarrow> 'u relay_settings option \<Rightarrow> 'u builder_choice" where
  "endpoint_builder env settings =
     \<lparr>eager_dns = (env ''LOCHO_DNS_EAGER_FALLBACK'' = Some ''1''),
      custom_relays = map_option settings_mode settings\<rparr>"

subsection \<open>Lemmas\<close>

text \<open>What makes a URL an acceptable relay.\<close>

definition base_https_url :: "'u url_api \<Rightarrow> 'u \<Rightarrow> bool" where
  "base_https_url api url \<longleftrightarrow> url_scheme api url = ''https'' \<and> url_has_host api url \<and>
     url_username api url = [] \<and> url_password api url = None \<and> url_path api url = ''/'' \<and>
     url_query api url = None \<and> url_fragment api url = None"

lemma parse_relay_url_Inr_iff:
  "parse_relay_url api v = Inr url \<longleftrightarrow> url_parse api v = Some url \<and> base_https_url api url"
  by (auto simp: parse_relay_url_def base_https_url_def split: option.splits)

definition token_ok :: "(string \<Rightarrow> bool) \<Rightarrow> string option \<Rightarrow> bool" where
  "token_ok header_value_ok t =
     (case t of None \<Rightarrow> True | Some token \<Rightarrow> token \<noteq> [] \<and> header_value_ok (''Bearer '' @ token))"

definition config_of :: "'u \<Rightarrow> relay_options \<Rightarrow> 'u relay_config" where
  "config_of url option = \<lparr>rc_url = url, rc_quic = opt_quic option, rc_token = opt_auth_token option\<rparr>"

lemma relay_entry_Inr_iff:
  "relay_entry hv url option = Inr e \<longleftrightarrow>
   token_ok hv (opt_auth_token option) \<and>
   e = ((url, config_of url option), \<lparr>relay_url = url, relay_quic = opt_quic option\<rparr>)"
  by (auto simp: relay_entry_def token_ok_def config_of_def validate_token_def Let_def
      split: option.splits if_splits)

lemma insert_all_Nil [simp]: "insert_all [] m = m"
  by (simp add: insert_all_def)

lemma insert_all_Cons [simp]: "insert_all ((k, v) # kvs) m = insert_all kvs (m(k \<mapsto> v))"
  by (simp add: insert_all_def)

lemma insert_all_notin: "k \<notin> fst ` set kvs \<Longrightarrow> insert_all kvs m k = m k"
  by (induction kvs arbitrary: m) auto

lemma insert_all_distinct:
  "distinct (map fst kvs) \<Longrightarrow> insert_all kvs m = m ++ map_of kvs"
proof (induction kvs arbitrary: m)
  case Nil
  then show ?case by simp
next
  case (Cons kv kvs)
  obtain k v where kv: "kv = (k, v)" by force
  with Cons.prems have k: "k \<notin> fst ` set kvs" by simp
  show ?case
  proof
    fix x
    from Cons k have "insert_all (kv # kvs) m x = (m(k \<mapsto> v) ++ map_of kvs) x" by (simp add: kv)
    also from k have "\<dots> = (m ++ map_of (kv # kvs)) x"
      by (cases "x = k") (simp_all add: kv map_add_def map_of_eq_None_iff [THEN iffD2] split: option.split)
    finally show "insert_all (kv # kvs) m x = (m ++ map_of (kv # kvs)) x" .
  qed
qed

text \<open>The entries of accepted options are determined by the parsed URLs.\<close>

lemma relay_entries_eq:
  "list_all2 (\<lambda>(url, option) e. relay_entry hv url option = Inr e) (zip urls options) es \<longleftrightarrow>
   list_all (\<lambda>(url, option). token_ok hv (opt_auth_token option)) (zip urls options) \<and>
   es = map (\<lambda>(url, option). ((url, config_of url option), \<lparr>relay_url = url, relay_quic = opt_quic option\<rparr>))
     (zip urls options)"
proof (induction "zip urls options" arbitrary: urls options es)
  case Nil
  then show ?case by (cases urls; cases options) auto
next
  case (Cons p ps)
  then obtain u us o' os where eq: "urls = u # us" "options = o' # os"
    by (cases urls; cases options) auto
  with Cons.hyps(2) have "ps = zip us os" by simp
  from Cons.hyps(1) [OF this] eq show ?case
    by (auto simp: list_all2_Cons1 relay_entry_Inr_iff)
qed


lemma map_fst_zip_same: "length us = length os \<Longrightarrow> map (\<lambda>(u, o'). (u, f u o')) (zip us os) = zip us (map2 f us os)"
  by (induction us os rule: list_induct2) auto

lemma list_all_zip_snd: "length us = length os \<Longrightarrow> list_all (\<lambda>(u, o'). P o') (zip us os) \<longleftrightarrow> list_all P os"
  by (induction us os rule: list_induct2) auto

subsection \<open>Properties\<close>

text \<open>
  Which relay options are accepted and what they become: every URL is a base HTTPS URL
  without credentials, no two are the same, every token can be sent as a bearer header, and
  without the default relays there is at least one entry. The map then holds exactly the default
  relays (when included) overridden by one configuration per option, and the report lists the
  options in order.
\<close>

theorem relay_settings_new_iff:
  "relay_settings_new api hv n0_map inc options = Inr s \<longleftrightarrow>
   (\<exists>urls. list_all2 (\<lambda>option url. url_parse api (opt_url option) = Some url \<and> base_https_url api url) options urls \<and>
      distinct urls \<and> list_all (\<lambda>option. token_ok hv (opt_auth_token option)) options \<and>
      \<not> (options = [] \<and> inc = False) \<and>
      s = \<lparr>settings_mode = (if inc then n0_map else Map.empty) ++ map_of (zip urls (map2 config_of urls options)),
           settings_relays = map2 (\<lambda>url option. \<lparr>relay_url = url, relay_quic = opt_quic option\<rparr>) urls options,
           settings_include_n0 = inc\<rparr>)"
  (is "?lhs \<longleftrightarrow> (\<exists>urls. ?rhs urls)")
proof -
  let ?es = "\<lambda>urls. map (\<lambda>(url, option). ((url, config_of url option), \<lparr>relay_url = url, relay_quic = opt_quic option\<rparr>))
     (zip urls options)"
  let ?ok = "\<lambda>urls. list_all2 (\<lambda>option url. parse_relay_url api (opt_url option) = Inr url) options urls \<and>
      distinct urls \<and> list_all (\<lambda>(url, option). token_ok hv (opt_auth_token option)) (zip urls options)"
  have "?lhs \<longleftrightarrow> (\<exists>urls. ?ok urls \<and> \<not> (?es urls = [] \<and> inc = False) \<and>
      s = \<lparr>settings_mode = (if inc then n0_map else Map.empty) ++ insert_all (map fst (?es urls)) Map.empty,
           settings_relays = map snd (?es urls), settings_include_n0 = inc\<rparr>)"
  proof -
    define fin where "fin = (\<lambda>entries. let custom_map = insert_all (map fst entries) Map.empty
          in if \<not> inc \<and> entries = [] then Inl EmptyConfiguration
             else Inr \<lparr>settings_mode = (if inc then n0_map else Map.empty) ++ custom_map,
                       settings_relays = map snd entries, settings_include_n0 = inc\<rparr>)"
    have fin: "fin es = Inr s \<longleftrightarrow> \<not> (es = [] \<and> inc = False) \<and>
      s = \<lparr>settings_mode = (if inc then n0_map else Map.empty) ++ insert_all (map fst es) Map.empty,
           settings_relays = map snd es, settings_include_n0 = inc\<rparr>" for es
      unfolding fin_def Let_def by simp blast
    have "?lhs \<longleftrightarrow> (\<exists>es. (\<exists>urls. ?ok urls \<and> es = ?es urls) \<and> fin es = Inr s)"
      unfolding relay_settings_new_def fin_def [symmetric] res_bind_Inr_iff each_distinct_Inr_iff relay_entries_eq
      by blast
    also have "\<dots> \<longleftrightarrow> (\<exists>urls. ?ok urls \<and> fin (?es urls) = Inr s)" by blast
    finally show ?thesis unfolding fin .
  qed
  also have "\<dots> \<longleftrightarrow> (\<exists>urls. ?rhs urls)"
  proof (rule ex_cong1)
    fix urls
    show "(?ok urls \<and> \<not> (?es urls = [] \<and> inc = False) \<and>
      s = \<lparr>settings_mode = (if inc then n0_map else Map.empty) ++ insert_all (map fst (?es urls)) Map.empty,
           settings_relays = map snd (?es urls), settings_include_n0 = inc\<rparr>) \<longleftrightarrow> ?rhs urls"
    proof (cases "length urls = length options \<and> distinct urls")
      case True
      then have len: "length urls = length options" by simp
      have m: "map fst (?es urls) = zip urls (map2 config_of urls options)"
        using map_fst_zip_same [OF len, of config_of] by (simp add: comp_def case_prod_unfold)
      have e: "?es urls = [] \<longleftrightarrow> options = []" using len by (cases options) auto
      have r: "map snd (?es urls) = map2 (\<lambda>url option. \<lparr>relay_url = url, relay_quic = opt_quic option\<rparr>) urls options"
        by (simp add: comp_def case_prod_unfold)
      have i: "insert_all (zip urls (map2 config_of urls options)) Map.empty = map_of (zip urls (map2 config_of urls options))"
        using True by (simp add: insert_all_distinct)
      show ?thesis
        unfolding m e r i parse_relay_url_Inr_iff list_all_zip_snd [OF len, where P = "\<lambda>o'. token_ok hv (opt_auth_token o')"]
        by blast
    next
      case False
      then show ?thesis by (auto dest: list_all2_lengthD)
    qed
  qed
  finally show ?thesis .
qed

end
