(* ===== verification/Http_Utils.thy ===== *)
theory Http_Utils
  imports Relay_Policy
begin

text \<open>
  Header filtering and URL joining, \<open>src/http_utils.rs\<close>. The crate \<open>http\<close> is a parameter: its
  parsers of header names (which lower-case), header values and methods, and \<open>to_str\<close> of a
  value. A \<open>HeaderMap\<close> is the list of its entries in iteration order.
\<close>

record http_api =
  name_parse :: "string \<Rightarrow> string option"
  value_parse :: "string \<Rightarrow> bytes option"
  value_to_str :: "bytes \<Rightarrow> string option"
  method_parse :: "string \<Rightarrow> string option"

type_synonym header_map = "(string \<times> bytes) list"

definition hop_by_hop_names :: "string list" where
  "hop_by_hop_names = [''connection'', ''keep-alive'', ''proxy-authenticate'', ''proxy-authorization'',
     ''te'', ''trailer'', ''transfer-encoding'', ''upgrade'', ''host'', ''content-length'']"

definition is_hop_by_hop_header :: "string \<Rightarrow> bool" where
  "is_hop_by_hop_header name = (name \<in> set hop_by_hop_names)"

text \<open>The header names listed in \<open>Connection\<close> headers.\<close>

definition connection_headers :: "http_api \<Rightarrow> header_map \<Rightarrow> string list" where
  "connection_headers h headers =
     map (\<lambda>name. to_ascii_lowercase (trim name))
       (concat (map (split_on CHR '','')
          (List.map_filter (\<lambda>(name, v). if name = ''connection'' then value_to_str h v else None) headers)))"

definition headers_to_pairs :: "http_api \<Rightarrow> header_map \<Rightarrow> (string \<times> string) list" where
  "headers_to_pairs h headers =
     List.map_filter (\<lambda>(name, v). map_option (\<lambda>s. (name, s)) (value_to_str h v))
       (filter (\<lambda>(name, _). \<not> is_hop_by_hop_header name \<and> name \<notin> set (connection_headers h headers)) headers)"

definition pairs_to_headers :: "http_api \<Rightarrow> (string \<times> string) list \<Rightarrow> header_map" where
  "pairs_to_headers h pairs =
     List.map_filter (\<lambda>(name, v).
        case (name_parse h name, value_parse h v) of (Some n, Some x) \<Rightarrow> Some (n, x) | _ \<Rightarrow> None) pairs"

datatype join_error = InvalidRequestPath

definition join_upstream_url :: "'u url_api \<Rightarrow> 'u \<Rightarrow> string \<Rightarrow> join_error + 'u" where
  "join_upstream_url api upstream path_and_query =
     (if \<not> starts_with ''/'' path_and_query \<or> contains_str [CHR 0x5C] path_and_query
      then Inl InvalidRequestPath
      else
        let (path, query) = (case split_once CHR ''?'' path_and_query of
              Some pq \<Rightarrow> pq | None \<Rightarrow> (path_and_query, []));
            url = url_set_path api path upstream
        in Inr (url_set_query api (if query \<noteq> [] then Some query else None) url))"

definition is_supported_method :: "string \<Rightarrow> bool" where
  "is_supported_method m =
     (m \<in> {''GET'', ''POST'', ''PUT'', ''PATCH'', ''DELETE'', ''HEAD'', ''OPTIONS''})"

subsection \<open>Lemmas\<close>

lemma set_map_filter: "y \<in> set (List.map_filter f xs) \<longleftrightarrow> (\<exists>x\<in>set xs. f x = Some y)"
  by (induction xs) (auto split: option.splits)

text \<open>What \<open>http\<close> documents of its names and values, as far as the properties rely on it.\<close>

definition header_roundtrip :: "http_api \<Rightarrow> header_map \<Rightarrow> bool" where
  "header_roundtrip h headers \<longleftrightarrow>
     (\<forall>(n, v)\<in>set headers. name_parse h n = Some n \<and>
        (\<forall>s. value_to_str h v = Some s \<longrightarrow> value_parse h s = Some v))"

text \<open>
  \<open>set_path\<close> and \<open>set_query\<close> of \<open>url::Url\<close> leave the scheme and the host alone.
\<close>

definition url_setters_keep_origin :: "'u url_api \<Rightarrow> bool" where
  "url_setters_keep_origin api \<longleftrightarrow>
     (\<forall>p u. url_scheme api (url_set_path api p u) = url_scheme api u \<and>
            url_host_str api (url_set_path api p u) = url_host_str api u) \<and>
     (\<forall>q u. url_scheme api (url_set_query api q u) = url_scheme api u \<and>
            url_host_str api (url_set_query api q u) = url_host_str api u)"

lemma join_upstream_url_Inr:
  assumes "url_setters_keep_origin api" "join_upstream_url api upstream pq = Inr url"
  shows "url_scheme api url = url_scheme api upstream \<and> url_host_str api url = url_host_str api upstream"
  using assms by (auto simp: join_upstream_url_def url_setters_keep_origin_def Let_def split: if_splits prod.splits)

lemma headers_to_pairs_mem:
  "(n, s) \<in> set (headers_to_pairs h headers) \<longleftrightarrow>
   (\<exists>v. (n, v) \<in> set headers \<and> value_to_str h v = Some s) \<and> \<not> is_hop_by_hop_header n \<and>
   n \<notin> set (connection_headers h headers)"
  by (auto simp: headers_to_pairs_def set_map_filter)

lemma headers_filter_hop: 
  "filter (\<lambda>(n, _). \<not> is_hop_by_hop_header n) (headers_to_pairs h headers) = headers_to_pairs h headers"
  by (rule filter_True) (auto simp: headers_to_pairs_mem)

lemma pairs_headers_id:
  assumes "header_roundtrip h headers" "set hs \<subseteq> set headers"
  shows "pairs_to_headers h (List.map_filter (\<lambda>(name, v). map_option (\<lambda>s. (name, s)) (value_to_str h v)) hs) =
    filter (\<lambda>(_, v). value_to_str h v \<noteq> None) hs"
  using assms(2)
proof (induction hs)
  case Nil
  then show ?case by (simp add: pairs_to_headers_def)
next
  case (Cons nv hs)
  obtain n v where nv: "nv = (n, v)" by force
  with Cons.prems assms(1) have "name_parse h n = Some n" "\<And>s. value_to_str h v = Some s \<Longrightarrow> value_parse h s = Some v"
    by (auto simp: header_roundtrip_def)
  with Cons nv show ?case
    by (cases "value_to_str h v") (simp_all add: pairs_to_headers_def)
qed

subsection \<open>Properties\<close>

text \<open>
  Headers cross the tunnel unchanged except those that must not: encoding a header map to
  text pairs and back gives, in order, exactly the entries whose value is visible ASCII and whose
  name is neither a hop-by-hop header nor listed in a \<open>Connection\<close> header.
\<close>

theorem headers_tunnel_exact:
  assumes "header_roundtrip h headers"
  shows "pairs_to_headers h (headers_to_pairs h headers) =
    filter (\<lambda>(n, v). \<not> is_hop_by_hop_header n \<and> n \<notin> set (connection_headers h headers) \<and>
      value_to_str h v \<noteq> None) headers"
proof -
  let ?keep = "filter (\<lambda>(n, _). \<not> is_hop_by_hop_header n \<and> n \<notin> set (connection_headers h headers)) headers"
  have "pairs_to_headers h (headers_to_pairs h headers) = filter (\<lambda>(_, v). value_to_str h v \<noteq> None) ?keep"
    unfolding headers_to_pairs_def by (rule pairs_headers_id [OF assms]) auto
  also have "\<dots> = filter (\<lambda>(n, v). \<not> is_hop_by_hop_header n \<and> n \<notin> set (connection_headers h headers) \<and>
      value_to_str h v \<noteq> None) headers"
    by (simp add: case_prod_unfold)
  finally show ?thesis .
qed

definition plain_http :: http_api where
  "plain_http = \<lparr>name_parse = (\<lambda>n. Some (to_ascii_lowercase n)), value_parse = Some,
     value_to_str = (\<lambda>v. if list_all (in_range 32 126) v then Some v else None),
     method_parse = (\<lambda>m. if m = [] then None else Some m)\<rparr>"

theorem headers_tunnel_exact_witness:
  "pairs_to_headers plain_http (headers_to_pairs plain_http
     [(''connection'', ''close, X-Private''), (''x-private'', ''1''), (''te'', ''t''), (''accept'', ''a'')]) =
   [(''accept'', ''a'')]"
proof -
  let ?hs = "[(''connection'', ''close, X-Private''), (''x-private'', ''1''), (''te'', ''t''), (''accept'', ''a'')]"
  have lower: "\<forall>n\<in>fst ` set ?hs. name_parse plain_http n = Some n" by code_simp
  have "header_roundtrip plain_http ?hs"
    using lower by (auto simp: header_roundtrip_def plain_http_def split: if_splits)
  from headers_tunnel_exact [OF this] have "pairs_to_headers plain_http (headers_to_pairs plain_http ?hs) =
    filter (\<lambda>(n, v). \<not> is_hop_by_hop_header n \<and> n \<notin> set (connection_headers plain_http ?hs) \<and>
      value_to_str plain_http v \<noteq> None) ?hs" .
  also have "\<dots> = [(''accept'', ''a'')]" by code_simp
  finally show ?thesis .
qed

end
