(* ===== verification/Config.thy ===== *)
theory Config
  imports Relay_Policy Wire_Protocol
begin

text \<open>
  The host's service configuration (\<open>src/config.rs\<close>) and the attachment configuration of the
  client (\<open>src/attach_config.rs\<close>), after TOML parsing. \<open>url::Url\<close>, reading files and the PEM
  parser are parameters. Paths are their bytes, with \<open>std::path\<close>'s components on Unix; the limit
  on socket paths is the one for platforms other than macOS. Numbers of seconds are \<open>u64\<close> values
  that are only compared and are natural numbers here.
\<close>

subsection \<open>Addresses and paths\<close>

datatype ip_addr = V4 u32 | V6 "128 word"

record socket_addr =
  sa_ip :: ip_addr
  sa_port :: u16

datatype component = RootDir | CurDir | ParentDir | Normal string

definition path_components :: "string \<Rightarrow> component list" where
  "path_components path =
     (let parts = split_on CHR ''/'' path;
          root = (if starts_with ''/'' path then [RootDir] else if hd parts = ''.'' then [CurDir] else []);
          rest = filter (\<lambda>p. p \<noteq> [] \<and> p \<noteq> ''.'') parts
      in root @ map (\<lambda>p. if p = ''..'' then ParentDir else Normal p) rest)"

definition is_absolute :: "string \<Rightarrow> bool" where
  "is_absolute path = starts_with ''/'' path"

definition path_file_name :: "string \<Rightarrow> string option" where
  "path_file_name path =
     (case rev (path_components path) of Normal name # _ \<Rightarrow> Some name | _ \<Rightarrow> None)"

text \<open>\<open>PathBuf::push\<close>.\<close>

definition path_push :: "string \<Rightarrow> string \<Rightarrow> string" where
  "path_push buf p =
     (if is_absolute p then p
      else if buf = [] \<or> ends_with ''/'' buf then buf @ p
      else buf @ ''/'' @ p)"

subsection \<open>Services of the host\<close>

record 'u service_config =
  svc_name :: string
  svc_type :: service_type
  svc_upstream :: "'u option"
  svc_upstream_timeout_secs :: "nat option"
  svc_ca_cert :: "string option"
  svc_endpoint :: "socket_addr option"
  svc_unix_socket :: "string option"
  svc_tcp_idle_timeout_secs :: "nat option"

datatype stream_endpoint = TcpEndpoint socket_addr | UnixEndpoint string

definition stream_endpoint_of :: "'u service_config \<Rightarrow> stream_endpoint option" where
  "stream_endpoint_of svc =
     (case (svc_endpoint svc, svc_unix_socket svc) of
        (Some endpoint, None) \<Rightarrow> Some (TcpEndpoint endpoint)
      | (None, Some path) \<Rightarrow> Some (UnixEndpoint path)
      | _ \<Rightarrow> None)"

definition MAX_TCP_IDLE_TIMEOUT_SECS :: nat where
  "MAX_TCP_IDLE_TIMEOUT_SECS = 60 * 60 * 24 * 365 * 100"

definition MAX_PATH_BYTES :: nat where "MAX_PATH_BYTES = 107"

datatype path_error =
    PathNotAbsolute | PathEmpty | PathNotSocket | PathParentDir | PathTrailingSeparator | PathNul
  | PathTooLong nat

datatype config_error =
    ConfigRead | ConfigParse | NoServices | InvalidServiceName string | DuplicateServiceName string
  | HttpDefinesEndpoint string | HttpDefinesIdleTimeout string | HttpRequiresUpstream string
  | CaCertUnreadable string | CaCertInvalid string | UpstreamTimeoutRange string
  | UpstreamNotHttps string | TcpDefinesUpstream string | TcpEndpointChoice string
  | TcpEndpointPort string | TcpUnixPath string path_error | TcpIdleTimeoutRange nat

definition resolve_tcp_idle_timeout :: "nat option \<Rightarrow> config_error + duration option" where
  "resolve_tcp_idle_timeout timeout_secs =
     (case timeout_secs of
        None \<Rightarrow> Inr (Some TCP_IDLE_TIMEOUT)
      | Some seconds \<Rightarrow>
          if seconds = 0 then Inr None
          else if seconds \<le> MAX_TCP_IDLE_TIMEOUT_SECS then Inr (Some (from_secs seconds))
          else Inl (TcpIdleTimeoutRange seconds))"

definition validate_unix_socket_path :: "string \<Rightarrow> path_error + unit" where
  "validate_unix_socket_path path =
     (if \<not> is_absolute path then Inl PathNotAbsolute
      else if path = [] then Inl PathEmpty
      else if path_file_name path = None then Inl PathNotSocket
      else if ParentDir \<in> set (path_components path) then Inl PathParentDir
      else if ends_with ''/'' path \<or> ends_with ''/.'' path then Inl PathTrailingSeparator
      else if CHR 0x00 \<in> set path then Inl PathNul
      else if length path > MAX_PATH_BYTES then Inl (PathTooLong (length path))
      else Inr ())"

definition validate_http_service ::
  "'u url_api \<Rightarrow> bool \<Rightarrow> (string \<Rightarrow> bytes option) \<Rightarrow> (bytes \<Rightarrow> bool) \<Rightarrow> 'u service_config \<Rightarrow> config_error + unit" where
  "validate_http_service api integration_test read_file pem_ok svc =
     (let name = svc_name svc in
      if svc_endpoint svc \<noteq> None \<or> svc_unix_socket svc \<noteq> None then Inl (HttpDefinesEndpoint name)
      else if svc_tcp_idle_timeout_secs svc \<noteq> None then Inl (HttpDefinesIdleTimeout name)
      else
        res_bind (ok_or (HttpRequiresUpstream name) (svc_upstream svc)) (\<lambda>upstream.
        res_bind
          (case svc_ca_cert svc of
             None \<Rightarrow> Inr ()
           | Some ca_cert \<Rightarrow>
               res_bind (ok_or (CaCertUnreadable name) (read_file ca_cert)) (\<lambda>certificate.
               bail_if (\<not> pem_ok certificate) (CaCertInvalid name))) (\<lambda>_.
        res_bind
          (case svc_upstream_timeout_secs svc of
             None \<Rightarrow> Inr ()
           | Some secs \<Rightarrow> bail_if (secs = 0 \<or> secs > MAX_HTTP_REQUEST_TIMEOUT_SECS) (UpstreamTimeoutRange name)) (\<lambda>_.
        let local_test_http = (integration_test \<and> url_scheme api upstream = ''http'' \<and>
              url_host_str api upstream = Some ''127.0.0.1'')
        in bail_if ((url_scheme api upstream \<noteq> ''https'' \<and> \<not> local_test_http) \<or> url_host_str api upstream = None)
             (UpstreamNotHttps name)))))"

definition validate_tcp_service :: "'u service_config \<Rightarrow> config_error + unit" where
  "validate_tcp_service svc =
     (let name = svc_name svc in
      if svc_upstream svc \<noteq> None \<or> svc_upstream_timeout_secs svc \<noteq> None \<or> svc_ca_cert svc \<noteq> None
      then Inl (TcpDefinesUpstream name)
      else if (svc_endpoint svc \<noteq> None) = (svc_unix_socket svc \<noteq> None) then Inl (TcpEndpointChoice name)
      else if (case svc_endpoint svc of None \<Rightarrow> False | Some endpoint \<Rightarrow> sa_port endpoint = 0)
      then Inl (TcpEndpointPort name)
      else
        res_bind
          (case svc_unix_socket svc of
             None \<Rightarrow> Inr ()
           | Some path \<Rightarrow> map_err (TcpUnixPath name) (validate_unix_socket_path path)) (\<lambda>_.
        res_bind (resolve_tcp_idle_timeout (svc_tcp_idle_timeout_secs svc)) (\<lambda>_. Inr ())))"

definition service_key :: "'u service_config \<Rightarrow> config_error + string" where
  "service_key svc =
     (if \<not> is_safe_service_name (svc_name svc) then Inl (InvalidServiceName (svc_name svc))
      else Inr (svc_name svc))"

definition validate_service ::
  "'u url_api \<Rightarrow> bool \<Rightarrow> (string \<Rightarrow> bytes option) \<Rightarrow> (bytes \<Rightarrow> bool) \<Rightarrow> 'u service_config \<Rightarrow> config_error + unit" where
  "validate_service api integration_test read_file pem_ok svc =
     (case svc_type svc of
        Http \<Rightarrow> validate_http_service api integration_test read_file pem_ok svc
      | Tcp \<Rightarrow> validate_tcp_service svc)"

definition config_validate ::
  "'u url_api \<Rightarrow> bool \<Rightarrow> (string \<Rightarrow> bytes option) \<Rightarrow> (bytes \<Rightarrow> bool) \<Rightarrow> 'u service_config list \<Rightarrow> config_error + unit" where
  "config_validate api integration_test read_file pem_ok services =
     (if services = [] then Inl NoServices
      else res_bind
        (each_distinct service_key DuplicateServiceName
           (\<lambda>_. validate_service api integration_test read_file pem_ok) {} services) (\<lambda>_. Inr ()))"

definition config_load ::
  "'u url_api \<Rightarrow> bool \<Rightarrow> (string \<Rightarrow> bytes option) \<Rightarrow> (bytes \<Rightarrow> bool) \<Rightarrow>
   (bytes \<Rightarrow> 'u service_config list option) \<Rightarrow> string \<Rightarrow> config_error + 'u service_config list" where
  "config_load api integration_test read_file pem_ok from_toml path =
     res_bind (ok_or ConfigRead (read_file path)) (\<lambda>contents.
     res_bind (ok_or ConfigParse (from_toml contents)) (\<lambda>services.
     res_bind (config_validate api integration_test read_file pem_ok services) (\<lambda>_. Inr services)))"

subsection \<open>Attachments of the client\<close>

definition MAX_CONFIGURED_SERVICES :: nat where "MAX_CONFIGURED_SERVICES = 128"

record attach_service_config =
  as_capability :: string
  as_listen_port :: "u16 option"
  as_listen_unix :: "string option"
  as_http_timeout_secs :: "nat option"
  as_tcp_idle_timeout_secs :: "nat option"

record attach_config =
  ac_host_id :: string
  ac_direct_address :: "socket_addr option"
  ac_listen_host :: ip_addr
  ac_services :: "attach_service_config list"

datatype listener_address = TcpListen socket_addr | UnixListen string

record attachment_config =
  at_capability :: capability
  at_listen :: listener_address
  at_http_timeout :: duration
  at_tcp_idle_timeout :: "duration option"

datatype attach_error =
    AttachNoHostId | AttachNoServices | AttachTooManyServices | AttachZeroPort
  | AttachCapability nat | AttachDuplicateService string | AttachDuplicatePort u16
  | AttachHttpUnix nat | AttachHttpIdle | AttachHttpPort nat | AttachHttpTimeoutRange
  | AttachTcpHttpTimeout nat | AttachListenBoth nat | AttachListenNone nat
  | AttachUnixPath nat path_error | AttachIdleTimeout config_error | AttachDuplicateUnix string
  | AttachUnreachable

definition resolve_http_timeout :: "nat option \<Rightarrow> attach_error + duration" where
  "resolve_http_timeout timeout_secs =
     (let secs = (case timeout_secs of None \<Rightarrow> HTTP_REQUEST_TIMEOUT div 10 ^ 9 | Some s \<Rightarrow> s)
      in if secs = 0 \<or> secs > MAX_HTTP_REQUEST_TIMEOUT_SECS then Inl AttachHttpTimeoutRange
         else Inr (from_secs secs))"

text \<open>\<open>normalize_unix_path\<close>; \<open>None\<close> is its \<open>unreachable!\<close>.\<close>

fun push_components :: "string \<Rightarrow> component list \<Rightarrow> string option" where
  "push_components buf [] = Some buf"
| "push_components buf (RootDir # cs) = push_components (path_push buf ''/'') cs"
| "push_components buf (CurDir # cs) = push_components buf cs"
| "push_components buf (Normal name # cs) = push_components (path_push buf name) cs"
| "push_components buf (ParentDir # cs) = None"

definition normalize_unix_path :: "string \<Rightarrow> string option" where
  "normalize_unix_path path = push_components [] (path_components path)"

definition tcp_listen :: "ip_addr \<Rightarrow> nat \<Rightarrow> attach_service_config \<Rightarrow> attach_error + listener_address" where
  "tcp_listen host index service =
     (case (as_listen_port service, as_listen_unix service) of
        (Some port, None) \<Rightarrow> Inr (TcpListen \<lparr>sa_ip = host, sa_port = port\<rparr>)
      | (None, Some path) \<Rightarrow>
          res_bind (map_err (AttachUnixPath (index + 1)) (validate_unix_socket_path path)) (\<lambda>_.
          res_bind (ok_or AttachUnreachable (normalize_unix_path path)) (\<lambda>p. Inr (UnixListen p)))
      | (Some _, Some _) \<Rightarrow> Inl (AttachListenBoth (index + 1))
      | (None, None) \<Rightarrow> Inl (AttachListenNone (index + 1)))"

definition attachment_settings ::
  "ip_addr \<Rightarrow> nat \<Rightarrow> attach_service_config \<Rightarrow> service_type \<Rightarrow>
   attach_error + listener_address \<times> duration \<times> duration option" where
  "attachment_settings host index service ty =
     (case ty of
        Http \<Rightarrow>
          if as_listen_unix service \<noteq> None then Inl (AttachHttpUnix (index + 1))
          else if as_tcp_idle_timeout_secs service \<noteq> None then Inl AttachHttpIdle
          else
            res_bind (ok_or (AttachHttpPort (index + 1)) (as_listen_port service)) (\<lambda>port.
            res_bind (resolve_http_timeout (as_http_timeout_secs service)) (\<lambda>http_timeout.
            Inr (TcpListen \<lparr>sa_ip = host, sa_port = port\<rparr>, http_timeout, None)))
      | Tcp \<Rightarrow>
          if as_http_timeout_secs service \<noteq> None then Inl (AttachTcpHttpTimeout (index + 1))
          else
            res_bind (tcp_listen host index service) (\<lambda>listen.
            res_bind (map_err AttachIdleTimeout (resolve_tcp_idle_timeout (as_tcp_idle_timeout_secs service))) (\<lambda>idle.
            Inr (listen, HTTP_REQUEST_TIMEOUT, idle))))"

record seen_attachments =
  seen_names :: "string set"
  seen_ports :: "u16 set"
  seen_paths :: "string set"

definition insert_port :: "u16 option \<Rightarrow> u16 set \<Rightarrow> attach_error + u16 set" where
  "insert_port listen_port ports =
     (case listen_port of
        None \<Rightarrow> Inr ports
      | Some port \<Rightarrow> if port \<in> ports then Inl (AttachDuplicatePort port) else Inr (insert port ports))"

definition insert_unix_path :: "listener_address \<Rightarrow> string set \<Rightarrow> attach_error + string set" where
  "insert_unix_path listen paths =
     (case listen of
        UnixListen p \<Rightarrow> if p \<in> paths then Inl (AttachDuplicateUnix p) else Inr (insert p paths)
      | TcpListen _ \<Rightarrow> Inr paths)"

definition attachment_step ::
  "ip_addr \<Rightarrow> nat \<Rightarrow> attach_service_config \<Rightarrow> seen_attachments \<Rightarrow>
   attach_error + attachment_config \<times> seen_attachments" where
  "attachment_step host index service seen =
     res_bind (map_err (\<lambda>_. AttachCapability (index + 1)) (capability_parse (as_capability service))) (\<lambda>cap.
     res_bind (bail_if (cap_service cap \<in> seen_names seen) (AttachDuplicateService (cap_service cap))) (\<lambda>_.
     res_bind (insert_port (as_listen_port service) (seen_ports seen)) (\<lambda>ports.
     res_bind (attachment_settings host index service (cap_service_type cap)) (\<lambda>(listen, http_timeout, idle).
     res_bind (insert_unix_path listen (seen_paths seen)) (\<lambda>paths.
     Inr (\<lparr>at_capability = cap, at_listen = listen, at_http_timeout = http_timeout, at_tcp_idle_timeout = idle\<rparr>,
          \<lparr>seen_names = insert (cap_service cap) (seen_names seen), seen_ports = ports, seen_paths = paths\<rparr>))))))"

fun attachments_from ::
  "ip_addr \<Rightarrow> nat \<Rightarrow> seen_attachments \<Rightarrow> attach_service_config list \<Rightarrow> attach_error + attachment_config list" where
  "attachments_from host index seen [] = Inr []"
| "attachments_from host index seen (service # rest) =
     res_bind (attachment_step host index service seen) (\<lambda>(a, seen).
     res_bind (attachments_from host (index + 1) seen rest) (\<lambda>as. Inr (a # as)))"

definition attachments :: "attach_config \<Rightarrow> attach_error + attachment_config list" where
  "attachments cfg =
     attachments_from (ac_listen_host cfg) 0 \<lparr>seen_names = {}, seen_ports = {}, seen_paths = {}\<rparr> (ac_services cfg)"

definition attach_validate :: "attach_config \<Rightarrow> attach_error + unit" where
  "attach_validate cfg =
     (if trim (ac_host_id cfg) = [] then Inl AttachNoHostId
      else if ac_services cfg = [] then Inl AttachNoServices
      else if length (ac_services cfg) > MAX_CONFIGURED_SERVICES then Inl AttachTooManyServices
      else if list_ex (\<lambda>service. as_listen_port service = Some 0) (ac_services cfg) then Inl AttachZeroPort
      else res_bind (attachments cfg) (\<lambda>_. Inr ()))"

definition default_listen_host :: ip_addr where
  "default_listen_host = V4 0x7F000001"


subsection \<open>Lemmas on paths\<close>

definition plain_name :: "string \<Rightarrow> bool" where
  "plain_name n \<longleftrightarrow> n \<noteq> [] \<and> n \<noteq> ''.'' \<and> n \<noteq> ''..'' \<and> CHR ''/'' \<notin> set n"

definition rooted :: "string list \<Rightarrow> string" where
  "rooted names = ''/'' @ join_with ''/'' names"

lemma split_on_join:
  "\<forall>n\<in>set ns. c \<notin> set n \<Longrightarrow> ns \<noteq> [] \<Longrightarrow> split_on c (join_with [c] ns) = ns"
  by (induction ns rule: induct_list012) (simp_all add: split_on_no_sep split_on_append_sep)

lemma path_components_rooted:
  assumes "list_all plain_name names"
  shows "path_components (rooted names) = RootDir # map Normal names"
proof (cases "names = []")
  case True
  then show ?thesis by (simp add: path_components_def rooted_def starts_with_def)
next
  case False
  have "split_on CHR ''/'' (rooted names) = [] # names"
    using assms False split_on_join [of names "CHR ''/''"]
    by (simp add: rooted_def list_all_iff plain_name_def)
  moreover have "filter (\<lambda>p. p \<noteq> [] \<and> p \<noteq> ''.'') names = names"
    using assms by (simp add: filter_id_conv list_all_iff plain_name_def)
  moreover have "map (\<lambda>p. if p = ''..'' then ParentDir else Normal p) names = map Normal names"
    using assms by (simp add: list_all_iff plain_name_def)
  ultimately show ?thesis by (simp add: path_components_def rooted_def starts_with_def Let_def)
qed

lemma absolute_components:
  assumes "is_absolute path" "ParentDir \<notin> set (path_components path)"
  obtains names where "list_all plain_name names" "path_components path = RootDir # map Normal names"
    "names = filter (\<lambda>p. p \<noteq> [] \<and> p \<noteq> ''.'') (split_on CHR ''/'' path)"
proof -
  let ?ns = "filter (\<lambda>p. p \<noteq> [] \<and> p \<noteq> ''.'') (split_on CHR ''/'' path)"
  have eq: "path_components path = RootDir # map (\<lambda>p. if p = ''..'' then ParentDir else Normal p) ?ns"
    using assms(1) by (simp add: path_components_def is_absolute_def Let_def)
  with assms(2) have no_parent: "''..'' \<notin> set ?ns" by force
  then have "list_all plain_name ?ns"
    by (auto simp: list_all_iff plain_name_def dest: split_on_parts_no_sep)
  moreover have "map (\<lambda>p. if p = ''..'' then ParentDir else Normal p) ?ns = map Normal ?ns"
    using no_parent by (auto intro!: map_cong)
  ultimately show thesis using eq that [of ?ns] by simp
qed

lemma plain_not_absolute: "plain_name n \<Longrightarrow> \<not> is_absolute n"
  by (auto simp: plain_name_def is_absolute_def starts_with_iff)

lemma push_plain:
  "list_all plain_name ns \<Longrightarrow> buf \<noteq> [] \<Longrightarrow> \<not> ends_with ''/'' buf \<Longrightarrow>
   push_components buf (map Normal ns) = Some (join_with ''/'' (buf # ns))"
proof (induction ns arbitrary: buf)
  case Nil
  then show ?case by simp
next
  case (Cons n ns)
  then have n: "n \<noteq> []" "CHR ''/'' \<notin> set n" "\<not> is_absolute n"
    by (simp_all add: plain_not_absolute, simp_all add: plain_name_def)
  have "\<not> ends_with ''/'' (buf @ ''/'' @ n)"
    using n(1,2) by (cases n rule: rev_cases) (auto simp: ends_with_iff)
  with Cons n have "push_components (path_push buf n) (map Normal ns) = Some (join_with ''/'' ((buf @ ''/'' @ n) # ns))"
    by (simp add: path_push_def)
  then show ?case by (cases ns) simp_all
qed

lemma push_rooted:
  assumes "list_all plain_name names"
  shows "push_components [] (RootDir # map Normal names) = Some (rooted names)"
proof (cases names)
  case Nil
  then show ?thesis by (simp add: path_push_def rooted_def is_absolute_def starts_with_def)
next
  case (Cons n ns)
  with assms have n: "plain_name n" "list_all plain_name ns" by simp_all
  then have "\<not> ends_with ''/'' (''/'' @ n)"
    by (cases n rule: rev_cases) (auto simp: ends_with_iff plain_name_def)
  with push_plain [OF n(2), of "''/'' @ n"]
  have rest: "push_components (''/'' @ n) (map Normal ns) = Some (join_with ''/'' ((''/'' @ n) # ns))" by simp
  have "path_push [] ''/'' = ''/''" by (simp add: path_push_def)
  moreover have "path_push ''/'' n = ''/'' @ n"
    using plain_not_absolute [OF n(1)] by (simp add: path_push_def ends_with_iff)
  ultimately show ?thesis using rest Cons by (cases ns) (simp_all add: rooted_def)
qed

lemma length_join: "ns \<noteq> [] \<Longrightarrow> length (join_with [c] ns) + 1 = sum_list (map (\<lambda>n. length n + 1) ns)"
  by (induction ns rule: induct_list012) simp_all

lemma sum_filter_le: "sum_list (map f (filter P xs)) \<le> sum_list (map (f :: 'a \<Rightarrow> nat) xs)"
  by (induction xs) auto

lemma rooted_length:
  assumes "is_absolute path" "\<not> P []"
  shows "length (rooted (filter P (split_on CHR ''/'' path))) \<le> length path"
proof -
  from assms(1) obtain rest where path: "path = CHR ''/'' # rest" by (auto simp: is_absolute_def starts_with_iff)
  let ?parts = "split_on CHR ''/'' rest"
  have total: "length rest + 1 = sum_list (map (\<lambda>n. length n + 1) ?parts)"
    using length_join [of ?parts "CHR ''/''"] by (simp add: join_split_on)
  have "sum_list (map (\<lambda>n. length n + 1) (filter P ?parts)) \<le> sum_list (map (\<lambda>n. length n + 1) ?parts)"
    by (rule sum_filter_le)
  moreover have "length (rooted ns) \<le> sum_list (map (\<lambda>n. length n + 1) ns)" if "ns \<noteq> []" for ns
    using length_join [OF that, of "CHR ''/''"] by (simp add: rooted_def)
  ultimately show ?thesis
    using total path assms(2) by (cases "filter P ?parts = []") (force simp: rooted_def)+
qed


lemma validate_unix_socket_path_Inr_iff:
  "validate_unix_socket_path path = Inr u \<longleftrightarrow>
   is_absolute path \<and> path_file_name path \<noteq> None \<and> ParentDir \<notin> set (path_components path) \<and>
   \<not> ends_with ''/'' path \<and> \<not> ends_with ''/.'' path \<and> CHR 0x00 \<notin> set path \<and> length path \<le> MAX_PATH_BYTES"
  by (auto simp: validate_unix_socket_path_def is_absolute_def starts_with_iff)

lemma normalize_valid:
  assumes "validate_unix_socket_path path = Inr ()"
  obtains names where "list_all plain_name names" "path_components path = RootDir # map Normal names"
    "normalize_unix_path path = Some (rooted names)" "length (rooted names) \<le> length path"
proof -
  from assms have abs: "is_absolute path" "ParentDir \<notin> set (path_components path)"
    by (simp_all add: validate_unix_socket_path_Inr_iff)
  from absolute_components [OF this] obtain names where n: "list_all plain_name names"
    "path_components path = RootDir # map Normal names"
    "names = filter (\<lambda>p. p \<noteq> [] \<and> p \<noteq> ''.'') (split_on CHR ''/'' path)" .
  from n push_rooted [OF n(1)] have "normalize_unix_path path = Some (rooted names)"
    by (simp add: normalize_unix_path_def)
  with n rooted_length [OF abs(1), of "\<lambda>p. p \<noteq> [] \<and> p \<noteq> ''.''"] that show thesis by simp
qed

subsection \<open>Lemmas on validated services\<close>

lemma config_validate_parts:
  assumes "config_validate api it rf pem services = Inr ()"
  shows "distinct (map svc_name services) \<and>
    (\<forall>svc\<in>set services. is_safe_service_name (svc_name svc) \<and> validate_service api it rf pem svc = Inr ())"
proof -
  from assms obtain ys where "each_distinct service_key DuplicateServiceName
      (\<lambda>_. validate_service api it rf pem) {} services = Inr ys"
    by (auto simp: config_validate_def result_simps split: if_splits)
  then obtain ks where ks: "list_all2 (\<lambda>x k. service_key x = Inr k) services ks" "distinct ks"
    and body: "list_all2 (\<lambda>(k, x) y. validate_service api it rf pem x = Inr y) (zip ks services) ys"
    unfolding each_distinct_Inr_iff by auto
  from ks(1) have names: "ks = map svc_name services" "\<forall>s\<in>set services. is_safe_service_name (svc_name s)"
    by (induction rule: list_all2_induct) (auto simp: service_key_def split: if_splits)
  have "validate_service api it rf pem svc = Inr ()" if svc: "svc \<in> set services" for svc
  proof -
    from svc obtain i where "i < length services" "svc = services ! i" by (metis in_set_conv_nth)
    with body names(1) show ?thesis by (auto simp: list_all2_conv_all_nth)
  qed
  with names ks(2) show ?thesis by simp
qed

lemma validated_names: "config_validate api it rf pem services = Inr () \<Longrightarrow> distinct (map svc_name services)"
  by (simp add: config_validate_parts)

lemma validated_service_name:
  "config_validate api it rf pem services = Inr () \<Longrightarrow> svc \<in> set services \<Longrightarrow> is_safe_service_name (svc_name svc)"
  by (simp add: config_validate_parts)

lemma validated_service_ok:
  "config_validate api it rf pem services = Inr () \<Longrightarrow> svc \<in> set services \<Longrightarrow> validate_service api it rf pem svc = Inr ()"
  by (simp add: config_validate_parts)

subsection \<open>Lemmas on attachments\<close>

definition taken_listeners :: "ip_addr \<Rightarrow> seen_attachments \<Rightarrow> listener_address set" where
  "taken_listeners host seen =
     (\<lambda>port. TcpListen \<lparr>sa_ip = host, sa_port = port\<rparr>) ` seen_ports seen \<union> UnixListen ` seen_paths seen"

lemma tcp_listen_TcpListen:
  "tcp_listen host i service = Inr (TcpListen a) \<Longrightarrow>
   \<exists>port. as_listen_port service = Some port \<and> a = \<lparr>sa_ip = host, sa_port = port\<rparr>"
  by (auto simp: tcp_listen_def result_simps split: option.splits)

lemma attachment_settings_TcpListen:
  "attachment_settings host i service ty = Inr (TcpListen a, h, d) \<Longrightarrow>
   \<exists>port. as_listen_port service = Some port \<and> a = \<lparr>sa_ip = host, sa_port = port\<rparr>"
  by (auto simp: attachment_settings_def result_simps dest: tcp_listen_TcpListen
      split: service_type.splits if_splits)

lemma insert_port_Inr:
  "insert_port p ports = Inr ports' \<Longrightarrow> ports \<subseteq> ports' \<and> (\<forall>q. p = Some q \<longrightarrow> q \<notin> ports \<and> q \<in> ports')"
  by (auto simp: insert_port_def split: option.splits if_splits)

lemma insert_unix_path_Inr:
  "insert_unix_path l paths = Inr paths' \<Longrightarrow> paths \<subseteq> paths' \<and> (\<forall>q. l = UnixListen q \<longrightarrow> q \<notin> paths \<and> q \<in> paths')"
  by (auto simp: insert_unix_path_def split: listener_address.splits if_splits)

lemma attachment_step_Inr:
  assumes "attachment_step host i service seen = Inr (a, seen')"
  shows "capability_parse (as_capability service) = Inr (at_capability a) \<and>
    cap_service (at_capability a) \<notin> seen_names seen \<and>
    insert_port (as_listen_port service) (seen_ports seen) = Inr (seen_ports seen') \<and>
    attachment_settings host i service (cap_service_type (at_capability a)) =
      Inr (at_listen a, at_http_timeout a, at_tcp_idle_timeout a) \<and>
    insert_unix_path (at_listen a) (seen_paths seen) = Inr (seen_paths seen') \<and>
    seen_names seen' = insert (cap_service (at_capability a)) (seen_names seen)"
  using assms by (auto simp: attachment_step_def result_simps)

lemma attachment_step_listener:
  assumes "attachment_step host i service seen = Inr (a, seen')"
  shows "at_listen a \<notin> taken_listeners host seen \<and>
    insert (at_listen a) (taken_listeners host seen) \<subseteq> taken_listeners host seen'"
proof -
  note step = attachment_step_Inr [OF assms]
  from step insert_port_Inr [of "as_listen_port service" "seen_ports seen" "seen_ports seen'"]
    insert_unix_path_Inr [of "at_listen a" "seen_paths seen" "seen_paths seen'"]
  have ports: "seen_ports seen \<subseteq> seen_ports seen'" "\<forall>q. as_listen_port service = Some q \<longrightarrow> q \<notin> seen_ports seen \<and> q \<in> seen_ports seen'"
    and paths: "seen_paths seen \<subseteq> seen_paths seen'" "\<forall>q. at_listen a = UnixListen q \<longrightarrow> q \<notin> seen_paths seen \<and> q \<in> seen_paths seen'"
    by simp_all
  show ?thesis
  proof (cases "at_listen a")
    case (TcpListen addr)
    then obtain port where "as_listen_port service = Some port" "addr = \<lparr>sa_ip = host, sa_port = port\<rparr>"
      using step attachment_settings_TcpListen [of host i service _ addr] by metis
    with ports paths TcpListen show ?thesis by (auto simp: taken_listeners_def)
  next
    case (UnixListen p)
    with ports paths show ?thesis by (auto simp: taken_listeners_def)
  qed
qed

definition names_of :: "attachment_config list \<Rightarrow> string list" where
  "names_of as = map (\<lambda>a. cap_service (at_capability a)) as"

lemma attachments_from_distinct:
  "attachments_from host i seen services = Inr as \<Longrightarrow>
   distinct (names_of as) \<and> set (names_of as) \<inter> seen_names seen = {} \<and>
   distinct (map at_listen as) \<and> set (map at_listen as) \<inter> taken_listeners host seen = {} \<and>
   list_all2 (\<lambda>service a. capability_parse (as_capability service) = Inr (at_capability a)) services as"
proof (induction services arbitrary: i seen as)
  case Nil
  then show ?case by (simp add: names_of_def)
next
  case (Cons service services)
  then obtain a seen' as' where a: "attachment_step host i service seen = Inr (a, seen')"
    and as': "attachments_from host (i + 1) seen' services = Inr as'" "as = a # as'"
    by (auto simp: result_simps)
  from Cons.IH [OF as'(1)] attachment_step_Inr [OF a] attachment_step_listener [OF a] as'(2)
  show ?case by (auto simp: names_of_def)
qed

lemma attachments_from_index:
  "attachments_from host i seen services = Inr as \<Longrightarrow> k < length services \<Longrightarrow>
   \<exists>j. attachment_settings host j (services ! k) (cap_service_type (at_capability (as ! k))) =
     Inr (at_listen (as ! k), at_http_timeout (as ! k), at_tcp_idle_timeout (as ! k))"
proof (induction services arbitrary: i seen as k)
  case Nil
  then show ?case by simp
next
  case (Cons service services)
  then obtain a seen' as' where a: "attachment_step host i service seen = Inr (a, seen')"
    and as': "attachments_from host (i + 1) seen' services = Inr as'" "as = a # as'"
    by (auto simp: result_simps)
  from Cons.IH [OF as'(1)] Cons.prems(2) attachment_step_Inr [OF a] as'(2)
  show ?case by (cases k) auto
qed

subsection \<open>Properties\<close>

text \<open>
  What a validated host configuration guarantees of each service: safe and pairwise different
  names; a TCP service has exactly one stream endpoint, a TCP address with a non-zero port or a
  socket path that passed its own validation, and nothing of an HTTP service; an HTTP service has
  an upstream with a host, over HTTPS unless it is the loopback exception of the integration
  tests, a timeout within 1 to 300 seconds, and no stream endpoint.
\<close>

theorem validated_services:
  assumes "config_validate api integration_test read_file pem_ok services = Inr ()" "svc \<in> set services"
  shows "distinct (map svc_name services) \<and> is_safe_service_name (svc_name svc) \<and>
    (case svc_type svc of
       Tcp \<Rightarrow> svc_upstream svc = None \<and>
         (case stream_endpoint_of svc of
            None \<Rightarrow> False
          | Some (TcpEndpoint a) \<Rightarrow> sa_port a \<noteq> 0
          | Some (UnixEndpoint p) \<Rightarrow> validate_unix_socket_path p = Inr ()) \<and>
         is_ok (resolve_tcp_idle_timeout (svc_tcp_idle_timeout_secs svc))
     | Http \<Rightarrow> stream_endpoint_of svc = None \<and>
         (\<exists>u. svc_upstream svc = Some u \<and> url_host_str api u \<noteq> None \<and>
            (url_scheme api u = ''https'' \<or>
             integration_test \<and> url_scheme api u = ''http'' \<and> url_host_str api u = Some ''127.0.0.1'')) \<and>
         (\<forall>secs. svc_upstream_timeout_secs svc = Some secs \<longrightarrow> 1 \<le> secs \<and> secs \<le> 300))"
proof -
  note svc = validated_service_ok [OF assms]
  show ?thesis
    using validated_names [OF assms(1)] validated_service_name [OF assms] svc
    by (cases "svc_type svc")
      (auto simp: validate_service_def validate_http_service_def validate_tcp_service_def stream_endpoint_of_def
        result_simps is_ok_iff Let_def MAX_HTTP_REQUEST_TIMEOUT_SECS_def split: if_splits option.splits)
qed


text \<open>A minimal instance of the URL interface, for the witnesses: a URL is its scheme.\<close>

definition scheme_urls :: "string url_api" where
  "scheme_urls = \<lparr>url_parse = Some, url_scheme = (\<lambda>u. u), url_has_host = (\<lambda>_. True),
     url_host_str = (\<lambda>_. Some ''h''), url_domain = (\<lambda>_. Some ''h''), url_username = (\<lambda>_. []),
     url_password = (\<lambda>_. None), url_path = (\<lambda>_. ''/''), url_query = (\<lambda>_. None),
     url_fragment = (\<lambda>_. None), url_to_string = (\<lambda>u. u), url_set_host = (\<lambda>_. Some),
     url_set_path = (\<lambda>_ u. u), url_set_query = (\<lambda>_ u. u)\<rparr>"

definition demo_tcp_service :: "string service_config" where
  "demo_tcp_service = \<lparr>svc_name = ''db'', svc_type = Tcp, svc_upstream = None, svc_upstream_timeout_secs = None,
     svc_ca_cert = None, svc_endpoint = Some \<lparr>sa_ip = V4 0x7F000001, sa_port = 5432\<rparr>, svc_unix_socket = None,
     svc_tcp_idle_timeout_secs = Some 30\<rparr>"

definition demo_http_service :: "string service_config" where
  "demo_http_service = \<lparr>svc_name = ''web'', svc_type = Http, svc_upstream = Some ''https'',
     svc_upstream_timeout_secs = Some 20, svc_ca_cert = None, svc_endpoint = None, svc_unix_socket = None,
     svc_tcp_idle_timeout_secs = None\<rparr>"

lemma demo_services_valid:
  "config_validate scheme_urls False (\<lambda>_. None) (\<lambda>_. True) [demo_tcp_service, demo_http_service] = Inr ()"
  "config_validate scheme_urls False (\<lambda>_. None) (\<lambda>_. True) [demo_tcp_service] = Inr ()"
proof -
  have safe: "is_safe_service_name ''db''" "is_safe_service_name ''web''" by code_simp+
  then show "config_validate scheme_urls False (\<lambda>_. None) (\<lambda>_. True) [demo_tcp_service, demo_http_service] = Inr ()"
    "config_validate scheme_urls False (\<lambda>_. None) (\<lambda>_. True) [demo_tcp_service] = Inr ()"
    by (simp_all add: config_validate_def service_key_def validate_service_def validate_tcp_service_def
        validate_http_service_def demo_tcp_service_def demo_http_service_def scheme_urls_def
        resolve_tcp_idle_timeout_def MAX_TCP_IDLE_TIMEOUT_SECS_def MAX_HTTP_REQUEST_TIMEOUT_SECS_def Let_def)
qed

theorem validated_services_witness:
  "config_validate scheme_urls False (\<lambda>_. None) (\<lambda>_. True) [demo_tcp_service, demo_http_service] = Inr () \<and>
   svc_upstream_timeout_secs demo_http_service = Some 20 \<and> is_safe_service_name (svc_name demo_http_service)"
  using demo_services_valid(1) validated_services [OF demo_services_valid(1), of demo_http_service]
  by (simp add: demo_http_service_def)

text \<open>
  Normalizing a validated socket path never reaches the \<open>unreachable!\<close> branch; the result has
  the same components, is itself a fixed point, is no longer than the original and so still fits
  a socket address. Comparing normalized paths is therefore comparing component sequences.
\<close>

theorem normalize_unix_path_exact:
  assumes "validate_unix_socket_path path = Inr ()"
  shows "\<exists>p. normalize_unix_path path = Some p \<and> path_components p = path_components path \<and>
    normalize_unix_path p = Some p \<and> length p \<le> MAX_PATH_BYTES"
proof -
  from normalize_valid [OF assms] obtain names where n: "list_all plain_name names"
    "path_components path = RootDir # map Normal names" "normalize_unix_path path = Some (rooted names)"
    "length (rooted names) \<le> length path" .
  moreover have "normalize_unix_path (rooted names) = Some (rooted names)"
    using push_rooted [OF n(1)] path_components_rooted [OF n(1)] by (simp add: normalize_unix_path_def)
  moreover from assms have "length path \<le> MAX_PATH_BYTES" by (simp add: validate_unix_socket_path_Inr_iff)
  ultimately show ?thesis using path_components_rooted [OF n(1)] by auto
qed

theorem normalize_unix_path_exact_witness:
  "normalize_unix_path ''/run//./db.sock'' = Some ''/run/db.sock'' \<and>
   path_components ''/run/db.sock'' = path_components ''/run//./db.sock''"
proof -
  have "validate_unix_socket_path ''/run//./db.sock'' = Inr ()" by code_simp
  moreover have "normalize_unix_path ''/run//./db.sock'' = Some ''/run/db.sock''" by code_simp
  ultimately show ?thesis using normalize_unix_path_exact [of "''/run//./db.sock''"] by auto
qed

text \<open>
  A validated attachment configuration yields one attachment per service, in order, each with
  the capability of its service; no two attach the same service name and no two listen on the
  same TCP address or Unix path; no listening port is zero.
\<close>

theorem validated_attachments:
  assumes "attach_validate cfg = Inr ()"
  shows "\<exists>as. attachments cfg = Inr as \<and> length as = length (ac_services cfg) \<and> length as \<le> 128 \<and>
    list_all2 (\<lambda>service a. capability_parse (as_capability service) = Inr (at_capability a)) (ac_services cfg) as \<and>
    distinct (map (\<lambda>a. cap_service (at_capability a)) as) \<and> distinct (map at_listen as) \<and>
    (\<forall>a addr. a \<in> set as \<and> at_listen a = TcpListen addr \<longrightarrow> sa_ip addr = ac_listen_host cfg \<and> sa_port addr \<noteq> 0)"
proof -
  from assms obtain as where as: "attachments cfg = Inr as"
    and lim: "length (ac_services cfg) \<le> 128"
    and ports: "\<forall>s\<in>set (ac_services cfg). as_listen_port s \<noteq> Some 0"
    by (auto simp: attach_validate_def result_simps list_ex_iff MAX_CONFIGURED_SERVICES_def split: if_splits)
  from as have from0: "attachments_from (ac_listen_host cfg) 0
      \<lparr>seen_names = {}, seen_ports = {}, seen_paths = {}\<rparr> (ac_services cfg) = Inr as"
    by (simp add: attachments_def)
  note d = attachments_from_distinct [OF from0]
  then have len: "length as = length (ac_services cfg)" by (auto dest: list_all2_lengthD)
  have "sa_ip addr = ac_listen_host cfg \<and> sa_port addr \<noteq> 0"
    if a: "a \<in> set as" "at_listen a = TcpListen addr" for a addr
  proof -
    from a(1) obtain k where k: "k < length (ac_services cfg)" "a = as ! k" using len by (metis in_set_conv_nth)
    from attachments_from_index [OF from0 k(1)] k(2) a(2) obtain port where
      "as_listen_port (ac_services cfg ! k) = Some port" "addr = \<lparr>sa_ip = ac_listen_host cfg, sa_port = port\<rparr>"
      using attachment_settings_TcpListen by metis
    with ports k(1) show ?thesis by (auto dest: nth_mem)
  qed
  with as d len lim show ?thesis by (auto simp: names_of_def)
qed

definition demo_attach :: attach_config where
  "demo_attach = \<lparr>ac_host_id = ''h'', ac_direct_address = None, ac_listen_host = default_listen_host,
     ac_services =
       [\<lparr>as_capability = ''web:http:k'', as_listen_port = Some 8080, as_listen_unix = None,
         as_http_timeout_secs = None, as_tcp_idle_timeout_secs = None\<rparr>,
        \<lparr>as_capability = ''db:tcp:k'', as_listen_port = None, as_listen_unix = Some ''/run/./db.sock'',
         as_http_timeout_secs = None, as_tcp_idle_timeout_secs = Some 0\<rparr>]\<rparr>"

lemma demo_attach_valid: "attach_validate demo_attach = Inr ()"
proof -
  have "capability_parse ''web:http:k'' = Inr \<lparr>cap_service = ''web'', cap_service_type = Http, cap_secret = ''k''\<rparr>"
    "capability_parse ''db:tcp:k'' = Inr \<lparr>cap_service = ''db'', cap_service_type = Tcp, cap_secret = ''k''\<rparr>"
    "validate_unix_socket_path ''/run/./db.sock'' = Inr ()" "normalize_unix_path ''/run/./db.sock'' = Some ''/run/db.sock''"
    "trim ''h'' = ''h''"
    by code_simp+
  then show ?thesis
    by (simp add: attach_validate_def demo_attach_def attachments_def attachment_step_def attachment_settings_def
        insert_port_def insert_unix_path_def tcp_listen_def resolve_http_timeout_def resolve_tcp_idle_timeout_def
        MAX_CONFIGURED_SERVICES_def HTTP_REQUEST_TIMEOUT_def MAX_HTTP_REQUEST_TIMEOUT_SECS_def from_secs_def Let_def)
qed

theorem validated_attachments_witness:
  "\<exists>as. attachments demo_attach = Inr as \<and> length as = 2 \<and> distinct (map at_listen as)"
  using validated_attachments [OF demo_attach_valid] by (auto simp: demo_attach_def)

end
