(* ===== verification/Attach_Http.thy ===== *)
theory Attach_Http
  imports Session_Client Http_Utils Config
begin

text \<open>
  The HTTP side of an attachment, \<open>src/attach.rs\<close>: a local request is sent through the tunnel on
  a leased connection and the tunnelled response becomes the local response. The local HTTP
  server (\<open>hyper\<close>) is outside the model: a local request is its parts, its body a list of frames
  and how it ends. The response body is a lazy stream; \<open>response_stream\<close> is everything it yields
  when it is read to its end.
\<close>

subsection \<open>Errors\<close>

datatype tunnel_error =
    TunnelUnavailable | OpenTimedOut | TransportFailure string | BodyOverLimit | BodyTrailers
  | BodyFrameError string | BodyOverDeclared | BodyLengthChanged | HttpResponseTimeout
  | UnsupportedResponseVersion u8 | InvalidResponseStatus

fun tunnel_error_text :: "tunnel_error \<Rightarrow> string" where
  "tunnel_error_text TunnelUnavailable = ''tunnel unavailable while reconnecting''"
| "tunnel_error_text OpenTimedOut = ''HTTP tunnel stream open timed out''"
| "tunnel_error_text (TransportFailure text) = ''transport failure: '' @ text"
| "tunnel_error_text BodyOverLimit = ''request body exceeds limit''"
| "tunnel_error_text BodyTrailers = ''request body contains trailers''"
| "tunnel_error_text (BodyFrameError text) = text"
| "tunnel_error_text BodyOverDeclared = ''request body exceeds declared length''"
| "tunnel_error_text BodyLengthChanged = ''request body length changed during upload''"
| "tunnel_error_text HttpResponseTimeout = ''HTTP response timed out''"
| "tunnel_error_text (UnsupportedResponseVersion v) = ''unsupported tunnel response version '' @ decimal (unat v)"
| "tunnel_error_text InvalidResponseStatus = ''invalid response status''"

subsection \<open>The upload\<close>

datatype body_frame = DataFrame bytes | TrailersFrame | BrokenFrame string

record local_body =
  lb_frames :: "body_frame list"
  lb_stalls :: bool

text \<open>\<open>slice::chunks(n)\<close>.\<close>

function chunks_of :: "nat \<Rightarrow> bytes \<Rightarrow> bytes list" where
  "chunks_of n bs = (if bs = [] \<or> n = 0 then [] else take n bs # chunks_of n (drop n bs))"
  by pat_completeness auto

termination
  by (relation "measure (\<lambda>(_, bs). length bs)") auto

declare chunks_of.simps [simp del]

text \<open>Writing the pieces of one frame.\<close>

fun write_pieces ::
  "(bytes \<Rightarrow> writer \<Rightarrow> (unit, wire_error) outcome \<times> writer) \<Rightarrow> (wire_error \<Rightarrow> string) \<Rightarrow> bytes list \<Rightarrow>
   writer \<Rightarrow> (unit, tunnel_error) outcome \<times> writer" where
  "write_pieces put text [] w = (Done (), w)"
| "write_pieces put text (c # cs) w =
     (case put c w of
        (Fail e, w) \<Rightarrow> (Fail (TransportFailure (text e)), w)
      | (Hang, w) \<Rightarrow> (Hang, w)
      | (Done _, w) \<Rightarrow> write_pieces put text cs w)"

fun upload_known ::
  "(wire_error \<Rightarrow> string) \<Rightarrow> nat \<Rightarrow> nat \<Rightarrow> body_frame list \<Rightarrow> bool \<Rightarrow> writer \<Rightarrow> (unit, tunnel_error) outcome \<times> writer" where
  "upload_known text body_len written [] stalls w =
     (if stalls then (Hang, w)
      else if written \<noteq> body_len then (Fail BodyLengthChanged, w)
      else (Done (), w))"
| "upload_known text body_len written (TrailersFrame # fs) stalls w = (Fail BodyTrailers, w)"
| "upload_known text body_len written (BrokenFrame e # fs) stalls w = (Fail (BodyFrameError e), w)"
| "upload_known text body_len written (DataFrame frame # fs) stalls w =
     (if written + length frame > body_len then (Fail BodyOverDeclared, w)
      else then_write (write_pieces write_body text (chunks_of BODY_CHUNK_LEN frame) w)
             (\<lambda>w. upload_known text body_len (written + length frame) fs stalls w))"

fun upload_unknown ::
  "(wire_error \<Rightarrow> string) \<Rightarrow> nat \<Rightarrow> body_frame list \<Rightarrow> bool \<Rightarrow> writer \<Rightarrow> (unit, tunnel_error) outcome \<times> writer" where
  "upload_unknown text written [] stalls w =
     (if stalls then (Hang, w)
      else case write_body_end w of
        (Fail e, w) \<Rightarrow> (Fail (TransportFailure (text e)), w)
      | (Hang, w) \<Rightarrow> (Hang, w)
      | (Done _, w) \<Rightarrow> (Done (), w))"
| "upload_unknown text written (TrailersFrame # fs) stalls w = (Fail BodyTrailers, w)"
| "upload_unknown text written (BrokenFrame e # fs) stalls w = (Fail (BodyFrameError e), w)"
| "upload_unknown text written (DataFrame frame # fs) stalls w =
     (if written + length frame > MAX_BODY_LEN then (Fail BodyOverLimit, w)
      else then_write (write_pieces write_body_chunk text (chunks_of BODY_CHUNK_LEN frame) w)
             (\<lambda>w. upload_unknown text (written + length frame) fs stalls w))"

subsection \<open>The response\<close>

datatype stream_error = StreamTimeout | StreamReadFailed wire_error

text \<open>The body of known length: blocks of at most 16 KiB.\<close>

function response_sized :: "nat \<Rightarrow> reader \<Rightarrow> bytes list \<times> (stream_error + reader)" where
  "response_sized remaining r =
     (if remaining = 0 then ([], Inr r)
      else
        let count = min remaining BODY_CHUNK_LEN
        in case read_exact ReadBody count r of
             Fail e \<Rightarrow> ([], Inl (StreamReadFailed e))
           | Hang \<Rightarrow> ([], Inl StreamTimeout)
           | Done (block, r) \<Rightarrow>
               (case response_sized (remaining - count) r of (bs, res) \<Rightarrow> (block # bs, res)))"
  by pat_completeness auto

termination
  by (relation "measure (\<lambda>(remaining, _). remaining)") (auto simp: BODY_CHUNK_LEN_def)

function response_chunked :: "reader \<Rightarrow> bytes list \<times> (stream_error + reader)" where
  "response_chunked r =
     (case read_body_chunk r of
        Fail e \<Rightarrow> ([], Inl (StreamReadFailed e))
      | Hang \<Rightarrow> ([], Inl StreamTimeout)
      | Done (None, r) \<Rightarrow> ([], Inr r)
      | Done (Some chunk, r) \<Rightarrow> (case response_chunked r of (cs, res) \<Rightarrow> (chunk # cs, res)))"
  by pat_completeness auto

termination
  by (relation "measure (\<lambda>r. length (r_bytes r))") (auto dest: chunks.progress_length)

declare response_sized.simps [simp del] response_chunked.simps [simp del]

definition response_stream :: "u64 option \<Rightarrow> reader \<Rightarrow> bytes list \<times> (stream_error + reader)" where
  "response_stream body_len r =
     (case body_len of Some len \<Rightarrow> response_sized (unat len) r | None \<Rightarrow> response_chunked r)"

record http_response =
  hr_status :: u16
  hr_headers :: header_map
  hr_body_len :: "u64 option"
  hr_reader :: reader

record http_tunnel_request =
  tr_service :: string
  tr_secret :: string
  tr_method :: string
  tr_path :: string
  tr_headers :: "(string \<times> string) list"
  tr_exact_len :: "u64 option"
  tr_body :: local_body

record attach_env =
  ae_crypto :: crypto_api
  ae_http :: http_api
  ae_reqc :: "stream_request_head codec"
  ae_respc :: "locho_response_head codec"
  ae_wire_text :: "wire_error \<Rightarrow> string"

definition request_head_of :: "attach_env \<Rightarrow> http_tunnel_request \<Rightarrow> locho_request_head" where
  "request_head_of env req = \<lparr>req_version = PROTOCOL_VERSION, req_service = tr_service req,
     req_secret_proof = secret_proof (ae_crypto env) (tr_secret req), req_method = tr_method req,
     req_path_and_query = tr_path req, req_headers = tr_headers req, req_body_len = tr_exact_len req\<rparr>"

definition send_request ::
  "attach_env \<Rightarrow> http_tunnel_request \<Rightarrow> writer \<Rightarrow> (unit, tunnel_error) outcome \<times> writer" where
  "send_request env req w =
     (if (case tr_exact_len req of None \<Rightarrow> False | Some len \<Rightarrow> unat len > MAX_BODY_LEN)
      then (Fail BodyOverLimit, w)
      else
        (case write_json_head (ae_reqc env) (HttpHead (request_head_of env req)) w of
           (Fail e, w) \<Rightarrow> (Fail (TransportFailure (ae_wire_text env e)), w)
         | (Hang, w) \<Rightarrow> (Hang, w)
         | (Done _, w) \<Rightarrow>
             (case tr_exact_len req of
                Some len \<Rightarrow> upload_known (ae_wire_text env) (unat len) 0 (lb_frames (tr_body req)) (lb_stalls (tr_body req)) w
              | None \<Rightarrow> upload_unknown (ae_wire_text env) 0 (lb_frames (tr_body req)) (lb_stalls (tr_body req)) w)))"

definition receive_response :: "attach_env \<Rightarrow> reader \<Rightarrow> tunnel_error + http_response" where
  "receive_response env r =
     (case read_json_head (ae_respc env) MAX_HEAD_LEN r of
        Hang \<Rightarrow> Inl HttpResponseTimeout
      | Fail e \<Rightarrow> Inl (TransportFailure (ae_wire_text env e))
      | Done (response, r) \<Rightarrow>
          if resp_version response \<noteq> PROTOCOL_VERSION
          then Inl (UnsupportedResponseVersion (resp_version response))
          else if \<not> (100 \<le> resp_status response \<and> resp_status response \<le> 999) then Inl InvalidResponseStatus
          else Inr \<lparr>hr_status = resp_status response,
                 hr_headers = filter (\<lambda>(n, _). \<not> is_hop_by_hop_header n) (pairs_to_headers (ae_http env) (resp_headers response)),
                 hr_body_len = resp_body_len response, hr_reader = r\<rparr>)"

text \<open>
  \<open>tunnel_request_on_lease\<close>: opening a stream, sending the request, reading the head of the
  response. Only the opening and the response are under a timeout; an upload may wait for ever.
\<close>

definition tunnel_request_on_lease ::
  "attach_env \<Rightarrow> (writer \<times> reader, string) outcome \<Rightarrow> http_tunnel_request \<Rightarrow>
   (http_response, tunnel_error) outcome \<times> writer option" where
  "tunnel_request_on_lease env opened req =
     (case opened of
        Hang \<Rightarrow> (Fail OpenTimedOut, None)
      | Fail text \<Rightarrow> (Fail (TransportFailure text), None)
      | Done (w, r) \<Rightarrow>
          (case send_request env req w of
             (Fail e, w) \<Rightarrow> (Fail e, Some w)
           | (Hang, w) \<Rightarrow> (Hang, Some w)
           | (Done _, w) \<Rightarrow>
               (case receive_response env r of Inl e \<Rightarrow> (Fail e, Some w) | Inr response \<Rightarrow> (Done response, Some w))))"

definition acquire_connection :: "session list \<Rightarrow> tunnel_error + lease" where
  "acquire_connection polls = map_err (\<lambda>_. TunnelUnavailable) (acquire polls)"

definition tunnel_request ::
  "attach_env \<Rightarrow> session list \<Rightarrow> (conn \<Rightarrow> (writer \<times> reader, string) outcome) \<Rightarrow> (conn \<Rightarrow> bool) \<Rightarrow>
   http_tunnel_request \<Rightarrow> session \<Rightarrow> (http_response, tunnel_error) outcome \<times> session" where
  "tunnel_request env polls open_bi close_reason req s =
     (case acquire_connection polls of
        Inl e \<Rightarrow> (Fail e, s)
      | Inr l \<Rightarrow>
          (case fst (tunnel_request_on_lease env (open_bi (lease_connection l)) req) of
             Fail e \<Rightarrow> (Fail e, if close_reason (lease_connection l) then lease_invalidate l s else s)
           | res \<Rightarrow> (res, s)))"

text \<open>The local answer: 405, the tunnelled response, or a status for the error.\<close>

definition error_status :: "tunnel_error \<Rightarrow> u16" where
  "error_status e =
     (let text = tunnel_error_text e in
      if e = TunnelUnavailable then 503
      else if e = HttpResponseTimeout then 504
      else if contains_str ''403'' text then 403
      else if contains_str ''501'' text then 501
      else if contains_str ''body exceeds limit'' text then 413
      else 502)"

datatype local_answer = LocalError u16 | LocalResponse http_response

definition handle_request ::
  "attach_env \<Rightarrow> session list \<Rightarrow> (conn \<Rightarrow> (writer \<times> reader, string) outcome) \<Rightarrow> (conn \<Rightarrow> bool) \<Rightarrow>
   http_tunnel_request \<Rightarrow> session \<Rightarrow> local_answer option \<times> session" where
  "handle_request env polls open_bi close_reason req s =
     (if \<not> is_supported_method (tr_method req) then (Some (LocalError 405), s)
      else
        (case tunnel_request env polls open_bi close_reason req s of
           (Done response, s) \<Rightarrow> (Some (LocalResponse response), s)
         | (Fail e, s) \<Rightarrow> (Some (LocalError (error_status e)), s)
         | (Hang, s) \<Rightarrow> (None, s)))"

subsection \<open>The lease guard of a response body\<close>

definition guard_invalidate :: "(conn \<Rightarrow> bool) \<Rightarrow> lease option \<Rightarrow> session \<Rightarrow> session" where
  "guard_invalidate close_reason guard s =
     (case guard of
        None \<Rightarrow> s
      | Some l \<Rightarrow> if close_reason (lease_connection l) then lease_invalidate l s else s)"

text \<open>
  Reading the body to its end, to an error, or dropping it after \<open>n\<close> frames; the guard is
  dropped with it.
\<close>

datatype body_use = ReadToEnd | DroppedEarly

definition finish_body :: "(conn \<Rightarrow> bool) \<Rightarrow> lease \<Rightarrow> body_use \<Rightarrow> u64 option \<Rightarrow> reader \<Rightarrow> session \<Rightarrow> session" where
  "finish_body close_reason l use body_len r s =
     (case use of
        DroppedEarly \<Rightarrow> guard_invalidate close_reason (Some l) s
      | ReadToEnd \<Rightarrow>
          (case snd (response_stream body_len r) of
             Inr _ \<Rightarrow> guard_invalidate close_reason None s
           | Inl _ \<Rightarrow> guard_invalidate close_reason (Some l) (guard_invalidate close_reason (Some l) s)))"


subsection \<open>Lemmas\<close>

lemma chunks_of_Nil [simp]: "chunks_of n [] = []"
  by (subst chunks_of.simps) simp

lemma concat_chunks_of: "0 < n \<Longrightarrow> concat (chunks_of n bs) = bs"
proof (induction n bs rule: chunks_of.induct)
  case (1 n bs)
  show ?case
  proof (cases "bs = []")
    case False
    with 1 have "concat (chunks_of n (drop n bs)) = drop n bs" by simp
    with False 1(2) show ?thesis by (subst chunks_of.simps) simp
  qed simp
qed

lemma chunks_of_ok: "c \<in> set (chunks_of BODY_CHUNK_LEN bs) \<Longrightarrow> chunk_ok c"
proof (induction "BODY_CHUNK_LEN" bs rule: chunks_of.induct)
  case (1 bs)
  then have "bs \<noteq> []" by auto
  moreover have "0 < BODY_CHUNK_LEN" by (simp add: BODY_CHUNK_LEN_def)
  ultimately have "set (chunks_of BODY_CHUNK_LEN bs) =
      insert (take BODY_CHUNK_LEN bs) (set (chunks_of BODY_CHUNK_LEN (drop BODY_CHUNK_LEN bs)))"
    by (subst chunks_of.simps) simp
  with 1 \<open>bs \<noteq> []\<close> \<open>0 < BODY_CHUNK_LEN\<close> show ?case by (auto simp: chunk_ok_def)
qed

lemma write_pieces_plain:
  "w_limit w = None \<Longrightarrow> write_pieces write_body text cs w = (Done (), w\<lparr>w_sent := w_sent w @ concat cs\<rparr>)"
  by (induction cs arbitrary: w) (simp_all add: write_body_def)

lemma write_pieces_framed:
  "w_limit w = None \<Longrightarrow> list_all chunk_ok cs \<Longrightarrow>
   write_pieces write_body_chunk text cs w = (Done (), w\<lparr>w_sent := w_sent w @ concat (map chunk_frame cs)\<rparr>)"
proof (induction cs arbitrary: w)
  case Nil
  then show ?case by simp
next
  case (Cons c cs)
  from Cons.prems have "length c < 2 ^ 32" using chunk_len_small [of c] by simp
  with Cons show ?case by (simp add: write_body_chunk_open)
qed

text \<open>The pieces of a whole body.\<close>

definition pieces :: "bytes list \<Rightarrow> bytes list" where
  "pieces ds = concat (map (chunks_of BODY_CHUNK_LEN) ds)"

lemma pieces_simps [simp]: "pieces [] = []" "pieces (d # ds) = chunks_of BODY_CHUNK_LEN d @ pieces ds"
  by (simp_all add: pieces_def)

lemma pieces_ok: "list_all chunk_ok (pieces ds)"
  by (induction ds) (auto simp: list_all_iff chunks_of_ok)

lemma concat_pieces: "concat (pieces ds) = concat ds"
  by (induction ds) (simp_all add: concat_chunks_of BODY_CHUNK_LEN_def)

lemma upload_known_open:
  "w_limit w = None \<Longrightarrow>
   upload_known text n k fs False w = (Done (), w') \<longleftrightarrow>
   (\<exists>ds. fs = map DataFrame ds \<and> (n = k + length (concat ds)) \<and> w' = w\<lparr>w_sent := w_sent w @ concat ds\<rparr>)"
proof (induction fs arbitrary: k w)
  case Nil
  then show ?case by auto
next
  case (Cons f fs)
  show ?case
  proof (cases f)
    case (DataFrame d)
    let ?w = "w\<lparr>w_sent := w_sent w @ d\<rparr>"
    have step: "upload_known text n k (f # fs) False w =
        (if n < k + length d then (Fail BodyOverDeclared, w) else upload_known text n (k + length d) fs False ?w)"
      using DataFrame write_pieces_plain [OF Cons.prems] by (simp add: concat_chunks_of BODY_CHUNK_LEN_def)
    have "upload_known text n k (f # fs) False w = (Done (), w') \<longleftrightarrow>
        (\<exists>ds. fs = map DataFrame ds \<and> n = k + length d + length (concat ds) \<and> w' = ?w\<lparr>w_sent := w_sent ?w @ concat ds\<rparr>)"
      unfolding step using Cons.IH [of ?w "k + length d"] Cons.prems by auto
    also have "\<dots> \<longleftrightarrow> (\<exists>ds. f # fs = map DataFrame ds \<and> n = k + length (concat ds) \<and> w' = w\<lparr>w_sent := w_sent w @ concat ds\<rparr>)"
      using DataFrame by (auto simp: Cons_eq_map_conv)
    finally show ?thesis .
  qed auto
qed

lemma upload_unknown_open:
  "w_limit w = None \<Longrightarrow>
   upload_unknown text k fs False w = (Done (), w') \<longleftrightarrow>
   (\<exists>ds. fs = map DataFrame ds \<and> (ds = [] \<or> k + length (concat ds) \<le> MAX_BODY_LEN) \<and>
      w' = w\<lparr>w_sent := w_sent w @ concat (map chunk_frame (pieces ds)) @ chunk_end\<rparr>)"
proof (induction fs arbitrary: k w)
  case Nil
  then show ?case by (auto simp: write_body_end_open)
next
  case (Cons f fs)
  show ?case
  proof (cases f)
    case (DataFrame d)
    let ?w = "w\<lparr>w_sent := w_sent w @ concat (map chunk_frame (chunks_of BODY_CHUNK_LEN d))\<rparr>"
    have "list_all chunk_ok (chunks_of BODY_CHUNK_LEN d)" by (auto simp: list_all_iff chunks_of_ok)
    with write_pieces_framed [OF Cons.prems]
    have step: "upload_unknown text k (f # fs) False w =
        (if MAX_BODY_LEN < k + length d then (Fail BodyOverLimit, w) else upload_unknown text (k + length d) fs False ?w)"
      using DataFrame by simp
    have "upload_unknown text k (f # fs) False w = (Done (), w') \<longleftrightarrow>
        (\<exists>ds. fs = map DataFrame ds \<and> k + length d + length (concat ds) \<le> MAX_BODY_LEN \<and>
           w' = ?w\<lparr>w_sent := w_sent ?w @ concat (map chunk_frame (pieces ds)) @ chunk_end\<rparr>)"
      unfolding step using Cons.IH [of ?w "k + length d"] Cons.prems by (cases "MAX_BODY_LEN < k + length d") auto
    also have "\<dots> \<longleftrightarrow> (\<exists>ds. f # fs = map DataFrame ds \<and> (ds = [] \<or> k + length (concat ds) \<le> MAX_BODY_LEN) \<and>
           w' = w\<lparr>w_sent := w_sent w @ concat (map chunk_frame (pieces ds)) @ chunk_end\<rparr>)"
      using DataFrame by (auto simp: Cons_eq_map_conv add.assoc)
    finally show ?thesis .
  qed auto
qed


lemma response_chunked_cases:
  assumes "response_chunked r = (cs, Inr r')"
  obtains "cs = []" "read_body_chunk r = Done (None, r')"
  | c cs' r1 where "cs = c # cs'" "read_body_chunk r = Done (Some c, r1)" "response_chunked r1 = (cs', Inr r')"
proof (cases "read_body_chunk r")
  case (Done p)
  show thesis
  proof (cases "fst p")
    case None
    with assms Done that(1) show thesis by (cases p) (simp add: response_chunked.simps [of r])
  next
    case (Some c)
    obtain sent res where "response_chunked (snd p) = (sent, res)" by fastforce
    with assms Done Some that(2) show thesis by (cases p) (auto simp: response_chunked.simps [of r])
  qed
qed (use assms in \<open>simp_all add: response_chunked.simps [of r]\<close>)

lemma response_chunked_iff:
  "response_chunked r = (cs, Inr r') \<longleftrightarrow>
   list_all chunk_ok cs \<and> r_end r' = r_end r \<and> r_bytes r = concat (map chunk_frame cs) @ chunk_end @ r_bytes r'"
proof
  show "response_chunked r = (cs, Inr r') \<Longrightarrow>
      list_all chunk_ok cs \<and> r_end r' = r_end r \<and> r_bytes r = concat (map chunk_frame cs) @ chunk_end @ r_bytes r'"
  proof (induction cs arbitrary: r)
    case Nil
    then show ?case by (cases rule: response_chunked_cases) (use chunks.get_end in auto)
  next
    case (Cons c cs)
    from Cons.prems show ?case
    proof (cases rule: response_chunked_cases)
      case (2 c' cs' r1)
      with Cons.IH [of r1] chunks.get_progress [OF 2(2)] show ?thesis by auto
    qed simp
  qed
next
  have go: "response_chunked (s\<lparr>r_bytes := concat (map chunk_frame cs) @ chunk_end @ bs\<rparr>) = (cs, Inr (s\<lparr>r_bytes := bs\<rparr>))"
    if "list_all chunk_ok cs" for s bs
    using that
  proof (induction cs)
    case Nil
    then show ?case by (subst response_chunked.simps) (simp add: read_chunk_end)
  next
    case (Cons c cs)
    then have "chunk_ok c" by simp
    from read_chunk_frame [OF this, where r = s and bs = "concat (map chunk_frame cs) @ chunk_end @ bs"] Cons
    show ?case by (subst response_chunked.simps) simp
  qed
  assume "list_all chunk_ok cs \<and> r_end r' = r_end r \<and> r_bytes r = concat (map chunk_frame cs) @ chunk_end @ r_bytes r'"
  with go [where s = r and bs = "r_bytes r'"] show "response_chunked r = (cs, Inr r')" by (cases r; cases r') simp
qed

lemma response_sized_step:
  "0 < n \<Longrightarrow> response_sized n r =
     (case read_exact ReadBody (min n BODY_CHUNK_LEN) r of
        Fail e \<Rightarrow> ([], Inl (StreamReadFailed e)) | Hang \<Rightarrow> ([], Inl StreamTimeout)
      | Done (block, r) \<Rightarrow>
          (case response_sized (n - min n BODY_CHUNK_LEN) r of (bs, res) \<Rightarrow> (block # bs, res)))"
  by (subst response_sized.simps) (simp add: Let_def)

lemma response_sized_zero [simp]: "response_sized 0 r = ([], Inr r)"
  by (subst response_sized.simps) simp

lemma response_sized_exact:
  "concat (fst (response_sized n r)) @ r_bytes r1 = r_bytes r \<and> length (concat (fst (response_sized n r))) = n"
  if "snd (response_sized n r) = Inr r1"
  using that
proof (induction n arbitrary: r rule: less_induct)
  case (less n)
  show ?case
  proof (cases "n = 0")
    case True
    with less.prems show ?thesis by simp
  next
    case False
    let ?k = "min n BODY_CHUNK_LEN"
    have k: "0 < ?k" "?k \<le> n" using False by (auto simp: BODY_CHUNK_LEN_def)
    show ?thesis
    proof (cases "?k \<le> length (r_bytes r)")
      case True
      let ?r = "r\<lparr>r_bytes := drop ?k (r_bytes r)\<rparr>"
      have eq: "response_sized n r = (take ?k (r_bytes r) # fst (response_sized (n - ?k) ?r), snd (response_sized (n - ?k) ?r))"
        using True False by (simp add: response_sized_step [of n r] read_exact_def split: prod.split)
      with less.prems less.IH [of "n - ?k" ?r] k True show ?thesis by (auto simp: append_eq_conv_conj)
    next
      case False
      with \<open>n \<noteq> 0\<close> less.prems show ?thesis
        by (auto simp: response_sized_step [of n r] read_exact_def split: if_splits)
    qed
  qed
qed

lemma response_sized_complete:
  "n \<le> length (r_bytes r) \<Longrightarrow> snd (response_sized n r) = Inr (r\<lparr>r_bytes := drop n (r_bytes r)\<rparr>)"
proof (induction n arbitrary: r rule: less_induct)
  case (less n)
  show ?case
  proof (cases "n = 0")
    case False
    let ?k = "min n BODY_CHUNK_LEN"
    have k: "0 < ?k" "?k \<le> n" using False by (auto simp: BODY_CHUNK_LEN_def)
    let ?r = "r\<lparr>r_bytes := drop ?k (r_bytes r)\<rparr>"
    have "snd (response_sized n r) = snd (response_sized (n - ?k) ?r)"
      using less.prems False by (simp add: response_sized_step [of n r] read_exact_def split: prod.split)
    with less.IH [of "n - ?k" ?r] less.prems k show ?thesis by simp
  qed simp
qed


subsection \<open>Properties\<close>

text \<open>
  What a local request body becomes on the tunnel, on a stream that accepts it. A body of
  declared length is sent exactly when its frames are data adding up to that length, and then as
  its bytes; a body of unknown length exactly when its frames are data within 32 MiB, and then as
  frames of at most 16 KiB whose contents are its bytes, with the end mark. Trailers, broken
  frames and wrong lengths fail.
\<close>

theorem upload_written_exact:
  assumes "w_limit w = None"
  shows "(upload_known text n 0 fs False w = (Done (), w') \<longleftrightarrow>
      (\<exists>ds. fs = map DataFrame ds \<and> length (concat ds) = n \<and> w' = w\<lparr>w_sent := w_sent w @ concat ds\<rparr>)) \<and>
    (upload_unknown text 0 fs False w = (Done (), w') \<longleftrightarrow>
      (\<exists>ds cs. fs = map DataFrame ds \<and> length (concat ds) \<le> MAX_BODY_LEN \<and> cs = pieces ds \<and>
         list_all chunk_ok cs \<and> concat cs = concat ds \<and>
         w' = w\<lparr>w_sent := w_sent w @ concat (map chunk_frame cs) @ chunk_end\<rparr>))"
proof
  show "upload_known text n 0 fs False w = (Done (), w') \<longleftrightarrow>
      (\<exists>ds. fs = map DataFrame ds \<and> length (concat ds) = n \<and> w' = w\<lparr>w_sent := w_sent w @ concat ds\<rparr>)"
    unfolding upload_known_open [OF assms] by auto
  have "ds = [] \<or> 0 + length (concat ds) \<le> MAX_BODY_LEN \<longleftrightarrow> length (concat ds) \<le> MAX_BODY_LEN" for ds :: "bytes list"
    by auto
  then show "upload_unknown text 0 fs False w = (Done (), w') \<longleftrightarrow>
      (\<exists>ds cs. fs = map DataFrame ds \<and> length (concat ds) \<le> MAX_BODY_LEN \<and> cs = pieces ds \<and>
         list_all chunk_ok cs \<and> concat cs = concat ds \<and>
         w' = w\<lparr>w_sent := w_sent w @ concat (map chunk_frame cs) @ chunk_end\<rparr>)"
    unfolding upload_unknown_open [OF assms] using pieces_ok concat_pieces by blast
qed

theorem upload_written_exact_witness:
  "upload_known (\<lambda>_. []) 3 0 [DataFrame ''ab'', DataFrame ''c''] False \<lparr>w_sent = [], w_limit = None\<rparr> =
     (Done (), \<lparr>w_sent = ''abc'', w_limit = None\<rparr>)"
proof -
  have "[DataFrame ''ab'', DataFrame ''c''] = map DataFrame [''ab'', ''c'']" "length (concat [''ab'', ''c'']) = 3"
    "\<lparr>w_sent = ''abc'', w_limit = None\<rparr> = \<lparr>w_sent = [], w_limit = None\<rparr>\<lparr>w_sent := w_sent \<lparr>w_sent = [], w_limit = None\<rparr> @ concat [''ab'', ''c'']\<rparr>"
    by simp_all
  with upload_written_exact [where w = "\<lparr>w_sent = [], w_limit = None\<rparr>" and n = 3] show ?thesis
    by (metis writer.select_convs(2))
qed

text \<open>
  The tunnelled response body is delivered exactly: the local body stream ends well with the
  chunks \<open>cs\<close> if and only if the tunnel holds exactly their frames and the end mark; and with a
  declared length if and only if the tunnel holds that many bytes, which are the ones delivered.
\<close>

theorem response_stream_exact:
  "(response_stream None r = (cs, Inr r') \<longleftrightarrow>
      list_all chunk_ok cs \<and> r_end r' = r_end r \<and> r_bytes r = concat (map chunk_frame cs) @ chunk_end @ r_bytes r') \<and>
   ((\<exists>r1. snd (response_stream (Some len) r) = Inr r1) \<longleftrightarrow> unat len \<le> length (r_bytes r)) \<and>
   (if unat len \<le> length (r_bytes r)
    then concat (fst (response_stream (Some len) r)) = take (unat len) (r_bytes r) else True)"
proof -
  have sized: "snd (response_sized (unat len) r) = Inr r1 \<Longrightarrow> unat len \<le> length (r_bytes r) \<and>
      concat (fst (response_sized (unat len) r)) = take (unat len) (r_bytes r)" for r1
    using response_sized_exact [of "unat len" r r1]
    by (metis append_eq_conv_conj le_add1 length_append)
  then show ?thesis
    using response_chunked_iff [of r cs r'] response_sized_complete [of "unat len" r]
    by (auto simp: response_stream_def)
qed


text \<open>
  A body guard acts on its own lease only, and at most once per failure: a body that was read
  to its end leaves the session alone even when the connection has closed meanwhile; a failed or
  abandoned body invalidates its lease exactly when the connection is known to be closed, which
  withdraws the published connection only if it still is the leased one.
\<close>

theorem finish_body_scoped:
  "finish_body close_reason l use body_len r s =
     (if close_reason (lease_connection l) \<and>
         (use = DroppedEarly \<or> (\<exists>e. snd (response_stream body_len r) = Inl e)) \<and>
         (\<exists>c. connections s = Some (lease_generation l, c))
      then s\<lparr>connections := None\<rparr> else s)"
  by (cases use; cases "snd (response_stream body_len r)"; cases "connections s")
    (auto simp: finish_body_def guard_invalidate_def lease_invalidate_def invalidate_def split: if_splits)

text \<open>The decimal text of a version, a byte, is never one of the two statuses.\<close>

lemma contains_after:
  assumes "c \<notin> set t" "contains_str (c # p) (t @ d)"
  shows "contains_str (c # p) d"
proof -
  from assms(2) obtain a b where "t @ d = a @ (c # p) @ b" by (auto simp: contains_str_iff)
  with assms(1) obtain a' where "a = t @ a'" "d = a' @ (c # p) @ b" by (auto simp: append_eq_append_conv2 append_eq_Cons_conv)
  then show ?thesis by (auto simp: contains_str_iff)
qed

lemma byte_decimal:
  assumes "n < 256"
  shows "length (decimal n) < 3 \<or> (\<exists>e f. decimal n = [CHR ''1'', e, f] \<or> decimal n = [CHR ''2'', e, f])"
proof (cases "n < 100")
  case True
  then have "n div 10 < 10" by linarith
  then have "decimal n = (if n < 10 then [digit_char n] else [digit_char (n div 10), digit_char (n mod 10)])"
    by (simp add: decimal.simps [of n] decimal.simps [of "n div 10"])
  then show ?thesis by simp
next
  case False
  with assms have "\<not> n < 10" "\<not> n div 10 < 10" "n div 10 div 10 < 10" by linarith+
  then have "decimal n = [digit_char (n div 10 div 10), digit_char (n div 10 mod 10), digit_char (n mod 10)]"
    by (simp add: decimal.simps [of n] decimal.simps [of "n div 10"] decimal.simps [of "n div 10 div 10"])
  moreover have "n div 10 div 10 = 1 \<or> n div 10 div 10 = 2" using False assms by linarith
  moreover have "digit_char 1 = CHR ''1''" "digit_char 2 = CHR ''2''" by code_simp+
  ultimately show ?thesis by auto
qed

lemma version_text:
  fixes v :: u8
  shows "\<not> contains_str ''403'' (''unsupported tunnel response version '' @ decimal (unat v))"
    "\<not> contains_str ''501'' (''unsupported tunnel response version '' @ decimal (unat v))"
proof -
  have "unat v < 256" using unsigned_less [of v, where 'a = nat] by simp
  note cases = byte_decimal [OF this]
  have no: "\<not> contains_str (c # p) (decimal (unat v))" if "c \<noteq> CHR ''1''" "c \<noteq> CHR ''2''" "length p = 2" for c p
    using cases that by (auto simp: contains_str_iff Cons_eq_append_conv)
  from contains_after [of "CHR ''4''" "''unsupported tunnel response version ''" "''03''"] no [of "CHR ''4''" "''03''"]
  show "\<not> contains_str ''403'' (''unsupported tunnel response version '' @ decimal (unat v))" by auto
  from contains_after [of "CHR ''5''" "''unsupported tunnel response version ''" "''01''"] no [of "CHR ''5''" "''01''"]
  show "\<not> contains_str ''501'' (''unsupported tunnel response version '' @ decimal (unat v))" by auto
qed

text \<open>
  C40. Statuses made from error texts: no error of the attachment itself maps to 403 or 501 (the
  host's own 403 and 501 arrive as responses, not as errors), so these two statuses are only ever
  reported for a transport failure or a broken local body whose text happens to contain the
  digits.
\<close>

theorem forbidden_only_by_text:
  assumes "error_status e \<in> {403, 501}"
  shows "\<exists>text. (e = TransportFailure text \<or> e = BodyFrameError text) \<and>
    (contains_str ''403'' (tunnel_error_text e) \<or> contains_str ''501'' (tunnel_error_text e))"
proof -
  have texts: "\<not> contains_str ''403'' ''HTTP tunnel stream open timed out''" "\<not> contains_str ''501'' ''HTTP tunnel stream open timed out''"
    "\<not> contains_str ''403'' ''request body exceeds limit''" "\<not> contains_str ''501'' ''request body exceeds limit''"
    "\<not> contains_str ''403'' ''request body contains trailers''" "\<not> contains_str ''501'' ''request body contains trailers''"
    "\<not> contains_str ''403'' ''request body exceeds declared length''" "\<not> contains_str ''501'' ''request body exceeds declared length''"
    "\<not> contains_str ''403'' ''request body length changed during upload''" "\<not> contains_str ''501'' ''request body length changed during upload''"
    "\<not> contains_str ''403'' ''invalid response status''" "\<not> contains_str ''501'' ''invalid response status''"
    by code_simp+
  let ?t = "tunnel_error_text e"
  have "error_status e \<in> {403, 501} \<Longrightarrow> contains_str ''403'' ?t \<or> contains_str ''501'' ?t"
    unfolding error_status_def Let_def by (simp split: if_splits)
  with assms have c: "contains_str ''403'' ?t \<or> contains_str ''501'' ?t" by blast
  from assms have "e \<noteq> TunnelUnavailable" "e \<noteq> HttpResponseTimeout"
    by (auto simp: error_status_def Let_def)
  then have "\<not> contains_str ''403'' ?t \<and> \<not> contains_str ''501'' ?t"
    if "\<forall>text. e \<noteq> TransportFailure text \<and> e \<noteq> BodyFrameError text"
    using that texts version_text by (cases e) (simp_all del: contains_str.simps append.simps)
  with c show ?thesis by blast
qed


definition demo_attach_env :: attach_env where
  "demo_attach_env = \<lparr>ae_crypto = sample_crypto, ae_http = plain_http,
     ae_reqc = sample_head_codec (TcpHead \<lparr>tcp_version = 3, tcp_service = [], tcp_secret_proof = []\<rparr>),
     ae_respc = sample_head_codec tcp_accept_head, ae_wire_text = (\<lambda>_. [])\<rparr>"

theorem forbidden_only_by_text_witness:
  "error_status (TransportFailure ''lost 10.0.0.7:4030'') = 403 \<and>
   (\<exists>text. TransportFailure ''lost 10.0.0.7:4030'' = TransportFailure text)"
proof -
  have "contains_str ''403'' (''transport failure: '' @ ''lost 10.0.0.7:4030'')" by code_simp
  then have is403: "error_status (TransportFailure ''lost 10.0.0.7:4030'') = 403"
    unfolding error_status_def Let_def tunnel_error_text.simps by simp
  then have "error_status (TransportFailure ''lost 10.0.0.7:4030'') \<in> {403, 501}" by simp
  from forbidden_only_by_text [OF this] is403 show ?thesis by blast
qed

end
