(* ===== verification/Host_Forward.thy ===== *)
theory Host_Forward
  imports Http_Utils Config Wire_Protocol
begin

text \<open>
  The host's HTTP forwarding, \<open>forward_to_upstream_with_state\<close> of \<open>src/host.rs\<close>: the task that
  moves the request body from the tunnel to the upstream, the request, and the response written
  back to the tunnel.

  The HTTP client (\<open>reqwest\<close>) is the parameter \<open>send\<close>, a function from the request it was
  given to what it answers. The body channel is closed when the body task ends, for whatever
  reason, so the request body the client sees is the chunks that were sent followed by the end of
  the stream; it stays open only if the task is still waiting for the tunnel. \<open>room\<close> is how many
  chunks the client takes before it drops its end of the channel (\<open>None\<close>: all of them).
\<close>

subsection \<open>Requests and replies of the HTTP client\<close>

datatype request_body = NoBody | EndedBody "bytes list" | OpenBody "bytes list"

record 'u upstream_request =
  ur_method :: string
  ur_url :: 'u
  ur_headers :: "(string \<times> bytes) list"
  ur_body :: request_body

datatype body_end = BodyEnds | BodyErrors | BodyStalls

record upstream_response =
  up_status :: u16
  up_headers :: header_map
  up_content_length :: "u64 option"
  up_chunks :: "bytes list"
  up_end :: body_end

datatype upstream_reply = ReplyError bool string | ReplyHang | Reply upstream_response

datatype forward_error =
    ForwardPath | ForwardMethod | ForwardReqwest bool string | ForwardBodyLimit | ForwardBodyRead
  | ForwardBodyWire wire_error | ForwardBodySend | ForwardResponseLimit | ForwardResponseLimitAfter
  | ForwardResponseStream | ForwardWrite wire_error

fun forward_error_text :: "string \<Rightarrow> forward_error \<Rightarrow> string" where
  "forward_error_text io ForwardPath = ''invalid request path''"
| "forward_error_text io ForwardMethod = ''invalid request method''"
| "forward_error_text io (ForwardReqwest _ text) = text"
| "forward_error_text io ForwardBodyLimit = ''request body exceeds limit''"
| "forward_error_text io ForwardBodyRead = io"
| "forward_error_text io (ForwardBodyWire e) = wire_error_text io e"
| "forward_error_text io ForwardBodySend = ''send request body''"
| "forward_error_text io ForwardResponseLimit = ''upstream response exceeds limit''"
| "forward_error_text io ForwardResponseLimitAfter = ''upstream response exceeds limit after headers''"
| "forward_error_text io ForwardResponseStream = io"
| "forward_error_text io (ForwardWrite e) = wire_error_text io e"

subsection \<open>The request body task\<close>

definition take_room :: "nat option \<Rightarrow> nat option option" where
  "take_room room = (case room of None \<Rightarrow> Some None | Some 0 \<Rightarrow> None | Some (Suc n) \<Rightarrow> Some (Some n))"

text \<open>A body of known length: blocks of at most 16 KiB until nothing remains.\<close>

function upload_sized :: "nat option \<Rightarrow> nat \<Rightarrow> reader \<Rightarrow> bytes list \<times> (reader, forward_error) outcome" where
  "upload_sized room remaining r =
     (if remaining = 0 then ([], Done r)
      else
        let count = min remaining BODY_CHUNK_LEN
        in case read_exact ForwardBodyRead count r of
             Fail e \<Rightarrow> ([], Fail e)
           | Hang \<Rightarrow> ([], Hang)
           | Done (block, r) \<Rightarrow>
               (case take_room room of
                  None \<Rightarrow> ([], Fail ForwardBodySend)
                | Some room \<Rightarrow>
                    (case upload_sized room (remaining - count) r of (sent, res) \<Rightarrow> (block # sent, res))))"
  by pat_completeness auto

termination
  by (relation "measure (\<lambda>(_, remaining, _). remaining)") (auto simp: BODY_CHUNK_LEN_def)

text \<open>A body of unknown length: the tunnel's chunks until the end mark, at most 32 MiB in all.\<close>

lemma read_body_chunk_shorter:
  "read_body_chunk r = Done (Some c, r') \<Longrightarrow> length (r_bytes r') < length (r_bytes r)"
  by (rule chunks.progress_length)

function upload_chunked :: "nat option \<Rightarrow> nat \<Rightarrow> reader \<Rightarrow> bytes list \<times> (reader, forward_error) outcome" where
  "upload_chunked room sofar r =
     (case read_body_chunk r of
        Fail e \<Rightarrow> ([], Fail (ForwardBodyWire e))
      | Hang \<Rightarrow> ([], Hang)
      | Done (None, r) \<Rightarrow> ([], Done r)
      | Done (Some chunk, r) \<Rightarrow>
          if sofar + length chunk > MAX_BODY_LEN then ([], Fail ForwardBodyLimit)
          else
            (case take_room room of
               None \<Rightarrow> ([], Fail ForwardBodySend)
             | Some room \<Rightarrow>
                 (case upload_chunked room (sofar + length chunk) r of (sent, res) \<Rightarrow> (chunk # sent, res))))"
  by pat_completeness auto

termination
  by (relation "measure (\<lambda>(_, _, r). length (r_bytes r))") (auto dest: read_body_chunk_shorter)

declare upload_sized.simps [simp del] upload_chunked.simps [simp del]

definition body_task :: "nat option \<Rightarrow> u64 option \<Rightarrow> reader \<Rightarrow> bytes list \<times> (reader, forward_error) outcome" where
  "body_task room body_len r =
     (case body_len of
        Some len \<Rightarrow> if unat len > MAX_BODY_LEN then ([], Fail ForwardBodyLimit)
                    else upload_sized room (unat len) r
      | None \<Rightarrow> upload_chunked room 0 r)"

subsection \<open>The request\<close>

definition forward_headers :: "http_api \<Rightarrow> (nat \<Rightarrow> bytes) \<Rightarrow> u64 option \<Rightarrow> (string \<times> string) list \<Rightarrow> (string \<times> bytes) list" where
  "forward_headers h decimal_of body_len pairs =
     (case body_len of None \<Rightarrow> [] | Some len \<Rightarrow> [(''content-length'', decimal_of (unat len))]) @
     filter (\<lambda>(n, _). \<not> is_hop_by_hop_header n) (pairs_to_headers h pairs)"

definition upstream_body :: "bytes list \<times> (reader, forward_error) outcome \<Rightarrow> request_body" where
  "upstream_body up = (case snd up of Hang \<Rightarrow> OpenBody (fst up) | _ \<Rightarrow> EndedBody (fst up))"

text \<open>The exchange with the upstream: the response, once the body task has been joined too.\<close>

definition exchange ::
  "'u url_api \<Rightarrow> http_api \<Rightarrow> (nat \<Rightarrow> bytes) \<Rightarrow> ('u upstream_request \<Rightarrow> upstream_reply) \<Rightarrow> nat option \<Rightarrow>
   'u \<Rightarrow> locho_request_head \<Rightarrow> reader \<Rightarrow> (upstream_response, forward_error) outcome" where
  "exchange api h decimal_of send room upstream req r =
     (case join_upstream_url api upstream (req_path_and_query req) of
        Inl _ \<Rightarrow> Fail ForwardPath
      | Inr url \<Rightarrow>
          (case method_parse h (req_method req) of
             None \<Rightarrow> Fail ForwardMethod
           | Some m \<Rightarrow>
               let request = (\<lambda>body. \<lparr>ur_method = m, ur_url = url,
                     ur_headers = forward_headers h decimal_of (req_body_len req) (req_headers req), ur_body = body\<rparr>)
               in if req_body_len req = Some 0
                  then (case send (request NoBody) of
                          ReplyError t text \<Rightarrow> Fail (ForwardReqwest t text)
                        | ReplyHang \<Rightarrow> Hang
                        | Reply response \<Rightarrow> Done response)
                  else
                    let task = body_task room (req_body_len req) r
                    in (case send (request (upstream_body task)) of
                         ReplyError t text \<Rightarrow> Fail (ForwardReqwest t text)
                       | ReplyHang \<Rightarrow> Hang
                       | Reply response \<Rightarrow>
                           (case snd task of
                              Fail e \<Rightarrow> Fail e
                            | Hang \<Rightarrow> Hang
                            | Done _ \<Rightarrow> Done response))))"

subsection \<open>The response\<close>

fun map_fail :: "('e \<Rightarrow> 'f) \<Rightarrow> ('a, 'e) outcome \<times> writer \<Rightarrow> ('a, 'f) outcome \<times> writer" where
  "map_fail f (Done x, w) = (Done x, w)"
| "map_fail f (Fail e, w) = (Fail (f e), w)"
| "map_fail f (Hang, w) = (Hang, w)"

fun response_body ::
  "bool \<Rightarrow> nat \<Rightarrow> bytes list \<Rightarrow> body_end \<Rightarrow> writer \<Rightarrow> (unit, forward_error) outcome \<times> writer" where
  "response_body sized sofar [] fin w =
     (case fin of
        BodyErrors \<Rightarrow> (Fail ForwardResponseStream, w)
      | BodyStalls \<Rightarrow> (Hang, w)
      | BodyEnds \<Rightarrow> if sized then (Done (), w) else map_fail ForwardWrite (write_body_end w))"
| "response_body sized sofar (chunk # chunks) fin w =
     (if sofar + length chunk > MAX_BODY_LEN then (Fail ForwardResponseLimitAfter, w)
      else then_write (map_fail ForwardWrite (if sized then write_body chunk w else write_body_chunk chunk w))
             (\<lambda>w. response_body sized (sofar + length chunk) chunks fin w))"

definition response_head_of :: "http_api \<Rightarrow> upstream_response \<Rightarrow> locho_response_head" where
  "response_head_of h response = \<lparr>resp_version = PROTOCOL_VERSION, resp_status = up_status response,
     resp_headers = headers_to_pairs h (up_headers response),
     resp_body_len = up_content_length response\<rparr>"

definition write_response ::
  "locho_response_head codec \<Rightarrow> http_api \<Rightarrow> upstream_response \<Rightarrow> writer \<Rightarrow> (unit, forward_error) outcome \<times> writer" where
  "write_response respc h response w =
     then_write (map_fail ForwardWrite (write_json_head respc (response_head_of h response) w))
       (\<lambda>w. response_body (up_content_length response \<noteq> None) 0 (up_chunks response) (up_end response) w)"

text \<open>
  The whole forwarding; the flag is \<open>response_started\<close>, set just before the head is written.
\<close>

definition forward_to_upstream_with_state ::
  "'u url_api \<Rightarrow> http_api \<Rightarrow> locho_response_head codec \<Rightarrow> (nat \<Rightarrow> bytes) \<Rightarrow> ('u upstream_request \<Rightarrow> upstream_reply) \<Rightarrow>
   nat option \<Rightarrow> 'u \<Rightarrow> locho_request_head \<Rightarrow> reader \<Rightarrow> writer \<Rightarrow> (unit, forward_error) outcome \<times> bool \<times> writer" where
  "forward_to_upstream_with_state api h respc decimal_of send room upstream req r w =
     (case exchange api h decimal_of send room upstream req r of
        Fail e \<Rightarrow> (Fail e, False, w)
      | Hang \<Rightarrow> (Hang, False, w)
      | Done response \<Rightarrow>
          if (case up_content_length response of None \<Rightarrow> False | Some len \<Rightarrow> unat len > MAX_BODY_LEN)
          then (Fail ForwardResponseLimit, False, w)
          else (case write_response respc h response w of (res, w) \<Rightarrow> (res, True, w)))"

definition http_request_timeout :: "nat option \<Rightarrow> duration" where
  "http_request_timeout secs = (case secs of None \<Rightarrow> HTTP_REQUEST_TIMEOUT | Some s \<Rightarrow> from_secs s)"


subsection \<open>Lemmas\<close>

lemma take_room_None [simp]: "take_room None = Some None"
  by (simp add: take_room_def)

definition body_size :: "bytes list \<Rightarrow> nat" where
  "body_size cs = length (concat cs)"

lemma body_size_simps [simp]: "body_size [] = 0" "body_size (c # cs) = length c + body_size cs"
  by (simp_all add: body_size_def)

lemmas upload_chunked_step = upload_chunked.simps

text \<open>The chunks of a framed prefix go through while they fit, and what follows decides the rest.\<close>

lemma upload_chunked_frames:
  "list_all chunk_ok cs \<Longrightarrow> n + body_size cs \<le> MAX_BODY_LEN \<Longrightarrow>
   upload_chunked None n (r\<lparr>r_bytes := concat (map chunk_frame cs) @ bs\<rparr>) =
     (case upload_chunked None (n + body_size cs) (r\<lparr>r_bytes := bs\<rparr>) of (sent, res) \<Rightarrow> (cs @ sent, res))"
proof (induction cs arbitrary: n)
  case Nil
  then show ?case by simp
next
  case (Cons c cs)
  then have c: "chunk_ok c" by simp
  have step: "upload_chunked None n (r\<lparr>r_bytes := concat (map chunk_frame (c # cs)) @ bs\<rparr>) =
      (case upload_chunked None (n + length c) (r\<lparr>r_bytes := concat (map chunk_frame cs) @ bs\<rparr>) of
         (sent, res) \<Rightarrow> (c # sent, res))"
    using Cons.prems read_chunk_frame [OF c, where r = r and bs = "concat (map chunk_frame cs) @ bs"]
    by (subst upload_chunked_step) simp
  show ?case unfolding step using Cons by (simp add: add.assoc split: prod.split)
qed

lemma upload_chunked_Done_cases:
  assumes "upload_chunked room n r = (cs, Done r')"
  obtains "cs = []" "read_body_chunk r = Done (None, r')"
  | c cs' room' r1 where "cs = c # cs'" "read_body_chunk r = Done (Some c, r1)" "n + length c \<le> MAX_BODY_LEN"
      "upload_chunked room' (n + length c) r1 = (cs', Done r')"
proof -
  have eq: "upload_chunked room n r = (cs, Done r')" by (rule assms)
  show thesis
  proof (cases "read_body_chunk r")
    case (Done p)
    show thesis
    proof (cases "fst p")
      case None
      with eq Done that(1) show thesis
        by (cases p) (simp add: upload_chunked_step [of room n r])
    next
      case (Some c)
      with Done have get: "read_body_chunk r = Done (Some c, snd p)" by (cases p) simp
      show thesis
      proof (cases "n + length c \<le> MAX_BODY_LEN \<and> take_room room \<noteq> None")
        case True
        then obtain room' where room': "take_room room = Some room'" by blast
        obtain sent res where rec: "upload_chunked room' (n + length c) (snd p) = (sent, res)" by fastforce
        from eq get True room' rec have "cs = c # sent" "res = Done r'"
          by (simp_all add: upload_chunked_step [of room n r])
        with that(2) get True rec show thesis by blast
      next
        case False
        with eq get show thesis by (auto simp: upload_chunked_step [of room n r] split: if_splits)
      qed
    qed
  qed (use eq in \<open>simp_all add: upload_chunked_step [of room n r]\<close>)
qed

lemma upload_chunked_Done:
  "upload_chunked room n r = (cs, Done r') \<Longrightarrow>
   list_all chunk_ok cs \<and> n + body_size cs \<le> max n MAX_BODY_LEN \<and> r_end r' = r_end r \<and>
   r_bytes r = concat (map chunk_frame cs) @ chunk_end @ r_bytes r'"
proof (induction cs arbitrary: room n r)
  case Nil
  then show ?case
    by (cases rule: upload_chunked_Done_cases) (use chunks.get_end in auto)
next
  case (Cons c cs)
  from Cons.prems show ?case
  proof (cases rule: upload_chunked_Done_cases)
    case (2 c' cs' room' r1)
    with Cons.IH [of room' "n + length c" r1] chunks.get_progress [OF 2(2)] show ?thesis by auto
  qed simp
qed

lemma upload_sized_step:
  "0 < n \<Longrightarrow> upload_sized room n r =
     (case read_exact ForwardBodyRead (min n BODY_CHUNK_LEN) r of
        Fail e \<Rightarrow> ([], Fail e) | Hang \<Rightarrow> ([], Hang)
      | Done (block, r) \<Rightarrow>
          (case take_room room of
             None \<Rightarrow> ([], Fail ForwardBodySend)
           | Some room \<Rightarrow> (case upload_sized room (n - min n BODY_CHUNK_LEN) r of (sent, res) \<Rightarrow> (block # sent, res))))"
  by (subst upload_sized.simps) (simp add: Let_def)

lemma upload_sized_zero [simp]: "upload_sized room 0 r = ([], Done r)"
  by (subst upload_sized.simps) simp

lemma upload_sized_Done:
  "n \<le> length (r_bytes r) \<Longrightarrow>
   \<exists>blocks. upload_sized None n r = (blocks, Done (r\<lparr>r_bytes := drop n (r_bytes r)\<rparr>)) \<and>
     concat blocks = take n (r_bytes r) \<and> list_all chunk_ok blocks"
proof (induction n arbitrary: r rule: less_induct)
  case (less n)
  show ?case
  proof (cases "n = 0")
    case True
    then show ?thesis by simp
  next
    case False
    let ?k = "min n BODY_CHUNK_LEN"
    let ?r = "r\<lparr>r_bytes := drop ?k (r_bytes r)\<rparr>"
    have k: "0 < ?k" "?k \<le> BODY_CHUNK_LEN" "?k \<le> n" using False by (auto simp: BODY_CHUNK_LEN_def)
    have "n - ?k < n" "n - ?k \<le> length (r_bytes ?r)" using k less.prems by auto
    from less.IH [OF this] obtain blocks where b:
      "upload_sized None (n - ?k) ?r = (blocks, Done (?r\<lparr>r_bytes := drop (n - ?k) (r_bytes ?r)\<rparr>))"
      "concat blocks = take (n - ?k) (r_bytes ?r)" "list_all chunk_ok blocks" by blast
    have "upload_sized None n r = (take ?k (r_bytes r) # blocks, Done (r\<lparr>r_bytes := drop n (r_bytes r)\<rparr>))"
      using False k less.prems b(1) by (simp add: upload_sized_step [of n None r] read_exact_def)
    moreover have "concat (take ?k (r_bytes r) # blocks) = take n (r_bytes r)"
      using b(2) k(3) by (simp add: take_add [symmetric])
    moreover have "take ?k (r_bytes r) \<noteq> []" using k less.prems False by auto
    then have "list_all chunk_ok (take ?k (r_bytes r) # blocks)"
      using b(3) k less.prems by (simp add: chunk_ok_def)
    ultimately show ?thesis by blast
  qed
qed


lemma upload_sized_short:
  "length (r_bytes r) < n \<Longrightarrow> snd (upload_sized None n r) \<noteq> Done r'"
proof (induction n arbitrary: r rule: less_induct)
  case (less n)
  let ?k = "min n BODY_CHUNK_LEN"
  have k: "0 < ?k" "?k \<le> n" using less.prems by (auto simp: BODY_CHUNK_LEN_def)
  show ?case
  proof (cases "?k \<le> length (r_bytes r)")
    case True
    then have "snd (upload_sized None (n - ?k) (r\<lparr>r_bytes := drop ?k (r_bytes r)\<rparr>)) \<noteq> Done r'"
      using less k by simp
    then show ?thesis using True less.prems
      by (auto simp: upload_sized_step [of n None r] read_exact_def split: prod.split)
  next
    case False
    then show ?thesis using less.prems by (simp add: upload_sized_step [of n None r] read_exact_def)
  qed
qed

lemma upload_chunked_end: "upload_chunked None n (r\<lparr>r_bytes := chunk_end @ bs\<rparr>) = ([], Done (r\<lparr>r_bytes := bs\<rparr>))"
  by (subst upload_chunked_step) (simp add: read_chunk_end)

lemma upload_chunked_cut:
  assumes "r_end r \<noteq> Stalled"
  shows "\<exists>e. upload_chunked None n (r\<lparr>r_bytes := []\<rparr>) = ([], Fail e)"
  using assms by (subst upload_chunked_step) (simp add: read_body_chunk_def read_exact_def)

text \<open>The response body on an open writer.\<close>

lemma response_body_sized:
  "w_limit w = None \<Longrightarrow> n + body_size cs \<le> MAX_BODY_LEN \<Longrightarrow>
   response_body True n cs BodyEnds w = (Done (), w\<lparr>w_sent := w_sent w @ concat cs\<rparr>)"
  by (induction cs arbitrary: n w) (auto simp: write_body_def)

lemma response_body_chunked:
  "w_limit w = None \<Longrightarrow> n + body_size cs \<le> MAX_BODY_LEN \<Longrightarrow>
   response_body False n cs BodyEnds w =
     (Done (), w\<lparr>w_sent := w_sent w @ concat (map chunk_frame cs) @ chunk_end\<rparr>)"
proof (induction cs arbitrary: n w)
  case Nil
  then show ?case by (simp add: write_body_end_open)
next
  case (Cons c cs)
  from Cons.prems have "length c < 2 ^ 32" by (simp add: MAX_BODY_LEN_def)
  with Cons show ?case by (simp add: write_body_chunk_open)
qed

lemma drain_chunks_iff:
  "drain (Suc (length (r_bytes r))) read_body_chunk r = Some (Done (cs, r')) \<longleftrightarrow>
      list_all chunk_ok cs \<and> r_end r' = r_end r \<and> r_bytes r = concat (map chunk_frame cs) @ chunk_end @ r_bytes r'"
proof
  assume "drain (Suc (length (r_bytes r))) read_body_chunk r = Some (Done (cs, r'))"
  then show "list_all chunk_ok cs \<and> r_end r' = r_end r \<and> r_bytes r = concat (map chunk_frame cs) @ chunk_end @ r_bytes r'"
    by (rule chunks.drain_sound)
next
  assume *: "list_all chunk_ok cs \<and> r_end r' = r_end r \<and> r_bytes r = concat (map chunk_frame cs) @ chunk_end @ r_bytes r'"
  then have "length cs < Suc (length (r_bytes r))" using length_concat_frames [of cs] by simp
  from chunks.drain_puts [OF _ this, where r = r and bs = "r_bytes r'"] *
  show "drain (Suc (length (r_bytes r))) read_body_chunk r = Some (Done (cs, r'))"
    by (cases r; cases r') simp
qed

subsection \<open>Properties\<close>

text \<open>
  The request body reaches the upstream exactly: with a client that takes every chunk, the
  body task ends well on a body of declared length if and only if the length is within 32 MiB and
  the tunnel holds that many bytes, which are the bytes sent; and on a body of unknown length if
  and only if the tunnel holds frames of acceptable chunks of at most 32 MiB in all followed by
  the end mark, those chunks being what is sent. Either way the tunnel is read no further.
\<close>

theorem request_body_exact:
  "(body_task None None r = (cs, Done r') \<longleftrightarrow>
      list_all chunk_ok cs \<and> body_size cs \<le> MAX_BODY_LEN \<and> r_end r' = r_end r \<and>
      r_bytes r = concat (map chunk_frame cs) @ chunk_end @ r_bytes r') \<and>
   ((\<exists>sent. body_task None (Some len) r = (sent, Done r') \<and> concat sent = body) \<longleftrightarrow>
      unat len \<le> MAX_BODY_LEN \<and> length body = unat len \<and> r_end r' = r_end r \<and> r_bytes r = body @ r_bytes r')"
proof
  show "body_task None None r = (cs, Done r') \<longleftrightarrow>
      list_all chunk_ok cs \<and> body_size cs \<le> MAX_BODY_LEN \<and> r_end r' = r_end r \<and>
      r_bytes r = concat (map chunk_frame cs) @ chunk_end @ r_bytes r'" (is "?l \<longleftrightarrow> ?r")
  proof
    show "?l \<Longrightarrow> ?r" using upload_chunked_Done [of None 0 r cs r'] by (simp add: body_task_def)
    assume ?r
    then have "upload_chunked None 0 (r\<lparr>r_bytes := concat (map chunk_frame cs) @ chunk_end @ r_bytes r'\<rparr>) =
        (cs, Done (r\<lparr>r_bytes := r_bytes r'\<rparr>))"
      by (subst upload_chunked_frames) (simp_all add: upload_chunked_end)
    with \<open>?r\<close> show ?l by (cases r; cases r') (simp add: body_task_def)
  qed
  show "(\<exists>sent. body_task None (Some len) r = (sent, Done r') \<and> concat sent = body) \<longleftrightarrow>
      unat len \<le> MAX_BODY_LEN \<and> length body = unat len \<and> r_end r' = r_end r \<and> r_bytes r = body @ r_bytes r'"
  proof (cases "unat len \<le> MAX_BODY_LEN")
    case False
    then show ?thesis by (auto simp: body_task_def)
  next
    case True
    show ?thesis
    proof (cases "unat len \<le> length (r_bytes r)")
      case True
      from upload_sized_Done [OF this] obtain blocks where
        "upload_sized None (unat len) r = (blocks, Done (r\<lparr>r_bytes := drop (unat len) (r_bytes r)\<rparr>))"
        "concat blocks = take (unat len) (r_bytes r)" by blast
      with \<open>unat len \<le> MAX_BODY_LEN\<close> True show ?thesis
        by (cases r; cases r') (auto simp: body_task_def append_eq_conv_conj)
    next
      case False
      with upload_sized_short [of r "unat len" r'] \<open>unat len \<le> MAX_BODY_LEN\<close> show ?thesis
        by (auto simp: body_task_def)
    qed
  qed
qed

text \<open>
  C35. An interrupted chunked upload is presented to the upstream as a complete request: if the
  tunnel ends or breaks after some chunks, before the end mark, the body the HTTP client sends is
  those chunks with a regular end, the same as for a complete upload of just those chunks, even
  though the body task itself fails.
\<close>

theorem interrupted_upload_looks_complete:
  assumes "list_all chunk_ok cs" "body_size cs \<le> MAX_BODY_LEN" "r_end r \<noteq> Stalled"
  shows "upstream_body (body_task None None (r\<lparr>r_bytes := concat (map chunk_frame cs)\<rparr>)) = EndedBody cs \<and>
    (\<exists>e. snd (body_task None None (r\<lparr>r_bytes := concat (map chunk_frame cs)\<rparr>)) = Fail e) \<and>
    upstream_body (body_task None None (r\<lparr>r_bytes := concat (map chunk_frame cs) @ chunk_end\<rparr>)) = EndedBody cs"
proof -
  from upload_chunked_cut [OF assms(3)] obtain e where
    "upload_chunked None (body_size cs) (r\<lparr>r_bytes := []\<rparr>) = ([], Fail e)" by blast
  with upload_chunked_frames [OF assms(1), where n = 0 and r = r and bs = "[]"]
    upload_chunked_frames [OF assms(1), where n = 0 and r = r and bs = chunk_end]
    upload_chunked_end [where n = "body_size cs" and r = r and bs = "[]"] assms(2)
  show ?thesis by (simp add: body_task_def upstream_body_def)
qed

theorem interrupted_upload_looks_complete_witness:
  "upstream_body (body_task None None (\<lparr>r_bytes = [], r_end = Broken\<rparr>\<lparr>r_bytes := concat (map chunk_frame [''half''])\<rparr>)) =
     EndedBody [''half'']"
proof -
  have ok: "list_all chunk_ok [''half'']" "body_size [''half''] \<le> MAX_BODY_LEN"
    by (simp_all add: chunk_ok_def BODY_CHUNK_LEN_def MAX_BODY_LEN_def)
  show ?thesis
    using interrupted_upload_looks_complete [OF ok, where r = "\<lparr>r_bytes = [], r_end = Broken\<rparr>"] by simp
qed

text \<open>
  C34. What the host writes for an upstream response that ends well and stays within 32 MiB, on a
  tunnel that accepts it: with a content length the plain concatenation of the upstream's chunks;
  without one the frames of those very chunks and the end mark, which the client's chunk reader
  can read if and only if every upstream chunk is non-empty and at most 16 KiB.
\<close>

theorem response_body_written:
  assumes "w_limit w = None" "body_size cs \<le> MAX_BODY_LEN"
  shows "response_body True 0 cs BodyEnds w = (Done (), w\<lparr>w_sent := w_sent w @ concat cs\<rparr>) \<and>
    (\<exists>frames. response_body False 0 cs BodyEnds w = (Done (), w\<lparr>w_sent := w_sent w @ frames\<rparr>) \<and>
       (drain (Suc (length frames)) read_body_chunk \<lparr>r_bytes = frames, r_end = Eof\<rparr> =
          Some (Done (cs, \<lparr>r_bytes = [], r_end = Eof\<rparr>)) \<longleftrightarrow> list_all chunk_ok cs))"
proof -
  let ?frames = "concat (map chunk_frame cs) @ chunk_end"
  have "drain (Suc (length ?frames)) read_body_chunk \<lparr>r_bytes = ?frames, r_end = Eof\<rparr> =
      Some (Done (cs, \<lparr>r_bytes = [], r_end = Eof\<rparr>)) \<longleftrightarrow> list_all chunk_ok cs"
    using drain_chunks_iff [of "\<lparr>r_bytes = ?frames, r_end = Eof\<rparr>" cs "\<lparr>r_bytes = [], r_end = Eof\<rparr>"]
    by (simp del: drain.simps)
  then show ?thesis
    using response_body_sized [OF assms(1), of 0 cs] response_body_chunked [OF assms(1), of 0 cs] assms(2)
    by (intro conjI exI [of _ ?frames]) simp_all
qed

theorem response_body_written_witness:
  "response_body True 0 [''ab'', ''c''] BodyEnds \<lparr>w_sent = [], w_limit = None\<rparr> =
     (Done (), \<lparr>w_sent = ''abc'', w_limit = None\<rparr>)"
  using response_body_written [of "\<lparr>w_sent = [], w_limit = None\<rparr>" "[''ab'', ''c'']"]
  by (simp add: MAX_BODY_LEN_def)

end
