(* ===== verification/Idle_Relay.thy ===== *)
theory Idle_Relay
  imports Wire_Protocol
begin

text \<open>
  The byte relay with an idle deadline, \<open>relay_with_idle_policy\<close> and \<open>ActivityStream\<close> of
  \<open>crates/locho-core/src/protocol.rs\<close>.

  The bidirectional copy itself is \<open>tokio\<close>'s. \<open>select!\<close> polls its two branches in random order,
  so a run is any sequence of branch polls, each at some instant: polling the copy performs
  stream operations through \<open>ActivityStream\<close> and may finish it; polling the timer, which is
  armed from the activity instant read at the head of the loop, may take the timer branch.
  \<open>idle_expiry_exact\<close> says at which timer polls the relay gives up, \<open>idle_expiry_safe\<close> that
  no byte moved during the idle period before it did.
\<close>

datatype poll_result = PollPending | PollOk nat | PollErr

text \<open>An operation on an \<open>ActivityStream\<close>: a read with the buffer's fill before and after.\<close>

datatype stream_op = PollRead nat nat | PollWrite poll_result | PollFlush | PollShutdown

definition activity_poll_read :: "nat \<Rightarrow> nat \<Rightarrow> nat \<Rightarrow> nat \<Rightarrow> nat" where
  "activity_poll_read before after now activity = (if before < after then now else activity)"

definition activity_poll_write :: "poll_result \<Rightarrow> nat \<Rightarrow> nat \<Rightarrow> nat" where
  "activity_poll_write res now activity =
     (case res of PollOk count \<Rightarrow> if 0 < count then now else activity | _ \<Rightarrow> activity)"

fun activity_op :: "nat \<Rightarrow> stream_op \<Rightarrow> nat \<Rightarrow> nat" where
  "activity_op now (PollRead before after) activity = activity_poll_read before after now activity"
| "activity_op now (PollWrite res) activity = activity_poll_write res now activity"
| "activity_op now PollFlush activity = activity"
| "activity_op now PollShutdown activity = activity"

datatype relay_poll =
    PollCopy (poll_now: nat) (poll_ops: "stream_op list") (copy_result: "bool option")
  | PollTimer (poll_now: nat)

datatype relay_result = RelayOk | RelayStreams | TunnelIdleTimeout

record relay_state =
  activity :: nat
  last_activity :: nat

text \<open>\<open>activity\<close> is the mutex, \<open>last_activity\<close> the copy read at the head of the loop.\<close>

definition relay_start :: "nat \<Rightarrow> relay_state" where
  "relay_start now = \<lparr>activity = now, last_activity = now\<rparr>"

definition timer_ready :: "duration option \<Rightarrow> nat \<Rightarrow> relay_state \<Rightarrow> bool" where
  "timer_ready idle now s = (case idle of None \<Rightarrow> False | Some d \<Rightarrow> last_activity s + d \<le> now)"

definition timer_branch :: "duration option \<Rightarrow> nat \<Rightarrow> relay_state \<Rightarrow> relay_result + relay_state" where
  "timer_branch idle now s =
     (case idle of
        Some d \<Rightarrow> if d \<le> now - activity s then Inl TunnelIdleTimeout
                  else Inr (s\<lparr>last_activity := activity s\<rparr>)
      | None \<Rightarrow> Inr (s\<lparr>last_activity := activity s\<rparr>))"

fun relay_step :: "duration option \<Rightarrow> relay_poll \<Rightarrow> relay_state \<Rightarrow> relay_result + relay_state" where
  "relay_step idle (PollCopy now ops (Some ok)) s = Inl (if ok then RelayOk else RelayStreams)"
| "relay_step idle (PollCopy now ops None) s =
     Inr (s\<lparr>activity := fold (activity_op now) ops (activity s)\<rparr>)"
| "relay_step idle (PollTimer now) s =
     (if timer_ready idle now s then timer_branch idle now s else Inr s)"

text \<open>
  The relay over a sequence of polls: the polls it used up to its end, with its result, or
  the state it is in after all of them.
\<close>

fun relay_run ::
  "duration option \<Rightarrow> relay_state \<Rightarrow> relay_poll list \<Rightarrow> (relay_result \<times> relay_poll list) + relay_state"
where
  "relay_run idle s [] = Inr s"
| "relay_run idle s (p # ps) =
     (case relay_step idle p s of
        Inl r \<Rightarrow> Inl (r, [p])
      | Inr s' \<Rightarrow> (case relay_run idle s' ps of
          Inl (r, used) \<Rightarrow> Inl (r, p # used)
        | Inr s'' \<Rightarrow> Inr s''))"

definition relay_with_idle_policy ::
  "duration option \<Rightarrow> nat \<Rightarrow> relay_poll list \<Rightarrow> (relay_result \<times> relay_poll list) + relay_state" where
  "relay_with_idle_policy idle start ps = relay_run idle (relay_start start) ps"

definition relay_with_idle_timeout ::
  "nat \<Rightarrow> relay_poll list \<Rightarrow> (relay_result \<times> relay_poll list) + relay_state" where
  "relay_with_idle_timeout start ps = relay_with_idle_policy (Some TCP_IDLE_TIMEOUT) start ps"

text \<open>An operation that moved application bytes; the clock never goes back.\<close>

fun moves_bytes :: "stream_op \<Rightarrow> bool" where
  "moves_bytes (PollRead before after) = (before < after)"
| "moves_bytes (PollWrite (PollOk n)) = (0 < n)"
| "moves_bytes _ = False"

fun transfers :: "relay_poll \<Rightarrow> bool" where
  "transfers (PollCopy now ops res) = list_ex moves_bytes ops"
| "transfers (PollTimer now) = False"

text \<open>The instant of the last poll that moved bytes, or the start.\<close>

fun last_transfer :: "nat \<Rightarrow> relay_poll list \<Rightarrow> nat" where
  "last_transfer t [] = t"
| "last_transfer t (p # ps) = last_transfer (if transfers p then poll_now p else t) ps"

fun clock_from :: "nat \<Rightarrow> relay_poll list \<Rightarrow> bool" where
  "clock_from t [] = True"
| "clock_from t (p # ps) = (t \<le> poll_now p \<and> clock_from (poll_now p) ps)"

subsection \<open>Lemmas\<close>

lemma activity_op_eq: "activity_op now op a = (if moves_bytes op then now else a)"
  by (cases op rule: moves_bytes.cases)
    (auto simp: activity_poll_read_def activity_poll_write_def)

lemma activity_fold:
  "fold (activity_op now) ops a = (if list_ex moves_bytes ops then now else a)"
  by (induction ops arbitrary: a) (auto simp: activity_op_eq)

lemma timer_branch_timeout:
  "timer_branch idle now s = Inl r \<longleftrightarrow>
   r = TunnelIdleTimeout \<and> (\<exists>d. idle = Some d \<and> d \<le> now - activity s)"
  by (auto simp: timer_branch_def split: option.splits)

text \<open>The invariant: the armed instant is not ahead of the activity, nor that of the clock.\<close>

definition relay_inv :: "nat \<Rightarrow> relay_state \<Rightarrow> bool" where
  "relay_inv now s \<longleftrightarrow> last_activity s \<le> activity s \<and> activity s \<le> now"

lemma relay_inv_start: "relay_inv t (relay_start t)"
  by (simp add: relay_inv_def relay_start_def)

lemma relay_step_Inr:
  assumes "relay_step idle p s = Inr s'"
  shows "activity s' = (if transfers p then poll_now p else activity s)"
  using assms
  by (cases "(idle, p, s)" rule: relay_step.cases)
    (auto simp: activity_fold timer_branch_def split: if_splits option.splits)

lemma relay_step_inv:
  assumes "relay_inv t s" "t \<le> poll_now p" "relay_step idle p s = Inr s'"
  shows "relay_inv (poll_now p) s'"
  using assms
  by (cases "(idle, p, s)" rule: relay_step.cases)
    (auto simp: activity_fold timer_branch_def relay_inv_def split: if_splits option.splits)

lemma relay_step_timeout:
  assumes "relay_step idle p s = Inl TunnelIdleTimeout"
  shows "\<exists>d now. idle = Some d \<and> p = PollTimer now \<and> d \<le> now - activity s"
  using assms
  by (cases "(idle, p, s)" rule: relay_step.cases) (auto simp: timer_branch_timeout split: if_splits)

lemma relay_run_Inr:
  "relay_run idle s ps = Inr s' \<Longrightarrow> relay_inv t s \<Longrightarrow> clock_from t ps \<Longrightarrow>
   activity s' = last_transfer (activity s) ps \<and> last_activity s' \<le> activity s'"
proof (induction ps arbitrary: s t)
  case Nil
  then show ?case by (simp add: relay_inv_def)
next
  case (Cons p ps)
  then obtain s1 where st: "relay_step idle p s = Inr s1" and "relay_run idle s1 ps = Inr s'"
    by (auto split: sum.splits prod.splits)
  then show ?case
    using Cons.IH [of s1 "poll_now p"] Cons.prems relay_step_inv [of t s p idle s1]
      relay_step_Inr [OF st] by simp
qed

lemma relay_run_append:
  "relay_run idle s ps = Inr s' \<Longrightarrow>
   relay_run idle s (ps @ qs) =
     (case relay_run idle s' qs of Inl (r, used) \<Rightarrow> Inl (r, ps @ used) | Inr t \<Rightarrow> Inr t)"
proof (induction ps arbitrary: s)
  case Nil
  then show ?case by (simp split: sum.splits)
next
  case (Cons p ps)
  then obtain s1 where "relay_step idle p s = Inr s1" "relay_run idle s1 ps = Inr s'"
    by (auto split: sum.splits prod.splits)
  with Cons.IH show ?case by (simp split: sum.splits prod.splits)
qed

lemma clock_from_append:
  "clock_from t (ps @ qs) \<Longrightarrow> clock_from t ps"
  by (induction ps arbitrary: t) simp_all

lemma last_transfer_ge: "clock_from t ps \<Longrightarrow> a \<le> t \<Longrightarrow> a \<le> last_transfer a ps"
  by (induction ps arbitrary: t a) fastforce+

lemma last_transfer_bound:
  "clock_from t ps \<Longrightarrow> a \<le> t \<Longrightarrow> p \<in> set ps \<Longrightarrow> transfers p \<Longrightarrow> poll_now p \<le> last_transfer a ps"
proof (induction ps arbitrary: t a)
  case Nil
  then show ?case by simp
next
  case (Cons q ps)
  show ?case
  proof (cases "p = q")
    case True
    then show ?thesis using Cons.prems last_transfer_ge [of "poll_now q" ps "poll_now q"] by simp
  next
    case False
    then show ?thesis using Cons.IH [of "poll_now q"] Cons.prems by fastforce
  qed
qed

lemma last_transfer_le: "clock_from t (ps @ PollTimer now # qs) \<Longrightarrow> a \<le> t \<Longrightarrow> last_transfer a ps \<le> now"
  by (induction ps arbitrary: a t) (auto split: if_splits)

lemma relay_run_timeout:
  "relay_run idle s ps = Inl (TunnelIdleTimeout, used) \<Longrightarrow>
   \<exists>d qs now s'. idle = Some d \<and> used = qs @ [PollTimer now] \<and> relay_run idle s qs = Inr s' \<and>
     d \<le> now - activity s' \<and> (\<exists>rest. ps = used @ rest)"
proof (induction ps arbitrary: s used)
  case Nil
  then show ?case by simp
next
  case (Cons p ps)
  show ?case
  proof (cases "relay_step idle p s")
    case (Inl r)
    then have "r = TunnelIdleTimeout" "used = [p]"
      using Cons.prems by simp_all
    with Inl relay_step_timeout [of idle p s] show ?thesis by force
  next
    case (Inr s1)
    with Cons.prems obtain used' where u: "relay_run idle s1 ps = Inl (TunnelIdleTimeout, used')"
        "used = p # used'"
      by (auto split: sum.splits prod.splits)
    from Cons.IH [OF u(1)] obtain d qs now s' rest where
      "idle = Some d" "used' = qs @ [PollTimer now]" "relay_run idle s1 qs = Inr s'"
      "d \<le> now - activity s'" "ps = used' @ rest" by blast
    with Inr u(2) show ?thesis
      by (intro exI [of _ d] exI [of _ "p # qs"] exI [of _ now] exI [of _ s']) simp
  qed
qed

subsection \<open>Properties\<close>

text \<open>
  C26. When the relay gives up with \<open>TunnelIdleTimeout\<close>, an idle period is configured, it gives
  up at a timer poll, and neither the start nor any poll that moved bytes in either direction
  lies within the idle period before that instant. End-of-stream, flush and shutdown polls do
  not count as activity.
\<close>

theorem idle_expiry_safe:
  assumes "clock_from start ps"
    and "relay_with_idle_policy idle start ps = Inl (TunnelIdleTimeout, used)"
  shows "\<exists>d now qs. idle = Some d \<and> used = qs @ [PollTimer now] \<and>
    start + d \<le> now \<and> (\<forall>p \<in> set used. transfers p \<longrightarrow> poll_now p + d \<le> now)"
proof -
  from relay_run_timeout [OF assms(2) [unfolded relay_with_idle_policy_def]]
  obtain d qs now s' rest where u: "idle = Some d" "used = qs @ [PollTimer now]"
    "relay_run idle (relay_start start) qs = Inr s'" "d \<le> now - activity s'" "ps = used @ rest"
    by blast
  have clock: "clock_from start qs"
    using assms(1) u(2,5) clock_from_append [of start qs "PollTimer now # rest"] by simp
  have act: "activity s' = last_transfer start qs"
    using relay_run_Inr [OF u(3) relay_inv_start clock] by (simp add: relay_start_def)
  have "start \<le> activity s'"
    using last_transfer_ge [OF clock, of start] act by simp
  moreover have "poll_now p \<le> activity s'" if "p \<in> set used" "transfers p" for p
    using last_transfer_bound [OF clock, of start p] act that u(2) by auto
  moreover have "activity s' + d \<le> now"
    using last_transfer_le [of start qs now rest start] assms(1) u(2,4,5) act by simp
  ultimately show ?thesis
    using u(1,2) by (intro exI [of _ d] exI [of _ now] exI [of _ qs]) fastforce
qed

theorem idle_expiry_safe_witness:
  "clock_from 0 [PollCopy 4 [PollRead 0 3] None, PollTimer 10, PollTimer 14] \<and>
   relay_with_idle_policy (Some 10) 0 [PollCopy 4 [PollRead 0 3] None, PollTimer 10, PollTimer 14] =
     Inl (TunnelIdleTimeout, [PollCopy 4 [PollRead 0 3] None, PollTimer 10, PollTimer 14]) \<and>
   (\<exists>d now qs. Some (10::nat) = Some d \<and>
      [PollCopy 4 [PollRead 0 3] None, PollTimer 10, PollTimer 14] = qs @ [PollTimer now] \<and>
      0 + d \<le> now)"
proof -
  have c: "clock_from 0 [PollCopy 4 [PollRead 0 3] None, PollTimer 10, PollTimer 14]" by simp
  have r: "relay_with_idle_policy (Some 10) 0 [PollCopy 4 [PollRead 0 3] None, PollTimer 10, PollTimer 14] =
     Inl (TunnelIdleTimeout, [PollCopy 4 [PollRead 0 3] None, PollTimer 10, PollTimer 14])"
    by (simp add: relay_with_idle_policy_def relay_start_def timer_ready_def timer_branch_def
        activity_poll_read_def)
  from c r idle_expiry_safe [OF c r] show ?thesis by blast
qed

text \<open>
  Expiry is exact. While the relay is running, polling the timer ends it exactly when the
  idle period has passed since the last poll that moved bytes (or since the start); otherwise it
  keeps running. Without an idle period no sequence of polls ends it with an idle timeout.
\<close>

theorem idle_expiry_exact:
  assumes "clock_from start (ps @ [PollTimer now])"
    and "relay_with_idle_policy idle start ps = Inr s"
  shows "(relay_with_idle_policy idle start (ps @ [PollTimer now]) =
       Inl (TunnelIdleTimeout, ps @ [PollTimer now]) \<longleftrightarrow>
     (\<exists>d. idle = Some d \<and> last_transfer start ps + d \<le> now)) \<and>
    ((\<exists>d. idle = Some d \<and> last_transfer start ps + d \<le> now) \<or>
     (\<exists>s'. relay_with_idle_policy idle start (ps @ [PollTimer now]) = Inr s'))"
proof -
  have clock: "clock_from start ps"
    by (rule clock_from_append [OF assms(1)])
  have s: "relay_run idle (relay_start start) ps = Inr s"
    using assms(2) by (simp add: relay_with_idle_policy_def)
  have act: "activity s = last_transfer start ps" and arm: "last_activity s \<le> activity s"
    using relay_run_Inr [OF s relay_inv_start clock] by (simp_all add: relay_start_def)
  have le: "activity s \<le> now"
    using last_transfer_le [of start ps now "[]" start] assms(1) act by simp
  have "relay_run idle s [PollTimer now] =
      (if \<exists>d. idle = Some d \<and> activity s + d \<le> now
       then Inl (TunnelIdleTimeout, [PollTimer now])
       else Inr (if timer_ready idle now s then s\<lparr>last_activity := activity s\<rparr> else s))"
    using arm le by (cases idle) (auto simp: timer_ready_def timer_branch_def)
  then show ?thesis
    using act by (simp add: relay_with_idle_policy_def relay_run_append [OF s])
qed

theorem idle_expiry_exact_witness:
  "clock_from 0 ([PollCopy 4 [PollWrite (PollOk 2)] None] @ [PollTimer 13]) \<and>
   relay_with_idle_policy (Some 10) 0 [PollCopy 4 [PollWrite (PollOk 2)] None] =
     Inr \<lparr>activity = 4, last_activity = 0\<rparr> \<and>
   relay_with_idle_policy (Some 10) 0 ([PollCopy 4 [PollWrite (PollOk 2)] None] @ [PollTimer 13]) \<noteq>
     Inl (TunnelIdleTimeout, [PollCopy 4 [PollWrite (PollOk 2)] None] @ [PollTimer 13])"
proof -
  have c: "clock_from 0 ([PollCopy 4 [PollWrite (PollOk 2)] None] @ [PollTimer 13])" by simp
  have r: "relay_with_idle_policy (Some 10) 0 [PollCopy 4 [PollWrite (PollOk 2)] None] =
     Inr \<lparr>activity = 4, last_activity = 0\<rparr>"
    by (simp add: relay_with_idle_policy_def relay_start_def activity_poll_write_def)
  from c r idle_expiry_exact [OF c r] show ?thesis by simp
qed

end
