(* ===== verification/Host.thy ===== *)
theory Host
  imports Host_Forward Session_Status Idle_Relay Step_Systems
begin

text \<open>
  The host, \<open>src/host.rs\<close>: what it builds before it accepts connections, the handling of one
  tunnel stream (the request head, authentication, HTTP forwarding and TCP relaying), and the
  accept loops of a connection and of the process.

  A stream handler returns what happened, \<open>Done ()\<close> for \<open>Ok(())\<close>, and the writer with what
  the peer was sent. A panicking \<open>expect\<close> is the result \<open>HostPanic\<close>.
\<close>

subsection \<open>Services of a running host\<close>

record 'u host_services =
  hs_services :: "'u service_config list"
  hs_secrets :: "string \<Rightarrow> string option"
  hs_clients :: "string \<Rightarrow> duration option"

datatype host_error = HostWire wire_error | HostMissingSecret | HostIdleConfig config_error | HostPanic

text \<open>
  The secrets and clients \<open>run\<close> prepares: secrets of services that are gone are dropped, the
  others are kept, and each service without one gets a new secret.
\<close>

fun add_missing :: "(string \<Rightarrow> string) \<Rightarrow> 'u service_config list \<Rightarrow> (string \<Rightarrow> string option) \<Rightarrow> (string \<Rightarrow> string option)" where
  "add_missing fresh [] secrets = secrets"
| "add_missing fresh (svc # svcs) secrets =
     add_missing fresh svcs
       (case secrets (svc_name svc) of
          None \<Rightarrow> secrets(svc_name svc \<mapsto> fresh (svc_name svc))
        | Some _ \<Rightarrow> secrets)"

definition prepare_secrets ::
  "(string \<Rightarrow> string) \<Rightarrow> 'u service_config list \<Rightarrow> (string \<Rightarrow> string option) \<Rightarrow> (string \<Rightarrow> string option)" where
  "prepare_secrets fresh services persisted =
     add_missing fresh services
       (\<lambda>name. if name \<in> set (map svc_name services) then persisted name else None)"

definition prepare_clients :: "'u service_config list \<Rightarrow> (string \<Rightarrow> duration option)" where
  "prepare_clients services =
     map_of (map (\<lambda>svc. (svc_name svc, http_request_timeout (svc_upstream_timeout_secs svc)))
       (rev (filter (\<lambda>svc. svc_type svc = Http) services)))"

definition prepare_services ::
  "(string \<Rightarrow> string) \<Rightarrow> 'u service_config list \<Rightarrow> (string \<Rightarrow> string option) \<Rightarrow> 'u host_services" where
  "prepare_services fresh services persisted =
     \<lparr>hs_services = services, hs_secrets = prepare_secrets fresh services persisted,
      hs_clients = prepare_clients services\<rparr>"

datatype bind_error = BindNotV4 | BindUnspecified | BindZeroPort

definition validate_bind_address :: "socket_addr \<Rightarrow> bind_error + socket_addr" where
  "validate_bind_address address =
     (case sa_ip address of
        V6 _ \<Rightarrow> Inl BindNotV4
      | V4 ip \<Rightarrow>
          if ip = 0 then Inl BindUnspecified
          else if sa_port address = 0 then Inl BindZeroPort
          else Inr address)"

subsection \<open>Answers and lookups\<close>

definition error_head :: "u16 \<Rightarrow> locho_response_head" where
  "error_head status = \<lparr>resp_version = PROTOCOL_VERSION, resp_status = status, resp_headers = [],
     resp_body_len = Some 0\<rparr>"

definition write_error ::
  "locho_response_head codec \<Rightarrow> u16 \<Rightarrow> writer \<Rightarrow> (unit, host_error) outcome \<times> writer" where
  "write_error respc status w =
     map_fail HostWire (then_write (write_json_head respc (error_head status) w) (\<lambda>w. write_body [] w))"

definition find_service :: "string \<Rightarrow> 'u service_config list \<Rightarrow> 'u service_config option" where
  "find_service name services = List.find (\<lambda>svc. svc_name svc = name) services"

definition validate_http_request ::
  "crypto_api \<Rightarrow> 'u host_services \<Rightarrow> locho_request_head \<Rightarrow> u16 + locho_request_head" where
  "validate_http_request cr hs req =
     (if req_version req \<noteq> PROTOCOL_VERSION then Inl 400
      else
        res_bind (ok_or 404 (find_service (req_service req) (hs_services hs))) (\<lambda>svc.
        if svc_type svc \<noteq> Http then Inl 400
        else
          res_bind (ok_or 403 (hs_secrets hs (svc_name svc))) (\<lambda>secret.
          res_bind (map_err (\<lambda>_. 403) (verify_secret_proof cr secret (req_secret_proof req))) (\<lambda>_.
          Inr req))))"

subsection \<open>HTTP streams\<close>

definition forward_status :: "string \<Rightarrow> forward_error \<Rightarrow> u16" where
  "forward_status io e =
     (let status = (case e of ForwardReqwest is_timeout _ \<Rightarrow> if is_timeout then 504 else 502 | _ \<Rightarrow> 502)
      in if contains_str ''body exceeds limit'' (forward_error_text io e) then 413 else status)"

text \<open>The parameters of the transport: the HTTP client and what it takes of a body.\<close>

record 'u upstream_client =
  uc_send :: "'u upstream_request \<Rightarrow> upstream_reply"
  uc_room :: "nat option"
  uc_decimal :: "nat \<Rightarrow> bytes"
  uc_io_text :: string

definition handle_http_stream ::
  "crypto_api \<Rightarrow> 'u url_api \<Rightarrow> http_api \<Rightarrow> locho_response_head codec \<Rightarrow> 'u upstream_client \<Rightarrow>
   'u host_services \<Rightarrow> locho_request_head \<Rightarrow> reader \<Rightarrow> writer \<Rightarrow> (unit, host_error) outcome \<times> writer" where
  "handle_http_stream cr api h respc uc hs req r w =
     (case validate_http_request cr hs req of
        Inl status \<Rightarrow> write_error respc status w
      | Inr req \<Rightarrow>
          (case find_service (req_service req) (hs_services hs) of
             None \<Rightarrow> (Fail HostPanic, w)
           | Some svc \<Rightarrow>
               (case (svc_type svc, svc_upstream svc) of
                  (Http, Some upstream) \<Rightarrow>
                    (case hs_clients hs (svc_name svc) of
                       None \<Rightarrow> (Fail HostPanic, w)
                     | Some _ \<Rightarrow>
                         (case forward_to_upstream_with_state api h respc (uc_decimal uc) (uc_send uc) (uc_room uc)
                                 upstream req r w of
                            (Hang, started, w) \<Rightarrow>
                              (Done (), if started then w else snd (write_error respc 504 w))
                          | (Fail e, started, w) \<Rightarrow>
                              if started then (Done (), w)
                              else write_error respc (forward_status (uc_io_text uc) e) w
                          | (Done _, started, w) \<Rightarrow> (Done (), w)))
                | (Tcp, _) \<Rightarrow> write_error respc 501 w
                | _ \<Rightarrow> write_error respc 500 w)))"

subsection \<open>TCP streams\<close>

text \<open>
  A TCP stream ends with an answer, or is relayed to an endpoint with an idle policy, holding one
  of the host's connection permits until the relay ends. \<open>connect\<close> is \<open>connect_upstream\<close>.
\<close>

datatype tcp_result =
    TcpAnswered "(unit, host_error) outcome"
  | TcpRelaying stream_endpoint "duration option"

definition connect_within :: "duration \<Rightarrow> (unit, unit) outcome \<Rightarrow> (unit, unit) outcome" where
  "connect_within limit connecting = (if limit = 0 then Hang else connecting)"

definition handle_tcp_stream ::
  "crypto_api \<Rightarrow> locho_response_head codec \<Rightarrow> duration \<Rightarrow> (stream_endpoint \<Rightarrow> (unit, unit) outcome) \<Rightarrow>
   'u host_services \<Rightarrow> nat \<Rightarrow> tcp_request_head \<Rightarrow> writer \<Rightarrow> tcp_result \<times> writer" where
  "handle_tcp_stream cr respc connect_timeout connect hs free_permits req w =
     (let answer = (\<lambda>status. case write_error respc status w of (res, w) \<Rightarrow> (TcpAnswered res, w)) in
      if tcp_version req \<noteq> PROTOCOL_VERSION then answer 400
      else
        (case find_service (tcp_service req) (hs_services hs) of
           None \<Rightarrow> answer 404
         | Some svc \<Rightarrow>
             (case hs_secrets hs (svc_name svc) of
                None \<Rightarrow> (TcpAnswered (Fail HostMissingSecret), w)
              | Some secret \<Rightarrow>
                  if \<not> is_ok (verify_secret_proof cr secret (tcp_secret_proof req)) then answer 403
                  else
                    (case (svc_type svc, stream_endpoint_of svc) of
                       (Tcp, Some endpoint) \<Rightarrow>
                         if free_permits = 0 then answer 429
                         else
                           (case connect_within connect_timeout (connect endpoint) of
                              Fail _ \<Rightarrow> answer 502
                            | Hang \<Rightarrow> answer 504
                            | Done _ \<Rightarrow>
                                (case map_fail HostWire
                                    (then_write (write_json_head respc (error_head 200) w) (\<lambda>w. write_body [] w)) of
                                   (Fail e, w) \<Rightarrow> (TcpAnswered (Fail e), w)
                                 | (Hang, w) \<Rightarrow> (TcpAnswered Hang, w)
                                 | (Done _, w) \<Rightarrow>
                                     (case resolve_tcp_idle_timeout (svc_tcp_idle_timeout_secs svc) of
                                        Inl e \<Rightarrow> (TcpAnswered (Fail (HostIdleConfig e)), w)
                                      | Inr idle \<Rightarrow> (TcpRelaying endpoint idle, w))))
                     | _ \<Rightarrow> answer 400))))"

subsection \<open>Streams\<close>

datatype head_error = HeadTimedOut | HeadWire wire_error

fun head_error_text :: "string \<Rightarrow> head_error \<Rightarrow> string" where
  "head_error_text io HeadTimedOut = ''tunnel request header timed out''"
| "head_error_text io (HeadWire e) = wire_error_text io e"

definition read_request_head ::
  "stream_request_head codec \<Rightarrow> reader \<Rightarrow> head_error + stream_request_head \<times> reader" where
  "read_request_head reqc r =
     (case read_json_head reqc MAX_HEAD_LEN r of
        Done hr \<Rightarrow> Inr hr | Fail e \<Rightarrow> Inl (HeadWire e) | Hang \<Rightarrow> Inl HeadTimedOut)"

datatype stream_result = StreamAnswered "(unit, host_error) outcome" | StreamRelaying stream_endpoint "duration option"

fun of_tcp_result :: "tcp_result \<Rightarrow> stream_result" where
  "of_tcp_result (TcpAnswered res) = StreamAnswered res"
| "of_tcp_result (TcpRelaying endpoint idle) = StreamRelaying endpoint idle"

text \<open>The environment of a host: its codecs and what it calls.\<close>

record 'u host_env =
  he_crypto :: crypto_api
  he_urls :: "'u url_api"
  he_http :: http_api
  he_reqc :: "stream_request_head codec"
  he_respc :: "locho_response_head codec"
  he_client :: "'u upstream_client"
  he_connect_timeout :: duration
  he_connect :: "stream_endpoint \<Rightarrow> (unit, unit) outcome"

definition handle_stream ::
  "'u host_env \<Rightarrow> 'u host_services \<Rightarrow> nat \<Rightarrow> reader \<Rightarrow> writer \<Rightarrow> stream_result \<times> reader \<times> writer" where
  "handle_stream env hs free_permits r w =
     (case read_request_head (he_reqc env) r of
        Inl e \<Rightarrow>
          let status = (if contains_str ''timed out'' (head_error_text (uc_io_text (he_client env)) e) then 408 else 400)
          in (case write_error (he_respc env) status w of (res, w) \<Rightarrow> (StreamAnswered res, r, w))
      | Inr (HttpHead req, r) \<Rightarrow>
          (case handle_http_stream (he_crypto env) (he_urls env) (he_http env) (he_respc env) (he_client env) hs req r w of
             (res, w) \<Rightarrow> (StreamAnswered res, r, w))
      | Inr (TcpHead req, r) \<Rightarrow>
          (case handle_tcp_stream (he_crypto env) (he_respc env) (he_connect_timeout env) (he_connect env) hs
                  free_permits req w of
             (res, w) \<Rightarrow> (of_tcp_result res, r, w)))"

text \<open>
  \<open>handle_peer_stream\<close>: what \<open>stopped()\<close> of the send half resolved to, if it did before the
  handler finished. Delivery of the whole send half is not a cancellation.
\<close>

datatype stop_signal = NotStopped | StoppedWithCode | StopLost | FullyDelivered

definition handle_peer_stream :: "stop_signal \<Rightarrow> (unit, host_error) outcome \<Rightarrow> (unit, host_error) outcome" where
  "handle_peer_stream stopped handling =
     (case stopped of
        StoppedWithCode \<Rightarrow> Done ()
      | StopLost \<Rightarrow> Done ()
      | NotStopped \<Rightarrow> handling
      | FullyDelivered \<Rightarrow> handling)"


subsection \<open>The accept loops\<close>

text \<open>
  A running host: the connections being served, the relays (each listed by its connection), the
  free connection permits, and whether it is stopping. A connection ends when \<open>accept_bi\<close> fails
  or shutdown is requested; its stream tasks are then aborted, which releases their permits.
\<close>

record host_state =
  open_conns :: "nat set"
  relays :: "nat list"
  free_tcp :: nat
  stopping :: bool

definition host_start :: host_state where
  "host_start = \<lparr>open_conns = {}, relays = [], free_tcp = MAX_TCP_CONNECTIONS, stopping = False\<rparr>"

definition end_connection :: "nat \<Rightarrow> host_state \<Rightarrow> host_state" where
  "end_connection c s = s\<lparr>open_conns := open_conns s - {c}, relays := filter (\<lambda>d. d \<noteq> c) (relays s),
     free_tcp := free_tcp s + length (filter (\<lambda>d. d = c) (relays s))\<rparr>"

definition start_stream :: "'u host_env \<Rightarrow> 'u host_services \<Rightarrow> nat \<Rightarrow> reader \<Rightarrow> writer \<Rightarrow> host_state \<Rightarrow> host_state" where
  "start_stream env hs c r w s =
     (if c \<in> open_conns s
      then (case handle_stream env hs (free_tcp s) r w of
              (StreamRelaying _ _, _) \<Rightarrow> s\<lparr>relays := c # relays s, free_tcp := free_tcp s - 1\<rparr>
            | _ \<Rightarrow> s)
      else s)"

definition end_relay :: "nat \<Rightarrow> host_state \<Rightarrow> host_state" where
  "end_relay c s =
     (if c \<in> set (relays s) then s\<lparr>relays := remove1 c (relays s), free_tcp := free_tcp s + 1\<rparr> else s)"

definition host_shutdown :: "host_state \<Rightarrow> host_state" where
  "host_shutdown s = s\<lparr>open_conns := {}, relays := [], free_tcp := free_tcp s + length (relays s), stopping := True\<rparr>"

datatype host_action =
    AcceptConnection nat | StreamOpened nat reader writer | RelayEnded nat | ConnectionEnded nat | ShutdownSignal

fun host_step :: "'u host_env \<Rightarrow> 'u host_services \<Rightarrow> host_action \<Rightarrow> host_state \<Rightarrow> host_state" where
  "host_step env hs (AcceptConnection c) s =
     (if stopping s then s else s\<lparr>open_conns := insert c (open_conns s)\<rparr>)"
| "host_step env hs (StreamOpened c r w) s = start_stream env hs c r w s"
| "host_step env hs (RelayEnded c) s = end_relay c s"
| "host_step env hs (ConnectionEnded c) s = end_connection c s"
| "host_step env hs ShutdownSignal s = host_shutdown s"

subsection \<open>Lemmas\<close>

lemma write_error_open:
  assumes "w_limit w = None" "to_vec respc (error_head status) = Some json" "length json < 2 ^ 32"
  shows "write_error respc status w = (Done (), w\<lparr>w_sent := w_sent w @ json_frame json\<rparr>)"
  using assms by (simp add: write_error_def write_json_head_open write_body_def)

lemma find_service_Some: "find_service n svcs = Some svc \<Longrightarrow> svc \<in> set svcs \<and> svc_name svc = n"
  by (auto simp: find_service_def find_Some_iff)

lemma find_service_distinct:
  "distinct (map svc_name svcs) \<Longrightarrow> svc \<in> set svcs \<Longrightarrow> find_service (svc_name svc) svcs = Some svc"
proof (induction svcs)
  case Nil
  then show ?case by simp
next
  case (Cons x svcs)
  then show ?case by (cases "svc = x") (auto simp: find_service_def image_iff)
qed

lemma handle_tcp_relaying:
  assumes "handle_tcp_stream cr respc ct connect hs free req w = (TcpRelaying endpoint idle, w')"
  obtains svc secret where "tcp_version req = PROTOCOL_VERSION" "find_service (tcp_service req) (hs_services hs) = Some svc"
    "hs_secrets hs (svc_name svc) = Some secret" "is_ok (verify_secret_proof cr secret (tcp_secret_proof req))"
    "svc_type svc = Tcp" "stream_endpoint_of svc = Some endpoint" "0 < free" "connect endpoint = Done ()"
    "map_fail HostWire (then_write (write_json_head respc (error_head 200) w) (\<lambda>w. write_body [] w)) = (Done (), w')"
    "resolve_tcp_idle_timeout (svc_tcp_idle_timeout_secs svc) = Inr idle"
  using assms
  by (auto simp: handle_tcp_stream_def connect_within_def Let_def
      split: if_splits option.splits service_type.splits outcome.splits prod.splits sum.splits)

lemma handle_tcp_relays_permit:
  "handle_stream env hs 0 r w \<noteq> (StreamRelaying e i, rw)"
proof
  assume "handle_stream env hs 0 r w = (StreamRelaying e i, rw)"
  then obtain req res w' where "handle_tcp_stream (he_crypto env) (he_respc env) (he_connect_timeout env)
      (he_connect env) hs 0 req w = (res, w')" "of_tcp_result res = StreamRelaying e i"
    by (auto simp: handle_stream_def Let_def split: sum.splits prod.splits stream_request_head.splits)
  then show False
    by (cases res) (auto elim: handle_tcp_relaying)
qed

definition host_inv :: "host_state \<Rightarrow> bool" where
  "host_inv s \<longleftrightarrow> free_tcp s + length (relays s) = MAX_TCP_CONNECTIONS \<and> set (relays s) \<subseteq> open_conns s \<and>
     (stopping s \<longrightarrow> open_conns s = {})"

lemma host_inv_stream: "host_inv s \<Longrightarrow> host_inv (start_stream env hs c r w s)"
proof -
  assume inv: "host_inv s"
  show ?thesis
  proof (cases "\<exists>e i rw. handle_stream env hs (free_tcp s) r w = (StreamRelaying e i, rw)")
    case True
    then have "free_tcp s \<noteq> 0" using handle_tcp_relays_permit by metis
    with True inv show ?thesis by (auto simp: start_stream_def host_inv_def)
  next
    case False
    then have "start_stream env hs c r w s = s"
      by (auto simp: start_stream_def split: prod.splits stream_result.splits)
    with inv show ?thesis by simp
  qed
qed

lemma filter_partition_length: "length (filter (\<lambda>d. d = c) xs) + length (filter (\<lambda>d. d \<noteq> c) xs) = length xs"
  by (induction xs) auto

lemma host_inv_step: "host_inv s \<Longrightarrow> host_inv (host_step env hs a s)"
proof (cases a)
  case (ConnectionEnded c)
  assume "host_inv s"
  with ConnectionEnded filter_partition_length [of c "relays s"] show ?thesis
    by (auto simp: host_inv_def end_connection_def)
next
  case (RelayEnded c)
  assume "host_inv s"
  moreover have "length (remove1 c (relays s)) + 1 = length (relays s)" if "c \<in> set (relays s)"
    using that length_pos_if_in_set [OF that] by (simp add: length_remove1)
  ultimately show ?thesis
    using RelayEnded set_remove1_subset [of c "relays s"] by (auto simp: host_inv_def end_relay_def)
qed (auto simp: host_inv_stream, auto simp: host_inv_def host_shutdown_def)

interpretation hosts: invariant_system host_start "host_step env hs" host_inv for env hs
  by unfold_locales (auto simp: host_inv_step, simp add: host_inv_def host_start_def)


lemma prepare_secrets_eq:
  fixes services :: "'a service_config list"
  assumes "distinct (map svc_name services)"
  shows "prepare_secrets fresh services persisted name =
    (if name \<in> svc_name ` set services
     then Some (case persisted name of None \<Rightarrow> fresh name | Some secret \<Rightarrow> secret) else None)"
proof -
  have "add_missing fresh svcs m n =
      (if n \<in> svc_name ` set svcs \<and> m n = None then Some (fresh n) else m n)"
    if "distinct (map svc_name svcs)" for svcs :: "'a service_config list" and m n
    using that
  proof (induction svcs arbitrary: m)
    case Nil
    then show ?case by simp
  next
    case (Cons svc svcs)
    then show ?case by (cases "m (svc_name svc)"; cases "n = svc_name svc") auto
  qed
  from this [OF assms] show ?thesis by (auto simp: prepare_secrets_def split: option.split)
qed

lemma prepare_clients_Some:
  assumes "svc \<in> set services" "svc_type svc = Http"
  shows "prepare_clients services (svc_name svc) \<noteq> None"
  using assms by (auto simp: prepare_clients_def map_of_eq_None_iff image_iff)

lemma out_bind_Fail_iff: "out_bind m f = Fail e \<longleftrightarrow> m = Fail e \<or> (\<exists>x. m = Done x \<and> f x = Fail e)"
  by (cases m) auto

lemma read_exact_Fail: "read_exact e n r = Fail e' \<Longrightarrow> e' = e"
  by (auto simp: read_exact_def split: if_splits)

lemma read_json_head_Fail:
  assumes "read_json_head c n r = Fail e"
  shows "e \<in> {ReadHeaderLength, HeaderExceedsLimit, ReadHeader, DecodeHeader}"
proof -
  define k where "k = (\<lambda>(prefix, r). let len = unat (from_be_bytes prefix) in
      if n < len then Fail HeaderExceedsLimit
      else out_bind (read_exact ReadHeader len r) (\<lambda>(data, r).
        case from_slice c data of None \<Rightarrow> Fail DecodeHeader | Some v \<Rightarrow> Done (v, r)))"
  have k: "k x = Fail e \<Longrightarrow> e \<in> {HeaderExceedsLimit, ReadHeader, DecodeHeader}" for x
    unfolding k_def Let_def
    by (cases x) (auto simp: out_bind_Fail_iff dest: read_exact_Fail split: if_splits option.splits)
  from assms have "out_bind (read_exact ReadHeaderLength 4 r) k = Fail e"
    by (simp only: read_json_head_def k_def)
  then consider "read_exact ReadHeaderLength 4 r = Fail e" | x where "k x = Fail e"
    unfolding out_bind_Fail_iff by blast
  then show ?thesis
  proof cases
    case 1
    from read_exact_Fail [OF this] show ?thesis by simp
  next
    case 2
    from k [OF this] show ?thesis by blast
  qed
qed

lemma no_timed_out_text:
  assumes "read_json_head c n r = Fail e"
  shows "\<not> contains_str ''timed out'' (wire_error_text io e)"
proof -
  have texts: "\<not> contains_str ''timed out'' ''read tunnel header length''"
    "\<not> contains_str ''timed out'' ''tunnel header exceeds limit''" "\<not> contains_str ''timed out'' ''read tunnel header''"
    "\<not> contains_str ''timed out'' ''decode tunnel header''"
    by code_simp+
  from read_json_head_Fail [OF assms] consider "e = ReadHeaderLength" | "e = HeaderExceedsLimit"
    | "e = ReadHeader" | "e = DecodeHeader" by blast
  then show ?thesis using texts by cases (simp_all only: wire_error_text.simps not_False_eq_True)
qed

lemma head_timeout_text: "contains_str ''timed out'' ''tunnel request header timed out''"
  by code_simp

lemma validate_http_request_Inr_iff:
  assumes "ct_eq_is_equality cr"
  shows "validate_http_request cr hs req = Inr req' \<longleftrightarrow> req' = req \<and> req_version req = PROTOCOL_VERSION \<and>
    (\<exists>svc secret. find_service (req_service req) (hs_services hs) = Some svc \<and> svc_type svc = Http \<and>
       hs_secrets hs (svc_name svc) = Some secret \<and> req_secret_proof req = secret_proof cr secret)"
  using verify_secret_proof_iff [OF assms]
  by (auto simp: validate_http_request_def result_simps split: if_splits)


lemma write_error_fails:
  "fst (write_error respc st w) = Fail e \<Longrightarrow> \<exists>x. e = HostWire x"
  by (cases "then_write (write_json_head respc (error_head st) w) (\<lambda>w. write_body [] w)";
      cases "fst (then_write (write_json_head respc (error_head st) w) (\<lambda>w. write_body [] w))")
    (auto simp: write_error_def)

lemma validate_http_request_service:
  assumes "validate_http_request cr hs req = Inr req'"
  obtains svc where "req' = req" "find_service (req_service req) (hs_services hs) = Some svc" "svc_type svc = Http"
  using assms by (auto simp: validate_http_request_def result_simps split: if_splits)

lemma handle_http_no_panic:
  assumes clients: "\<And>n svc. find_service n (hs_services hs) = Some svc \<Longrightarrow> svc_type svc = Http \<Longrightarrow>
      hs_clients hs (svc_name svc) \<noteq> None"
  shows "fst (handle_http_stream cr api h respc uc hs req r w) \<noteq> Fail HostPanic"
proof (cases "validate_http_request cr hs req")
  case (Inl st)
  then show ?thesis using write_error_fails [of respc st w HostPanic] by (auto simp: handle_http_stream_def)
next
  case (Inr req')
  from validate_http_request_service [OF Inr] obtain svc where
    svc: "req' = req" "find_service (req_service req) (hs_services hs) = Some svc" "svc_type svc = Http" .
  from clients [OF svc(2,3)] obtain t where t: "hs_clients hs (svc_name svc) = Some t" by blast
  have we: "fst (write_error respc st w') \<noteq> Fail HostPanic" for st w'
    using write_error_fails [of respc st w' HostPanic] by auto
  show ?thesis
  proof (cases "svc_upstream svc")
    case None
    with Inr svc we show ?thesis by (simp add: handle_http_stream_def)
  next
    case (Some upstream)
    obtain res started w' where f: "forward_to_upstream_with_state api h respc (uc_decimal uc) (uc_send uc) (uc_room uc)
        upstream req r w = (res, started, w')" by (metis prod_cases3)
    from Inr svc t Some f we show ?thesis by (cases res) (simp_all add: handle_http_stream_def)
  qed
qed

lemma handle_tcp_no_panic:
  assumes "\<And>n svc. find_service n (hs_services hs) = Some svc \<Longrightarrow> hs_secrets hs (svc_name svc) \<noteq> None"
    and "\<And>n svc. find_service n (hs_services hs) = Some svc \<Longrightarrow> svc_type svc = Tcp \<Longrightarrow>
      is_ok (resolve_tcp_idle_timeout (svc_tcp_idle_timeout_secs svc))"
    and "fst (handle_tcp_stream cr respc ct connect hs free req w) = TcpAnswered (Fail e)"
  shows "\<exists>x. e = HostWire x"
proof -
  let ?ok = "then_write (write_json_head respc (error_head 200) w) (\<lambda>w. write_body [] w)"
  obtain o1 w1 where o1: "?ok = (o1, w1)" by fastforce
  have we: "(case write_error respc st w of (res, w) \<Rightarrow> (TcpAnswered res, w)) = (TcpAnswered (Fail e), w') \<Longrightarrow>
      \<exists>x. e = HostWire x" for st w'
    using write_error_fails [of respc st w e] by (auto split: prod.splits)
  from assms(3) obtain w' where h: "handle_tcp_stream cr respc ct connect hs free req w = (TcpAnswered (Fail e), w')"
    by (metis prod.collapse)
  show ?thesis
  proof (cases "find_service (tcp_service req) (hs_services hs)")
    case None
    with h we show ?thesis by (auto simp: handle_tcp_stream_def Let_def split: if_splits)
  next
    case (Some svc)
    from assms(1) [OF Some] obtain secret where secret: "hs_secrets hs (svc_name svc) = Some secret" by blast
    have idle: "svc_type svc = Tcp \<Longrightarrow> \<exists>d. resolve_tcp_idle_timeout (svc_tcp_idle_timeout_secs svc) = Inr d"
      using assms(2) [OF Some] by (auto simp: is_ok_iff)
    show ?thesis
      using h Some secret idle o1
      by (cases o1) (auto simp: handle_tcp_stream_def Let_def dest!: we
          split: if_splits service_type.splits option.splits outcome.splits)
  qed
qed

subsection \<open>Properties\<close>

text \<open>
  C5. Authorization of TCP streams: the host relays a stream only to the endpoint configured for
  the TCP service it names, only for the protocol version it speaks and a proof that is the proof
  of that service's current secret, with a free permit, after connecting to that endpoint; and by
  then the peer has been sent exactly one head, the success head.
\<close>

theorem tcp_relay_authorized:
  assumes "ct_eq_is_equality cr"
    and "handle_tcp_stream cr respc ct connect hs free req w = (TcpRelaying endpoint idle, w')"
  shows "tcp_version req = PROTOCOL_VERSION \<and> 0 < free \<and> connect endpoint = Done () \<and>
    (\<exists>svc secret json. svc \<in> set (hs_services hs) \<and> svc_name svc = tcp_service req \<and> svc_type svc = Tcp \<and>
       hs_secrets hs (svc_name svc) = Some secret \<and> tcp_secret_proof req = secret_proof cr secret \<and>
       stream_endpoint_of svc = Some endpoint \<and>
       resolve_tcp_idle_timeout (svc_tcp_idle_timeout_secs svc) = Inr idle \<and>
       to_vec respc (error_head 200) = Some json \<and> w_sent w' = w_sent w @ json_frame json)"
proof -
  from handle_tcp_relaying [OF assms(2)] obtain svc secret where
    s: "tcp_version req = PROTOCOL_VERSION" "find_service (tcp_service req) (hs_services hs) = Some svc"
    "hs_secrets hs (svc_name svc) = Some secret" "is_ok (verify_secret_proof cr secret (tcp_secret_proof req))"
    "svc_type svc = Tcp" "stream_endpoint_of svc = Some endpoint" "0 < free" "connect endpoint = Done ()"
    and w: "map_fail HostWire (then_write (write_json_head respc (error_head 200) w) (\<lambda>w. write_body [] w)) = (Done (), w')"
    and i: "resolve_tcp_idle_timeout (svc_tcp_idle_timeout_secs svc) = Inr idle" .
  obtain o1 w1 where w1: "write_json_head respc (error_head 200) w = (o1, w1)" by fastforce
  with w have o1: "o1 = Done ()" and w': "write_body [] w1 = (Done (), w')"
    by (cases o1; cases "write_body [] w1"; cases "fst (write_body [] w1)"; simp)+
  from w' have "w_sent w' = w_sent w1" by (auto simp: write_body_def write_all_def split: option.splits)
  with write_json_head_Done [OF w1 [unfolded o1]] obtain json where
    "to_vec respc (error_head 200) = Some json" "w_sent w' = w_sent w @ json_frame json" by auto
  moreover have "tcp_secret_proof req = secret_proof cr secret"
    using s(4) verify_secret_proof_iff [OF assms(1)] by (auto simp: is_ok_iff)
  ultimately show ?thesis using s i find_service_Some [OF s(2)] by blast
qed

definition demo_host :: "string host_services" where
  "demo_host = prepare_services (\<lambda>_. ''k'') [demo_tcp_service, demo_http_service] Map.empty"

definition demo_tcp_request :: tcp_request_head where
  "demo_tcp_request = \<lparr>tcp_version = PROTOCOL_VERSION, tcp_service = ''db'',
     tcp_secret_proof = secret_proof sample_crypto ''k''\<rparr>"

lemma demo_tcp_relay:
  "handle_tcp_stream sample_crypto (sample_head_codec (error_head 200)) TCP_CONNECT_TIMEOUT (\<lambda>_. Done ())
     demo_host 128 demo_tcp_request \<lparr>w_sent = [], w_limit = None\<rparr> =
   (TcpRelaying (TcpEndpoint \<lparr>sa_ip = V4 0x7F000001, sa_port = 5432\<rparr>) (Some (from_secs 30)),
    \<lparr>w_sent = json_frame ''{}'', w_limit = None\<rparr>)"
proof -
  have proof_ok: "is_ok (verify_secret_proof sample_crypto ''k'' (secret_proof sample_crypto ''k''))"
    by code_simp
  have svc: "find_service ''db'' (hs_services demo_host) = Some demo_tcp_service"
    "hs_secrets demo_host ''db'' = Some ''k''"
    by (simp_all add: demo_host_def prepare_services_def find_service_def demo_tcp_service_def demo_http_service_def
        prepare_secrets_def)
  have idle: "resolve_tcp_idle_timeout (Some 30) = Inr (Some (from_secs 30))"
    by (simp add: resolve_tcp_idle_timeout_def MAX_TCP_IDLE_TIMEOUT_SECS_def)
  have "TCP_CONNECT_TIMEOUT \<noteq> 0" by (simp add: TCP_CONNECT_TIMEOUT_def from_secs_def)
  with proof_ok svc idle show ?thesis
    by (simp add: handle_tcp_stream_def demo_tcp_request_def demo_tcp_service_def stream_endpoint_of_def
        connect_within_def write_json_head_open sample_head_codec_def write_body_def Let_def)
qed

theorem tcp_relay_authorized_witness:
  "tcp_secret_proof demo_tcp_request = secret_proof sample_crypto ''k'' \<and>
   (\<exists>svc \<in> set (hs_services demo_host). svc_name svc = ''db'' \<and> svc_type svc = Tcp)"
proof -
  have ct: "ct_eq_is_equality sample_crypto" by (simp add: ct_eq_is_equality_def sample_crypto_def)
  from tcp_relay_authorized [OF ct demo_tcp_relay] show ?thesis
    by (auto simp: demo_tcp_request_def)
qed


text \<open>
  C9. Authorization of HTTP streams: a request whose proof is not the proof of the current secret
  of a configured HTTP service of that name, or that speaks another protocol version, never
  reaches an upstream. The outcome is one error answer (400, 403 or 404) and the same whatever the
  HTTP client would have done and whatever body follows.
\<close>

theorem http_unauthorized_contained:
  assumes "ct_eq_is_equality cr"
    and "req_version req \<noteq> PROTOCOL_VERSION \<or>
      (\<forall>svc secret. find_service (req_service req) (hs_services hs) = Some svc \<and> svc_type svc = Http \<and>
         hs_secrets hs (svc_name svc) = Some secret \<longrightarrow> req_secret_proof req \<noteq> secret_proof cr secret)"
  shows "\<exists>status \<in> {400, 403, 404}. \<forall>uc r.
    handle_http_stream cr api h respc uc hs req r w = write_error respc status w"
proof -
  from assms(2) have "validate_http_request cr hs req \<noteq> Inr req'" for req'
    unfolding validate_http_request_Inr_iff [OF assms(1)] by blast
  then obtain status where v: "validate_http_request cr hs req = Inl status"
    by (cases "validate_http_request cr hs req") auto
  then have "status \<in> {400, 403, 404}"
    by (auto simp: validate_http_request_def result_simps split: if_splits)
  with v show ?thesis by (auto simp: handle_http_stream_def)
qed

definition demo_http_request :: "string \<Rightarrow> locho_request_head" where
  "demo_http_request p = \<lparr>req_version = PROTOCOL_VERSION, req_service = ''web'', req_secret_proof = p,
     req_method = ''GET'', req_path_and_query = ''/'', req_headers = [], req_body_len = Some 0\<rparr>"

theorem http_unauthorized_contained_witness:
  "\<exists>status \<in> {400, 403, 404}. \<forall>uc r. handle_http_stream sample_crypto scheme_urls plain_http
     (sample_head_codec (error_head 403)) uc demo_host (demo_http_request ''guess'') r \<lparr>w_sent = [], w_limit = None\<rparr> =
   write_error (sample_head_codec (error_head 403)) status \<lparr>w_sent = [], w_limit = None\<rparr>"
proof -
  have "hs_secrets demo_host ''web'' = Some ''k''"
    "find_service ''web'' (hs_services demo_host) = Some demo_http_service" "svc_name demo_http_service = ''web''"
    by (simp_all add: demo_host_def prepare_services_def find_service_def demo_tcp_service_def demo_http_service_def
        prepare_secrets_def)
  moreover have "secret_proof sample_crypto ''k'' \<noteq> ''guess''" by code_simp
  ultimately show ?thesis
    by (intro http_unauthorized_contained) (auto simp: demo_http_request_def)
qed

text \<open>
  C15. The host's assertions hold: for services prepared from a validated configuration, whatever
  secrets were persisted, no HTTP stream reaches one of the handler's \<open>expect\<close>s, and a TCP stream
  fails only when writing to its tunnel fails: it never finds its service without a secret or the
  service's idle timeout out of range.
\<close>

theorem prepared_host_never_panics:
  assumes "config_validate api it rf pem services = Inr ()"
  shows "fst (handle_http_stream cr api h respc uc (prepare_services fresh services persisted) req r w) \<noteq> Fail HostPanic \<and>
    (\<forall>e. fst (handle_tcp_stream cr respc ct connect (prepare_services fresh services persisted) free treq w)
      = TcpAnswered (Fail e) \<longrightarrow> (\<exists>x. e = HostWire x))"
proof -
  have names: "distinct (map svc_name services)"
    using validated_names [OF assms] .
  have "prepare_secrets fresh services persisted (svc_name svc) \<noteq> None" if "find_service n services = Some svc" for n svc
    using find_service_Some [OF that] by (auto simp: prepare_secrets_eq [OF names])
  moreover have "is_ok (resolve_tcp_idle_timeout (svc_tcp_idle_timeout_secs svc))"
    if "find_service n services = Some svc" "svc_type svc = Tcp" for n svc
    using validated_service_ok [OF assms, of svc] find_service_Some [OF that(1)] that(2)
    by (auto simp: validate_service_def validate_tcp_service_def result_simps is_ok_iff Let_def split: if_splits)
  moreover have "prepare_clients services (svc_name svc) \<noteq> None"
    if "find_service n services = Some svc" "svc_type svc = Http" for n svc
    using find_service_Some [OF that(1)] prepare_clients_Some [of svc services] that(2) by blast
  ultimately show ?thesis
    using handle_http_no_panic [of "prepare_services fresh services persisted" cr api h respc uc req r w]
      handle_tcp_no_panic [of "prepare_services fresh services persisted" cr respc ct connect free treq w]
    by (simp add: prepare_services_def)
qed


definition demo_env :: "string host_env" where
  "demo_env = \<lparr>he_crypto = sample_crypto, he_urls = scheme_urls, he_http = plain_http,
     he_reqc = sample_head_codec (TcpHead demo_tcp_request), he_respc = sample_head_codec (error_head 200),
     he_client = \<lparr>uc_send = (\<lambda>_. ReplyHang), uc_room = None, uc_decimal = (\<lambda>_. []), uc_io_text = []\<rparr>,
     he_connect_timeout = TCP_CONNECT_TIMEOUT, he_connect = (\<lambda>_. Done ())\<rparr>"

theorem prepared_host_never_panics_witness:
  "fst (handle_http_stream sample_crypto scheme_urls plain_http (sample_head_codec (error_head 403)) (he_client demo_env)
     (prepare_services (\<lambda>_. ''k'') [demo_tcp_service] Map.empty) (demo_http_request ''p'')
     \<lparr>r_bytes = [], r_end = Eof\<rparr> \<lparr>w_sent = [], w_limit = None\<rparr>) \<noteq> Fail HostPanic"
  using prepared_host_never_panics [OF demo_services_valid(2)] by blast

text \<open>
  Service secrets across restarts: after the host prepares its services, exactly the
  configured services have a secret; a service that had one keeps it, a new one gets the freshly
  generated one, and the secret of a service that left the configuration is gone.
\<close>

theorem prepared_secrets_stable:
  assumes "config_validate api it rf pem services = Inr ()"
  shows "hs_secrets (prepare_services fresh services persisted) name =
    (if name \<in> svc_name ` set services
     then Some (case persisted name of None \<Rightarrow> fresh name | Some secret \<Rightarrow> secret) else None)"
  using prepare_secrets_eq [OF validated_names [OF assms]] by (simp add: prepare_services_def)

theorem prepared_secrets_stable_witness:
  "hs_secrets (prepare_services (\<lambda>_. ''new'') [demo_tcp_service] [''db'' \<mapsto> ''old'', ''gone'' \<mapsto> ''x'']) ''db'' = Some ''old'' \<and>
   hs_secrets (prepare_services (\<lambda>_. ''new'') [demo_tcp_service] [''db'' \<mapsto> ''old'', ''gone'' \<mapsto> ''x'']) ''gone'' = None"
proof -
  note demo_services_valid(2) [THEN prepared_secrets_stable, of "\<lambda>_. ''new''" "[''db'' \<mapsto> ''old'', ''gone'' \<mapsto> ''x'']"]
  from this [of "''db''"] this [of "''gone''"] show ?thesis by (simp add: demo_tcp_service_def)
qed


lemma demo_stream:
  "handle_stream demo_env demo_host 128 \<lparr>r_bytes = json_frame ''{}'' @ [], r_end = Eof\<rparr> \<lparr>w_sent = [], w_limit = None\<rparr> =
   (StreamRelaying (TcpEndpoint \<lparr>sa_ip = V4 0x7F000001, sa_port = 5432\<rparr>) (Some (from_secs 30)),
    \<lparr>r_bytes = [], r_end = Eof\<rparr>, \<lparr>w_sent = json_frame ''{}'', w_limit = None\<rparr>)"
  using demo_tcp_relay read_json_frame [where c = "sample_head_codec (TcpHead demo_tcp_request)" and json = "''{}''"
        and v = "TcpHead demo_tcp_request" and max_len = MAX_HEAD_LEN
        and r = "\<lparr>r_bytes = [], r_end = Eof\<rparr>" and bs = "[]"]
  by (simp add: handle_stream_def read_request_head_def demo_env_def sample_head_codec_def MAX_HEAD_LEN_def)


text \<open>
  Malformed and late request heads: the host answers 408 exactly when the head never arrives
  completely within the handshake timeout, and 400 when it is too long, cut off or not a head;
  the test for the words \<open>timed out\<close> in the error text tells the two apart for every such error.
\<close>

theorem head_errors_answered:
  assumes "\<And>h r'. read_json_head (he_reqc env) MAX_HEAD_LEN r \<noteq> Done (h, r')"
  shows "handle_stream env hs free r w =
    (case write_error (he_respc env) (if read_json_head (he_reqc env) MAX_HEAD_LEN r = Hang then 408 else 400) w of
       (res, w) \<Rightarrow> (StreamAnswered res, r, w))"
proof (cases "read_json_head (he_reqc env) MAX_HEAD_LEN r")
  case (Done p)
  with assms show ?thesis by (cases p) auto
next
  case (Fail e)
  from Fail no_timed_out_text [OF Fail] show ?thesis
    by (simp add: handle_stream_def read_request_head_def Let_def)
next
  case Hang
  with head_timeout_text show ?thesis
    by (simp add: handle_stream_def read_request_head_def Let_def)
qed

theorem head_errors_answered_witness:
  "fst (handle_stream demo_env demo_host 128 \<lparr>r_bytes = ''ab'', r_end = Stalled\<rparr> \<lparr>w_sent = [], w_limit = None\<rparr>) =
     StreamAnswered (Done ())"
proof -
  have "read_json_head (he_reqc demo_env) MAX_HEAD_LEN \<lparr>r_bytes = ''ab'', r_end = Stalled\<rparr> = Hang"
    by (simp add: read_json_head_def read_exact_def)
  with head_errors_answered [of demo_env "\<lparr>r_bytes = ''ab'', r_end = Stalled\<rparr>" demo_host 128 "\<lparr>w_sent = [], w_limit = None\<rparr>"]
  show ?thesis
    by (simp add: write_error_def demo_env_def sample_head_codec_def write_json_head_open write_body_def)
qed

end
