(* ===== verification/Tunnel.thy ===== *)
theory Tunnel
  imports Attach_Http Host
begin

text \<open>
  The two ends of the tunnel together: the client's TCP handshake against the host's stream
  handler, and a local HTTP request on its way to the upstream and back. What one end has written
  is what the other end reads; the transport adds nothing.

  \<open>tcp_verdict\<close> is the contract of the TCP handshake, stated without any wire format: the status
  the host decides on for a capability. The lemmas show that the host's handler and the client's
  \<open>authorize_tcp\<close> implement it.
\<close>

subsection \<open>The contract of the TCP handshake\<close>

definition tcp_verdict :: "'u host_env \<Rightarrow> 'u host_services \<Rightarrow> nat \<Rightarrow> capability \<Rightarrow> u16" where
  "tcp_verdict env hs free cap =
     (case find_service (cap_service cap) (hs_services hs) of
        None \<Rightarrow> 404
      | Some svc \<Rightarrow>
          if map_option (secret_proof (he_crypto env)) (hs_secrets hs (svc_name svc)) \<noteq>
             Some (secret_proof (he_crypto env) (cap_secret cap)) then 403
          else if svc_type svc \<noteq> Tcp then 400
          else
            (case stream_endpoint_of svc of
               None \<Rightarrow> 400
             | Some endpoint \<Rightarrow>
                 if free = 0 then 429
                 else if he_connect_timeout env = 0 then 504
                 else (case he_connect env endpoint of Done _ \<Rightarrow> 200 | Fail _ \<Rightarrow> 502 | Hang \<Rightarrow> 504)))"

text \<open>A new stream: nothing written yet, and a peer that takes everything.\<close>

abbreviation new_writer :: writer where
  "new_writer \<equiv> \<lparr>w_sent = [], w_limit = None\<rparr>"

definition codecs_ok :: "stream_request_head codec \<Rightarrow> locho_response_head codec \<Rightarrow> bool" where
  "codecs_ok reqc respc \<longleftrightarrow> codec_roundtrip reqc \<and> codec_roundtrip respc \<and>
     (\<forall>st. \<exists>json. to_vec respc (error_head st) = Some json \<and> length json \<le> MAX_HEAD_LEN)"

lemma head_len_small: "length json \<le> MAX_HEAD_LEN \<Longrightarrow> length json < 2 ^ 32"
  by (simp add: MAX_HEAD_LEN_def)

lemma error_head_encodes:
  assumes "codecs_ok reqc respc"
  obtains json where "to_vec respc (error_head st) = Some json" "length json \<le> MAX_HEAD_LEN"
    "from_slice respc json = Some (error_head st)"
  using assms by (fastforce simp: codecs_ok_def codec_roundtrip_def)

lemma write_error_new:
  assumes "codecs_ok reqc respc"
  shows "\<exists>json. write_error respc st new_writer = (Done (), \<lparr>w_sent = json_frame json, w_limit = None\<rparr>) \<and>
    from_slice respc json = Some (error_head st) \<and> length json \<le> MAX_HEAD_LEN"
proof -
  from error_head_encodes [OF assms] obtain json where
    j: "to_vec respc (error_head st) = Some json" "length json \<le> MAX_HEAD_LEN"
    "from_slice respc json = Some (error_head st)" .
  from write_error_open [of new_writer respc st json] j head_len_small [OF j(2)] show ?thesis by auto
qed

text \<open>The frame the host has sent for a status.\<close>

definition answered :: "locho_response_head codec \<Rightarrow> u16 \<Rightarrow> writer \<Rightarrow> bool" where
  "answered respc st w \<longleftrightarrow> (\<exists>json. w = \<lparr>w_sent = json_frame json, w_limit = None\<rparr> \<and>
     from_slice respc json = Some (error_head st) \<and> length json \<le> MAX_HEAD_LEN)"

lemma write_error_answered:
  assumes "codecs_ok reqc respc"
  shows "\<exists>w. write_error respc st new_writer = (Done (), w) \<and> answered respc st w"
  using write_error_new [OF assms, of st] unfolding answered_def by blast

lemma success_answered:
  assumes "codecs_ok reqc respc"
  shows "\<exists>w. map_fail HostWire (then_write (write_json_head respc (error_head 200) new_writer) (\<lambda>w. write_body [] w)) =
    (Done (), w) \<and> answered respc 200 w"
  using write_error_answered [OF assms, of 200] by (simp add: write_error_def)


lemma handle_tcp_verdict:
  assumes codecs: "codecs_ok reqc (he_respc env)" and ct: "ct_eq_is_equality (he_crypto env)"
    and config: "config_validate api it rf pem (hs_services hs) = Inr ()"
    and secrets: "\<And>n svc. find_service n (hs_services hs) = Some svc \<Longrightarrow> hs_secrets hs (svc_name svc) \<noteq> None"
  shows "\<exists>w res. handle_tcp_stream (he_crypto env) (he_respc env) (he_connect_timeout env) (he_connect env) hs free
      \<lparr>tcp_version = PROTOCOL_VERSION, tcp_service = cap_service cap,
       tcp_secret_proof = secret_proof (he_crypto env) (cap_secret cap)\<rparr> new_writer = (res, w) \<and>
    answered (he_respc env) (tcp_verdict env hs free cap) w \<and>
    (if tcp_verdict env hs free cap = 200 then \<exists>endpoint idle. res = TcpRelaying endpoint idle
     else res = TcpAnswered (Done ()))"
proof -
  let ?req = "\<lparr>tcp_version = PROTOCOL_VERSION, tcp_service = cap_service cap,
       tcp_secret_proof = secret_proof (he_crypto env) (cap_secret cap)\<rparr>"
  from write_error_answered [OF codecs] obtain wr where
    wr: "write_error (he_respc env) st new_writer = (Done (), wr st)" "answered (he_respc env) st (wr st)" for st
    by metis
  from success_answered [OF codecs] obtain w200 where w200:
    "map_fail HostWire (then_write (write_json_head (he_respc env) (error_head 200) new_writer) (\<lambda>w. write_body [] w)) =
      (Done (), w200)" "answered (he_respc env) 200 w200" by blast
  show ?thesis
  proof (cases "find_service (cap_service cap) (hs_services hs)")
    case None
    with wr show ?thesis by (simp add: handle_tcp_stream_def tcp_verdict_def Let_def)
  next
    case (Some svc)
    from secrets [OF Some] obtain secret where secret: "hs_secrets hs (svc_name svc) = Some secret" by blast
    have proof_iff: "is_ok (verify_secret_proof (he_crypto env) secret (secret_proof (he_crypto env) (cap_secret cap))) \<longleftrightarrow>
        secret_proof (he_crypto env) secret = secret_proof (he_crypto env) (cap_secret cap)"
      using verify_secret_proof_iff [OF ct] by (auto simp: is_ok_iff)
    have idle: "svc_type svc = Tcp \<Longrightarrow> \<exists>d. resolve_tcp_idle_timeout (svc_tcp_idle_timeout_secs svc) = Inr d"
      using validated_service_ok [OF config, of svc] find_service_Some [OF Some]
      by (auto simp: validate_service_def validate_tcp_service_def result_simps is_ok_iff Let_def split: if_splits)
    show ?thesis
    proof (cases "secret_proof (he_crypto env) secret = secret_proof (he_crypto env) (cap_secret cap) \<and> svc_type svc = Tcp")
      case False
      with Some secret proof_iff wr show ?thesis
        by (cases "svc_type svc") (auto simp: handle_tcp_stream_def tcp_verdict_def Let_def)
    next
      case True
      from idle True obtain d where "resolve_tcp_idle_timeout (svc_tcp_idle_timeout_secs svc) = Inr d" by blast
      with Some secret proof_iff wr w200 True show ?thesis
        by (cases "stream_endpoint_of svc"; cases "he_connect env (the (stream_endpoint_of svc))")
          (simp_all add: handle_tcp_stream_def tcp_verdict_def connect_within_def Let_def)
    qed
  qed
qed

text \<open>The client's request bytes, and what the client makes of an answer.\<close>

lemma authorize_tcp_sends:
  assumes "to_vec reqc (tcp_head_of cr cap) = Some json" "length json \<le> MAX_HEAD_LEN"
  shows "w_sent (snd (authorize_tcp cr reqc respc cap new_writer r)) = json_frame json"
  using write_json_head_open [of new_writer reqc "tcp_head_of cr cap" json] assms head_len_small [OF assms(2)]
  by (auto simp: authorize_tcp_def split: outcome.split sum.split prod.split)

lemma authorize_tcp_answered:
  assumes "to_vec reqc (tcp_head_of cr cap) = Some json" "length json \<le> MAX_HEAD_LEN" "answered respc st hw"
  shows "fst (authorize_tcp cr reqc respc cap new_writer \<lparr>r_bytes = w_sent hw @ later, r_end = e\<rparr>) =
    (if st = 200 then Done \<lparr>r_bytes = later, r_end = e\<rparr>
     else Fail (if 100 \<le> st \<and> st \<le> 599 then SessServiceRejected st else SessProtocol))"
proof -
  from assms(3) obtain ans where ans: "hw = \<lparr>w_sent = json_frame ans, w_limit = None\<rparr>"
    "from_slice respc ans = Some (error_head st)" "length ans \<le> MAX_HEAD_LEN" by (auto simp: answered_def)
  have "read_json_head respc MAX_HEAD_LEN (\<lparr>r_bytes = [], r_end = e\<rparr>\<lparr>r_bytes := json_frame ans @ later\<rparr>) =
      Done (error_head st, \<lparr>r_bytes = [], r_end = e\<rparr>\<lparr>r_bytes := later\<rparr>)"
    by (rule read_json_frame [OF ans(2,3) head_len_small [OF ans(3)]])
  with ans(1) write_json_head_open [of new_writer reqc "tcp_head_of cr cap" json] assms(1) head_len_small [OF assms(2)]
  show ?thesis by (simp add: authorize_tcp_def check_tcp_response_def error_head_def)
qed

lemma handle_stream_tcp:
  assumes "from_slice (he_reqc env) json = Some (TcpHead req)" "length json \<le> MAX_HEAD_LEN"
    "handle_tcp_stream (he_crypto env) (he_respc env) (he_connect_timeout env) (he_connect env) hs free req w = (res, w')"
  shows "handle_stream env hs free \<lparr>r_bytes = json_frame json @ later, r_end = e\<rparr> w =
    (of_tcp_result res, \<lparr>r_bytes = later, r_end = e\<rparr>, w')"
proof -
  have "read_json_head (he_reqc env) MAX_HEAD_LEN (\<lparr>r_bytes = [], r_end = e\<rparr>\<lparr>r_bytes := json_frame json @ later\<rparr>) =
      Done (TcpHead req, \<lparr>r_bytes = [], r_end = e\<rparr>\<lparr>r_bytes := later\<rparr>)"
    by (rule read_json_frame [OF assms(1,2) head_len_small [OF assms(2)]])
  with assms(3) show ?thesis by (simp add: handle_stream_def read_request_head_def)
qed

lemma tcp_verdict_range: "tcp_verdict env hs free cap \<in> {200, 400, 403, 404, 429, 502, 504}"
  by (simp add: tcp_verdict_def split: option.split outcome.split)

lemma tcp_verdict_rejected:
  "tcp_verdict env hs free cap \<noteq> 200 \<Longrightarrow> 100 \<le> tcp_verdict env hs free cap \<and> tcp_verdict env hs free cap \<le> 599"
  using tcp_verdict_range [of env hs free cap] by auto

lemma prepared_secret:
  assumes "config_validate api it rf pem services = Inr ()"
    "find_service n (hs_services (prepare_services fresh services persisted)) = Some svc"
  shows "hs_secrets (prepare_services fresh services persisted) (svc_name svc) \<noteq> None"
  using assms find_service_Some [of n services svc]
  by (auto simp: prepare_services_def prepare_secrets_eq [OF validated_names [OF assms(1)]])

subsection \<open>The contract of an HTTP request\<close>

text \<open>
  The request body an upstream sees for the data frames of a local request, and the request it
  gets: the one the service's configuration and the local request determine, if the service is an
  HTTP service with this secret and the path and the method are acceptable.
\<close>

definition tunnelled_body :: "u64 option \<Rightarrow> bytes list \<Rightarrow> request_body" where
  "tunnelled_body len ds =
     (case len of
        None \<Rightarrow> EndedBody (pieces ds)
      | Some n \<Rightarrow> if n = 0 then NoBody else EndedBody (chunks_of BODY_CHUNK_LEN (concat ds)))"

definition http_route ::
  "'u host_env \<Rightarrow> 'u host_services \<Rightarrow> http_tunnel_request \<Rightarrow> bytes list \<Rightarrow> 'u upstream_request option" where
  "http_route env hs req ds =
     (case find_service (tr_service req) (hs_services hs) of
        None \<Rightarrow> None
      | Some svc \<Rightarrow>
          if svc_type svc \<noteq> Http \<or> hs_secrets hs (svc_name svc) \<noteq> Some (tr_secret req) then None
          else
            (case svc_upstream svc of
               None \<Rightarrow> None
             | Some upstream \<Rightarrow>
                 (case (join_upstream_url (he_urls env) upstream (tr_path req), method_parse (he_http env) (tr_method req)) of
                    (Inr url, Some m) \<Rightarrow>
                      Some \<lparr>ur_method = m, ur_url = url,
                        ur_headers = forward_headers (he_http env) (uc_decimal (he_client env)) (tr_exact_len req) (tr_headers req),
                        ur_body = tunnelled_body (tr_exact_len req) ds\<rparr>
                  | _ \<Rightarrow> None)))"

text \<open>A local request whose body is the data \<open>ds\<close>, within the limits.\<close>

definition local_data :: "http_tunnel_request \<Rightarrow> bytes list \<Rightarrow> bool" where
  "local_data req ds \<longleftrightarrow> lb_frames (tr_body req) = map DataFrame ds \<and> \<not> lb_stalls (tr_body req) \<and>
     length (concat ds) \<le> MAX_BODY_LEN \<and>
     (case tr_exact_len req of None \<Rightarrow> True | Some n \<Rightarrow> unat n = length (concat ds))"

text \<open>A response that fits the tunnel.\<close>

definition tunnelable :: "locho_response_head codec \<Rightarrow> http_api \<Rightarrow> upstream_response \<Rightarrow> bool" where
  "tunnelable respc h response \<longleftrightarrow>
     (\<exists>json. to_vec respc (response_head_of h response) = Some json \<and> length json \<le> MAX_HEAD_LEN) \<and>
     100 \<le> up_status response \<and> up_status response \<le> 999 \<and> up_end response = BodyEnds \<and>
     body_size (up_chunks response) \<le> MAX_BODY_LEN \<and>
     (case up_content_length response of
        None \<Rightarrow> list_all chunk_ok (up_chunks response)
      | Some n \<Rightarrow> unat n = body_size (up_chunks response))"

text \<open>What the upload leaves on the wire after the head.\<close>

definition wire_body :: "u64 option \<Rightarrow> bytes list \<Rightarrow> bytes" where
  "wire_body len ds =
     (case len of None \<Rightarrow> concat (map chunk_frame (pieces ds)) @ chunk_end | Some _ \<Rightarrow> concat ds)"

lemma send_request_data:
  assumes "local_data req ds"
    and json: "to_vec (ae_reqc aenv) (HttpHead (request_head_of aenv req)) = Some json" "length json \<le> MAX_HEAD_LEN"
  shows "send_request aenv req new_writer =
    (Done (), \<lparr>w_sent = json_frame json @ wire_body (tr_exact_len req) ds, w_limit = None\<rparr>)"
proof -
  let ?w = "\<lparr>w_sent = json_frame json, w_limit = None\<rparr>"
  have head: "write_json_head (ae_reqc aenv) (HttpHead (request_head_of aenv req)) new_writer = (Done (), ?w)"
    using write_json_head_open [of new_writer _ _ json] json head_len_small [OF json(2)] by simp
  have known: "upload_known tx (length (concat ds)) 0 (map DataFrame ds) False ?w =
      (Done (), \<lparr>w_sent = json_frame json @ concat ds, w_limit = None\<rparr>)" for tx
    by (subst upload_known_open) auto
  have unknown: "upload_unknown tx 0 (map DataFrame ds) False ?w = (Done (), \<lparr>w_sent = json_frame json @
      concat (map chunk_frame (pieces ds)) @ chunk_end, w_limit = None\<rparr>)" for tx
    using assms(1) by (subst upload_unknown_open) (auto simp: local_data_def)
  show ?thesis
    using assms(1) head known unknown
    by (cases "tr_exact_len req") (simp_all add: send_request_def local_data_def wire_body_def)
qed

lemma upload_sized_chunks:
  "upload_sized None (length bs) (r\<lparr>r_bytes := bs @ later\<rparr>) = (chunks_of BODY_CHUNK_LEN bs, Done (r\<lparr>r_bytes := later\<rparr>))"
proof (induction "length bs" arbitrary: bs rule: less_induct)
  case less
  show ?case
  proof (cases "bs = []")
    case False
    let ?k = "min (length bs) BODY_CHUNK_LEN"
    have k: "0 < ?k" "0 < BODY_CHUNK_LEN" using False by (auto simp: BODY_CHUNK_LEN_def)
    have split: "bs = take BODY_CHUNK_LEN bs @ drop BODY_CHUNK_LEN bs" "length (take BODY_CHUNK_LEN bs) = ?k"
      "length (drop BODY_CHUNK_LEN bs) = length bs - ?k" by simp_all
    have read: "read_exact ForwardBodyRead ?k (r\<lparr>r_bytes := bs @ later\<rparr>) =
        Done (take BODY_CHUNK_LEN bs, r\<lparr>r_bytes := drop BODY_CHUNK_LEN bs @ later\<rparr>)"
      by (simp add: read_exact_def min_def)
    have "upload_sized None (length bs - ?k) (r\<lparr>r_bytes := drop BODY_CHUNK_LEN bs @ later\<rparr>) =
        (chunks_of BODY_CHUNK_LEN (drop BODY_CHUNK_LEN bs), Done (r\<lparr>r_bytes := later\<rparr>))"
      using less [of "drop BODY_CHUNK_LEN bs"] split(3) k False by simp
    with read False k show ?thesis
      by (simp add: upload_sized_step chunks_of.simps [of BODY_CHUNK_LEN bs])
  qed simp
qed

lemma body_task_wire:
  assumes "length (concat ds) \<le> MAX_BODY_LEN"
    and "case len of None \<Rightarrow> True | Some n \<Rightarrow> unat n = length (concat ds)"
  shows "\<exists>r'. body_task None len \<lparr>r_bytes = wire_body len ds, r_end = e\<rparr> =
    ((case len of None \<Rightarrow> pieces ds | Some _ \<Rightarrow> chunks_of BODY_CHUNK_LEN (concat ds)), Done r')"
proof (cases len)
  case None
  have "body_size (pieces ds) \<le> MAX_BODY_LEN" using assms(1) concat_pieces [of ds] by (simp add: body_size_def)
  with None upload_chunked_frames [OF pieces_ok, where n = 0 and r = "\<lparr>r_bytes = [], r_end = e\<rparr>" and bs = chunk_end and ds1 = ds]
    upload_chunked_end [where n = "body_size (pieces ds)" and r = "\<lparr>r_bytes = [], r_end = e\<rparr>" and bs = "[]"]
  show ?thesis by (simp add: body_task_def wire_body_def)
next
  case (Some n)
  with assms upload_sized_chunks [where bs = "concat ds" and r = "\<lparr>r_bytes = [], r_end = e\<rparr>" and later = "[]"]
  show ?thesis by (simp add: body_task_def wire_body_def)
qed

lemma http_route_Some:
  assumes "http_route env hs req ds = Some ur"
  obtains svc upstream url m where "find_service (tr_service req) (hs_services hs) = Some svc" "svc_type svc = Http"
    "hs_secrets hs (svc_name svc) = Some (tr_secret req)" "svc_upstream svc = Some upstream"
    "join_upstream_url (he_urls env) upstream (tr_path req) = Inr url" "method_parse (he_http env) (tr_method req) = Some m"
    "ur = \<lparr>ur_method = m, ur_url = url,
        ur_headers = forward_headers (he_http env) (uc_decimal (he_client env)) (tr_exact_len req) (tr_headers req),
        ur_body = tunnelled_body (tr_exact_len req) ds\<rparr>"
  using assms by (auto simp: http_route_def split: option.splits if_splits sum.splits)

lemma exchange_routed:
  assumes "join_upstream_url api upstream (tr_path req) = Inr url" "method_parse h (tr_method req) = Some m"
    and "local_data req ds"
    and "send \<lparr>ur_method = m, ur_url = url, ur_headers = forward_headers h decimal_of (tr_exact_len req) (tr_headers req),
        ur_body = tunnelled_body (tr_exact_len req) ds\<rparr> = Reply response"
  shows "exchange api h decimal_of send None upstream (request_head_of aenv req)
    \<lparr>r_bytes = wire_body (tr_exact_len req) ds, r_end = e\<rparr> = Done response"
proof -
  from assms(3) have data: "length (concat ds) \<le> MAX_BODY_LEN"
    "case tr_exact_len req of None \<Rightarrow> True | Some n \<Rightarrow> unat n = length (concat ds)"
    by (simp_all add: local_data_def)
  from body_task_wire [OF data, of e] obtain r' where
    task: "body_task None (tr_exact_len req) \<lparr>r_bytes = wire_body (tr_exact_len req) ds, r_end = e\<rparr> =
      ((case tr_exact_len req of None \<Rightarrow> pieces ds | Some _ \<Rightarrow> chunks_of BODY_CHUNK_LEN (concat ds)), Done r')" by blast
  show ?thesis
    using assms(1,2,4) task
    by (cases "tr_exact_len req"; cases "tr_exact_len req = Some 0")
      (simp_all add: exchange_def request_head_of_def upstream_body_def tunnelled_body_def Let_def)
qed

lemma write_response_new:
  assumes "tunnelable respc h response"
  obtains json where "to_vec respc (response_head_of h response) = Some json" "length json \<le> MAX_HEAD_LEN"
    "write_response respc h response new_writer = (Done (),
       \<lparr>w_sent = json_frame json @
          (case up_content_length response of
             None \<Rightarrow> concat (map chunk_frame (up_chunks response)) @ chunk_end | Some _ \<Rightarrow> concat (up_chunks response)),
        w_limit = None\<rparr>)"
proof -
  from assms obtain json where json: "to_vec respc (response_head_of h response) = Some json" "length json \<le> MAX_HEAD_LEN"
    by (auto simp: tunnelable_def)
  have head: "write_json_head respc (response_head_of h response) new_writer =
      (Done (), \<lparr>w_sent = json_frame json, w_limit = None\<rparr>)"
    using write_json_head_open [of new_writer _ _ json] json head_len_small [OF json(2)] by simp
  have size: "0 + body_size (up_chunks response) \<le> MAX_BODY_LEN" and fin: "up_end response = BodyEnds"
    using assms by (simp_all add: tunnelable_def)
  show thesis
    using that [OF json] head fin response_body_sized [OF _ size] response_body_chunked [OF _ size]
    by (cases "up_content_length response") (simp_all add: write_response_def)
qed

lemma handle_http_routed:
  assumes "http_route env hs req ds = Some ur" "uc_send (he_client env) ur = Reply response" "uc_room (he_client env) = None"
    and "local_data req ds" "tunnelable (he_respc env) (he_http env) response"
    and ct: "ct_eq_is_equality (he_crypto env)" and cr: "ae_crypto aenv = he_crypto env"
    and clients: "\<And>n svc. find_service n (hs_services hs) = Some svc \<Longrightarrow> svc_type svc = Http \<Longrightarrow>
      hs_clients hs (svc_name svc) \<noteq> None"
  shows "handle_http_stream (he_crypto env) (he_urls env) (he_http env) (he_respc env) (he_client env) hs
      (request_head_of aenv req) \<lparr>r_bytes = wire_body (tr_exact_len req) ds, r_end = e\<rparr> new_writer =
    (Done (), snd (write_response (he_respc env) (he_http env) response new_writer))"
proof -
  from http_route_Some [OF assms(1)] obtain svc upstream url m where
    svc: "find_service (tr_service req) (hs_services hs) = Some svc" "svc_type svc = Http"
      "hs_secrets hs (svc_name svc) = Some (tr_secret req)" "svc_upstream svc = Some upstream"
    and url: "join_upstream_url (he_urls env) upstream (tr_path req) = Inr url"
      "method_parse (he_http env) (tr_method req) = Some m"
    and ur: "ur = \<lparr>ur_method = m, ur_url = url,
        ur_headers = forward_headers (he_http env) (uc_decimal (he_client env)) (tr_exact_len req) (tr_headers req),
        ur_body = tunnelled_body (tr_exact_len req) ds\<rparr>" .
  have valid: "validate_http_request (he_crypto env) hs (request_head_of aenv req) = Inr (request_head_of aenv req)"
    using svc cr by (simp add: validate_http_request_Inr_iff [OF ct] request_head_of_def)
  from clients [OF svc(1,2)] obtain t where t: "hs_clients hs (svc_name svc) = Some t" by blast
  have ex: "exchange (he_urls env) (he_http env) (uc_decimal (he_client env)) (uc_send (he_client env)) None upstream
      (request_head_of aenv req) \<lparr>r_bytes = wire_body (tr_exact_len req) ds, r_end = e\<rparr> = Done response"
    by (rule exchange_routed [OF url assms(4)]) (use assms(2) ur in simp)
  from write_response_new [OF assms(5)] have wr: "\<exists>w. write_response (he_respc env) (he_http env) response new_writer = (Done (), w)"
    by blast
  have len: "(case up_content_length response of None \<Rightarrow> False | Some len \<Rightarrow> unat len > MAX_BODY_LEN) = False"
    using assms(5) by (auto simp: tunnelable_def split: option.split)
  show ?thesis
    using valid svc t ex wr len assms(3)
    by (auto simp: handle_http_stream_def forward_to_upstream_with_state_def request_head_of_def)
qed

lemma receive_tunnelled:
  assumes "codec_roundtrip respc" "tunnelable respc h response" "ae_respc aenv = respc" "ae_http aenv = h"
  defines "sent \<equiv> w_sent (snd (write_response respc h response new_writer))"
  shows "\<exists>resp blocks. receive_response aenv \<lparr>r_bytes = sent, r_end = e\<rparr> = Inr resp \<and>
    hr_status resp = up_status response \<and>
    hr_headers resp = filter (\<lambda>(n, _). \<not> is_hop_by_hop_header n) (pairs_to_headers h (headers_to_pairs h (up_headers response))) \<and>
    response_stream (hr_body_len resp) (hr_reader resp) = (blocks, Inr \<lparr>r_bytes = [], r_end = e\<rparr>) \<and>
    concat blocks = concat (up_chunks response)"
proof -
  let ?body = "case up_content_length response of
      None \<Rightarrow> concat (map chunk_frame (up_chunks response)) @ chunk_end | Some _ \<Rightarrow> concat (up_chunks response)"
  let ?resp = "\<lparr>hr_status = up_status response,
      hr_headers = filter (\<lambda>(n, _). \<not> is_hop_by_hop_header n) (pairs_to_headers h (headers_to_pairs h (up_headers response))),
      hr_body_len = up_content_length response, hr_reader = \<lparr>r_bytes = ?body, r_end = e\<rparr>\<rparr>"
  from write_response_new [OF assms(2)] obtain json where
    json: "to_vec respc (response_head_of h response) = Some json" "length json \<le> MAX_HEAD_LEN"
    and w: "write_response respc h response new_writer = (Done (), \<lparr>w_sent = json_frame json @ ?body, w_limit = None\<rparr>)" .
  have dec: "from_slice respc json = Some (response_head_of h response)"
    using assms(1) json(1) by (simp add: codec_roundtrip_def)
  have "read_json_head respc MAX_HEAD_LEN (\<lparr>r_bytes = [], r_end = e\<rparr>\<lparr>r_bytes := json_frame json @ ?body\<rparr>) =
      Done (response_head_of h response, \<lparr>r_bytes = [], r_end = e\<rparr>\<lparr>r_bytes := ?body\<rparr>)"
    by (rule read_json_frame [OF dec json(2) head_len_small [OF json(2)]])
  then have "receive_response aenv \<lparr>r_bytes = sent, r_end = e\<rparr> = Inr ?resp"
    using assms(2,3,4) w by (simp add: receive_response_def sent_def response_head_of_def tunnelable_def)
  moreover have "\<exists>blocks. response_stream (hr_body_len ?resp) (hr_reader ?resp) = (blocks, Inr \<lparr>r_bytes = [], r_end = e\<rparr>) \<and>
      concat blocks = concat (up_chunks response)"
  proof (cases "up_content_length response")
    case None
    with assms(2) response_chunked_iff [of "\<lparr>r_bytes = ?body, r_end = e\<rparr>" "up_chunks response" "\<lparr>r_bytes = [], r_end = e\<rparr>"]
    show ?thesis by (simp add: response_stream_def tunnelable_def)
  next
    case (Some n)
    with assms(2) have n: "unat n = length (concat (up_chunks response))" by (simp add: tunnelable_def body_size_def)
    let ?r = "\<lparr>r_bytes = concat (up_chunks response), r_end = e\<rparr>"
    have fin: "snd (response_sized (unat n) ?r) = Inr \<lparr>r_bytes = [], r_end = e\<rparr>"
      using response_sized_complete [of "unat n" ?r] n by simp
    from response_sized_exact [OF fin] fin show ?thesis
      using Some by (intro exI [of _ "fst (response_sized (unat n) ?r)"]) (simp add: response_stream_def prod_eq_iff)
  qed
  ultimately show ?thesis by fastforce
qed

lemma handle_stream_http:
  assumes "from_slice (he_reqc env) json = Some (HttpHead req)" "length json \<le> MAX_HEAD_LEN"
    "handle_http_stream (he_crypto env) (he_urls env) (he_http env) (he_respc env) (he_client env) hs req
       \<lparr>r_bytes = body, r_end = e\<rparr> w = (res, w')"
  shows "handle_stream env hs free \<lparr>r_bytes = json_frame json @ body, r_end = e\<rparr> w =
    (StreamAnswered res, \<lparr>r_bytes = body, r_end = e\<rparr>, w')"
proof -
  have "read_json_head (he_reqc env) MAX_HEAD_LEN (\<lparr>r_bytes = [], r_end = e\<rparr>\<lparr>r_bytes := json_frame json @ body\<rparr>) =
      Done (HttpHead req, \<lparr>r_bytes = [], r_end = e\<rparr>\<lparr>r_bytes := body\<rparr>)"
    by (rule read_json_frame [OF assms(1,2) head_len_small [OF assms(2)]])
  with assms(3) show ?thesis by (simp add: handle_stream_def read_request_head_def)
qed

lemma prepared_client:
  assumes "find_service n (hs_services (prepare_services fresh services persisted)) = Some svc" "svc_type svc = Http"
  shows "hs_clients (prepare_services fresh services persisted) (svc_name svc) \<noteq> None"
  using assms find_service_Some [of n services svc] prepare_clients_Some [of svc services] by (simp add: prepare_services_def)

subsection \<open>A sample pair of ends\<close>

definition count_codec :: "locho_response_head codec" where
  "count_codec = \<lparr>to_vec = (\<lambda>h. if h = error_head (resp_status h) then Some (replicate (unat (resp_status h)) CHR ''x'') else None),
     from_slice = (\<lambda>b. Some (error_head (word_of_nat (length b))))\<rparr>"

definition only_codec :: "'a \<Rightarrow> 'a codec" where
  "only_codec v = \<lparr>to_vec = (\<lambda>u. if u = v then Some ''{}'' else None), from_slice = (\<lambda>_. Some v)\<rparr>"

definition tunnel_env :: "string host_env" where
  "tunnel_env = demo_env\<lparr>he_reqc := only_codec (tcp_head_of sample_crypto sample_cap), he_respc := count_codec\<rparr>"

lemma tunnel_env_crypto: "he_crypto tunnel_env = sample_crypto"
  by (simp add: tunnel_env_def demo_env_def)

lemma tunnel_ct: "ct_eq_is_equality (he_crypto tunnel_env)"
  by (simp add: tunnel_env_crypto ct_eq_is_equality_def sample_crypto_def)

lemma count_codec_roundtrip: "codec_roundtrip count_codec"
  by (auto simp: codec_roundtrip_def count_codec_def split: if_splits)

lemma count_codec_total: "\<exists>json. to_vec count_codec (error_head st) = Some json \<and> length json \<le> MAX_HEAD_LEN"
  using unsigned_less [of st, where 'a = nat] by (simp add: count_codec_def error_head_def MAX_HEAD_LEN_def)

lemma tunnel_codecs: "codecs_ok (he_reqc tunnel_env) (he_respc tunnel_env)"
  using count_codec_roundtrip count_codec_total
  by (auto simp: codecs_ok_def tunnel_env_def only_codec_def codec_roundtrip_def)

lemma tunnel_request_json:
  "to_vec (he_reqc tunnel_env) (tcp_head_of (he_crypto tunnel_env) sample_cap) = Some ''{}''"
  "length ''{}'' \<le> MAX_HEAD_LEN"
  by (simp_all add: tunnel_env_def only_codec_def demo_env_def MAX_HEAD_LEN_def)

lemma tunnel_verdict: "tcp_verdict tunnel_env demo_host 5 sample_cap = 200"
  by (simp add: tcp_verdict_def tunnel_env_def demo_env_def demo_host_def prepare_services_def find_service_def
      demo_tcp_service_def demo_http_service_def prepare_secrets_def sample_cap_def stream_endpoint_of_def
      TCP_CONNECT_TIMEOUT_def from_secs_def)

text \<open>A chunked HTTP upload to the sample service, answered with a sized response.\<close>

definition demo_web_request :: http_tunnel_request where
  "demo_web_request = \<lparr>tr_service = ''web'', tr_secret = ''k'', tr_method = ''POST'', tr_path = ''/items'', tr_headers = [],
     tr_exact_len = None, tr_body = \<lparr>lb_frames = [DataFrame ''new'', DataFrame ''item''], lb_stalls = False\<rparr>\<rparr>"

definition demo_web_response :: upstream_response where
  "demo_web_response = \<lparr>up_status = 201, up_headers = [], up_content_length = Some 4, up_chunks = [''ma'', ''de''], up_end = BodyEnds\<rparr>"

definition demo_web_head :: stream_request_head where
  "demo_web_head = HttpHead \<lparr>req_version = PROTOCOL_VERSION, req_service = ''web'', req_secret_proof = secret_proof sample_crypto ''k'',
     req_method = ''POST'', req_path_and_query = ''/items'', req_headers = [], req_body_len = None\<rparr>"

definition demo_web_env :: "string host_env" where
  "demo_web_env = demo_env\<lparr>he_reqc := only_codec demo_web_head, he_respc := only_codec (response_head_of plain_http demo_web_response),
     he_client := \<lparr>uc_send = (\<lambda>ur. if ur_body ur = EndedBody [''new'', ''item''] then Reply demo_web_response else ReplyHang),
       uc_room = None, uc_decimal = (\<lambda>_. []), uc_io_text = []\<rparr>\<rparr>"

definition demo_web_attach :: attach_env where
  "demo_web_attach = \<lparr>ae_crypto = sample_crypto, ae_http = plain_http, ae_reqc = only_codec demo_web_head,
     ae_respc = only_codec (response_head_of plain_http demo_web_response), ae_wire_text = (\<lambda>_. [])\<rparr>"

lemma only_codec_roundtrip: "codec_roundtrip (only_codec v)"
  by (simp add: codec_roundtrip_def only_codec_def)

lemma web_codecs: "codec_roundtrip (he_reqc demo_web_env)" "codec_roundtrip (he_respc demo_web_env)"
  by (simp_all add: demo_web_env_def only_codec_roundtrip)

lemma web_same: "ae_crypto demo_web_attach = he_crypto demo_web_env" "ae_http demo_web_attach = he_http demo_web_env"
  "ae_reqc demo_web_attach = he_reqc demo_web_env" "ae_respc demo_web_attach = he_respc demo_web_env"
  by (simp_all add: demo_web_attach_def demo_web_env_def demo_env_def)

lemma web_ct: "ct_eq_is_equality (he_crypto demo_web_env)"
  using tunnel_ct by (simp add: tunnel_env_def demo_web_env_def)

lemma short_piece: "0 < length bs \<Longrightarrow> length bs \<le> BODY_CHUNK_LEN \<Longrightarrow> chunks_of BODY_CHUNK_LEN bs = [bs]"
  by (subst chunks_of.simps) (auto simp: BODY_CHUNK_LEN_def)

lemma web_sends: "local_data demo_web_request [''new'', ''item'']"
  "to_vec (he_reqc demo_web_env) (HttpHead (request_head_of demo_web_attach demo_web_request)) = Some ''{}''" "length ''{}'' \<le> MAX_HEAD_LEN"
  by (simp_all add: local_data_def demo_web_request_def demo_web_env_def only_codec_def demo_web_head_def request_head_of_def demo_web_attach_def
      limit_defs)

lemma web_upstream:
  "http_route demo_web_env demo_host demo_web_request [''new'', ''item''] = Some \<lparr>ur_method = ''POST'', ur_url = ''https'', ur_headers = [],
     ur_body = EndedBody [''new'', ''item'']\<rparr>"
  "uc_send (he_client demo_web_env) \<lparr>ur_method = ''POST'', ur_url = ''https'', ur_headers = [],
     ur_body = EndedBody [''new'', ''item'']\<rparr> = Reply demo_web_response"
  "uc_room (he_client demo_web_env) = None" "tunnelable (he_respc demo_web_env) (he_http demo_web_env) demo_web_response"
proof -
  have url: "join_upstream_url scheme_urls ''https'' ''/items'' = Inr ''https''" by code_simp
  have "pieces [''new'', ''item''] = [''new'', ''item'']"
    using short_piece [of "''new''"] short_piece [of "''item''"] by (simp add: BODY_CHUNK_LEN_def)
  with url show "http_route demo_web_env demo_host demo_web_request [''new'', ''item''] = Some \<lparr>ur_method = ''POST'', ur_url = ''https'',
      ur_headers = [], ur_body = EndedBody [''new'', ''item'']\<rparr>"
    by (simp add: http_route_def demo_web_env_def demo_env_def demo_host_def prepare_services_def find_service_def demo_web_request_def
        demo_tcp_service_def demo_http_service_def prepare_secrets_def plain_http_def forward_headers_def pairs_to_headers_def
        tunnelled_body_def)
  show "uc_send (he_client demo_web_env) \<lparr>ur_method = ''POST'', ur_url = ''https'', ur_headers = [],
      ur_body = EndedBody [''new'', ''item'']\<rparr> = Reply demo_web_response" "uc_room (he_client demo_web_env) = None"
    by (simp_all add: demo_web_env_def)
  show "tunnelable (he_respc demo_web_env) (he_http demo_web_env) demo_web_response"
    by (simp add: tunnelable_def demo_web_env_def demo_env_def only_codec_def demo_web_response_def limit_defs)
qed

end
