(* ===== verification/Tickets.thy ===== *)
theory Tickets
  imports Relay_Policy Wire_Protocol
begin

text \<open>
  Portable single-service credentials, \<open>crates/locho-core/src/ticket.rs\<close>. JSON (a \<open>codec\<close> for
  the payload), base64 and \<open>url::Url\<close> are parameters; the round-trip laws of the first two are
  the named hypotheses \<open>codec_roundtrip\<close> and \<open>b64_roundtrip\<close>.
\<close>

definition MAX_TICKET_LEN :: nat where "MAX_TICKET_LEN = 8192"
definition MAX_PEER_RELAYS :: nat where "MAX_PEER_RELAYS = 4"
definition TICKET_PREFIX :: string where "TICKET_PREFIX = ''locho1:''"

record ticket =
  t_host_id :: string
  t_capability :: capability
  t_peer_relay_urls :: "string list"

datatype ticket_error =
    TicketTooLarge | InvalidEncoding | UnsupportedVersion | InvalidPayload | InvalidHostId
  | InvalidCapability | InvalidPeerRelay

fun ticket_error_display :: "ticket_error \<Rightarrow> string" where
  "ticket_error_display TicketTooLarge = ''ticket exceeds size limit''"
| "ticket_error_display InvalidEncoding = ''invalid ticket encoding''"
| "ticket_error_display UnsupportedVersion = ''unsupported ticket version''"
| "ticket_error_display InvalidPayload = ''invalid ticket payload''"
| "ticket_error_display InvalidHostId = ''invalid ticket host identity''"
| "ticket_error_display InvalidCapability = ''invalid ticket capability''"
| "ticket_error_display InvalidPeerRelay = ''invalid ticket peer relay hints''"

definition ticket_debug :: "ticket \<Rightarrow> string \<times> (string \<times> string) list" where
  "ticket_debug t = (''Ticket'', [(''credential'', ''[REDACTED]'')])"

record payload =
  p_host_id :: string
  p_capability :: string
  p_peer_relay_urls :: "string list"

record base64_api =
  b64_encode :: "bytes \<Rightarrow> string"
  b64_decode :: "string \<Rightarrow> bytes option"

definition b64_roundtrip :: "base64_api \<Rightarrow> bool" where
  "b64_roundtrip b \<longleftrightarrow> (\<forall>bs. b64_decode b (b64_encode b bs) = Some bs)"

definition ticket_encode :: "payload codec \<Rightarrow> base64_api \<Rightarrow> ticket \<Rightarrow> ticket_error + string" where
  "ticket_encode pc b t =
     (let payload = \<lparr>p_host_id = t_host_id t,
            p_capability = capability_format (cap_service (t_capability t))
              (cap_service_type (t_capability t)) (cap_secret (t_capability t)),
            p_peer_relay_urls = t_peer_relay_urls t\<rparr>
      in case to_vec pc payload of
           None \<Rightarrow> Inl InvalidPayload
         | Some bytes \<Rightarrow>
             let value = TICKET_PREFIX @ b64_encode b bytes
             in if length value > MAX_TICKET_LEN then Inl TicketTooLarge else Inr value)"

text \<open>One turn of the loop over the relay hints, up to the normalized text.\<close>

definition normalize_relay :: "'u url_api \<Rightarrow> string \<Rightarrow> ticket_error + string" where
  "normalize_relay api v =
     (if length v > 512 \<or> list_ex (\<lambda>b. is_ascii_whitespace b \<or> is_ascii_control b) v
      then Inl InvalidPeerRelay
      else case url_parse api v of
        None \<Rightarrow> Inl InvalidPeerRelay
      | Some url \<Rightarrow>
          if url_scheme api url \<noteq> ''https'' \<or> \<not> url_has_host api url \<or> url_username api url \<noteq> [] \<or>
             url_password api url \<noteq> None \<or> url_path api url \<noteq> ''/'' \<or> url_query api url \<noteq> None \<or>
             url_fragment api url \<noteq> None
          then Inl InvalidPeerRelay
          else (case Option.bind (url_domain api url) (strip_suffix ''.'') of
                  None \<Rightarrow> Inr (url_to_string api url)
                | Some host \<Rightarrow>
                    (case url_set_host api host url of
                       None \<Rightarrow> Inl InvalidPeerRelay
                     | Some url \<Rightarrow> Inr (url_to_string api url))))"

definition ticket_relays :: "'u url_api \<Rightarrow> string list \<Rightarrow> ticket_error + string list" where
  "ticket_relays api values =
     each_distinct (normalize_relay api) (\<lambda>_. InvalidPeerRelay) (\<lambda>normalized _. Inr normalized) {} values"

definition ticket_new ::
  "'u url_api \<Rightarrow> payload codec \<Rightarrow> base64_api \<Rightarrow> string \<Rightarrow> string \<Rightarrow> string list \<Rightarrow> ticket_error + ticket" where
  "ticket_new api pc b host_id cap relay_urls =
     (if length host_id \<noteq> 64 \<or> \<not> list_all is_ascii_hexdigit host_id then Inl InvalidHostId
      else if length cap > MAX_TICKET_LEN then Inl InvalidCapability
      else
        res_bind (map_err (\<lambda>_. InvalidCapability) (capability_parse cap)) (\<lambda>capability.
        if length (cap_secret capability) > 1024 \<or> \<not> list_all is_ascii_graphic (cap_secret capability)
        then Inl InvalidCapability
        else if length relay_urls > MAX_PEER_RELAYS then Inl InvalidPeerRelay
        else
          res_bind (ticket_relays api relay_urls) (\<lambda>relays.
          let t = \<lparr>t_host_id = to_ascii_lowercase host_id, t_capability = capability,
                   t_peer_relay_urls = relays\<rparr>
          in res_bind (ticket_encode pc b t) (\<lambda>_. Inr t))))"

definition ticket_parse ::
  "'u url_api \<Rightarrow> payload codec \<Rightarrow> base64_api \<Rightarrow> string \<Rightarrow> ticket_error + ticket" where
  "ticket_parse api pc b value =
     (if length value > MAX_TICKET_LEN then Inl TicketTooLarge
      else
        res_bind
          (ok_or (if starts_with ''locho'' value \<and> CHR '':'' \<in> set value then UnsupportedVersion
                  else InvalidEncoding)
            (strip_prefix TICKET_PREFIX value)) (\<lambda>encoded.
        res_bind (ok_or InvalidEncoding (b64_decode b encoded)) (\<lambda>bytes.
        res_bind (ok_or InvalidPayload (from_slice pc bytes)) (\<lambda>payload.
        ticket_new api pc b (p_host_id payload) (p_capability payload) (p_peer_relay_urls payload)))))"

subsection \<open>Lemmas\<close>

text \<open>The well-formed tickets.\<close>

definition ticket_ok :: "ticket \<Rightarrow> bool" where
  "ticket_ok t \<longleftrightarrow> length (t_host_id t) = 64 \<and> list_all is_ascii_hexdigit (t_host_id t) \<and>
     to_ascii_lowercase (t_host_id t) = t_host_id t \<and>
     valid_capability (t_capability t) \<and> length (cap_secret (t_capability t)) \<le> 1024 \<and>
     list_all is_ascii_graphic (cap_secret (t_capability t)) \<and>
     length (capability_text (t_capability t)) \<le> MAX_TICKET_LEN \<and>
     length (t_peer_relay_urls t) \<le> MAX_PEER_RELAYS \<and> distinct (t_peer_relay_urls t)"

lemma ticket_relays_Inr_iff:
  "ticket_relays api vs = Inr rs \<longleftrightarrow> list_all2 (\<lambda>v r. normalize_relay api v = Inr r) vs rs \<and> distinct rs"
proof -
  have "list_all2 (\<lambda>(k, x) y. (Inr k :: ticket_error + string) = Inr y) (zip ks vs) rs \<longleftrightarrow> ks = rs"
    if "length vs = length ks" for ks
    using that by (induction vs ks arbitrary: rs rule: list_induct2) (auto simp: list_all2_Cons1)
  then show ?thesis
    unfolding ticket_relays_def each_distinct_Inr_iff by (auto dest: list_all2_lengthD)
qed

lemma normalize_relay_Inl: "normalize_relay api v = Inl e \<Longrightarrow> e = InvalidPeerRelay"
  by (auto simp: normalize_relay_def split: if_splits option.splits)

lemma ticket_relays_Inl: "ticket_relays api vs = Inl e \<Longrightarrow> e = InvalidPeerRelay"
proof -
  have "each_distinct (normalize_relay api) (\<lambda>_. InvalidPeerRelay) (\<lambda>normalized _. Inr normalized) seen vs = Inl e
      \<Longrightarrow> e = InvalidPeerRelay" for seen
    by (induction vs arbitrary: seen) (auto simp: result_simps dest: normalize_relay_Inl split: if_splits)
  then show "ticket_relays api vs = Inl e \<Longrightarrow> e = InvalidPeerRelay" by (simp add: ticket_relays_def)
qed

lemma ticket_new_Inr_iff:
  "ticket_new api pc b h c vs = Inr t \<longleftrightarrow>
   length h = 64 \<and> list_all is_ascii_hexdigit h \<and> t_host_id t = to_ascii_lowercase h \<and>
   length c \<le> MAX_TICKET_LEN \<and> capability_parse c = Inr (t_capability t) \<and>
   length (cap_secret (t_capability t)) \<le> 1024 \<and> list_all is_ascii_graphic (cap_secret (t_capability t)) \<and>
   length vs \<le> MAX_PEER_RELAYS \<and> ticket_relays api vs = Inr (t_peer_relay_urls t) \<and>
   is_ok (ticket_encode pc b t)"
proof (cases "length h = 64 \<and> list_all is_ascii_hexdigit h \<and> length c \<le> MAX_TICKET_LEN")
  case False
  then show ?thesis by (auto simp: ticket_new_def)
next
  case True
  let ?cap = "\<lambda>k. \<not> (length (cap_secret k) > 1024 \<or> \<not> list_all is_ascii_graphic (cap_secret k))"
  let ?t = "\<lambda>k rs. \<lparr>t_host_id = to_ascii_lowercase h, t_capability = k, t_peer_relay_urls = rs\<rparr>"
  from True have "ticket_new api pc b h c vs = Inr t \<longleftrightarrow>
    (\<exists>k rs. capability_parse c = Inr k \<and> ?cap k \<and> length vs \<le> MAX_PEER_RELAYS \<and>
       ticket_relays api vs = Inr rs \<and> is_ok (ticket_encode pc b (?t k rs)) \<and> t = ?t k rs)"
    by (cases "capability_parse c"; cases "ticket_relays api vs")
      (auto simp: ticket_new_def result_simps is_ok_iff Let_def)
  also have "\<dots> \<longleftrightarrow> t_host_id t = to_ascii_lowercase h \<and> capability_parse c = Inr (t_capability t) \<and>
      ?cap (t_capability t) \<and> length vs \<le> MAX_PEER_RELAYS \<and>
      ticket_relays api vs = Inr (t_peer_relay_urls t) \<and> is_ok (ticket_encode pc b t)"
    by (cases t) auto
  finally show ?thesis using True by (simp add: not_less)
qed

lemma ticket_new_ok:
  assumes "ticket_new api pc b h c vs = Inr t"
  shows "ticket_ok t"
proof -
  from assms have "capability_parse c = Inr (t_capability t)" "length c \<le> MAX_TICKET_LEN"
    by (simp_all add: ticket_new_Inr_iff)
  then have "valid_capability (t_capability t)" "length (capability_text (t_capability t)) \<le> MAX_TICKET_LEN"
    using capability_parse_sound by auto
  moreover from assms have "length (t_peer_relay_urls t) \<le> MAX_PEER_RELAYS" "distinct (t_peer_relay_urls t)"
    by (auto simp: ticket_new_Inr_iff ticket_relays_Inr_iff dest: list_all2_lengthD)
  moreover from assms have "list_all is_ascii_hexdigit (t_host_id t)"
    by (auto simp: ticket_new_Inr_iff to_ascii_lowercase_def list_all_iff is_ascii_hexdigit_lower)
  ultimately show ?thesis using assms by (simp add: ticket_ok_def ticket_new_Inr_iff)
qed

text \<open>Reading back an encoded ticket comes down to normalizing its relays again.\<close>

lemma ticket_parse_encode:
  assumes "codec_roundtrip pc" "b64_roundtrip b" "ticket_encode pc b t = Inr value" "ticket_ok t"
  shows "ticket_parse api pc b value =
    res_bind (ticket_relays api (t_peer_relay_urls t)) (\<lambda>relays.
      let t' = t\<lparr>t_peer_relay_urls := relays\<rparr> in res_bind (ticket_encode pc b t') (\<lambda>_. Inr t'))"
proof -
  let ?p = "\<lparr>p_host_id = t_host_id t, p_capability = capability_text (t_capability t),
    p_peer_relay_urls = t_peer_relay_urls t\<rparr>"
  from assms(3) obtain bytes where bytes: "to_vec pc ?p = Some bytes"
    and v: "value = TICKET_PREFIX @ b64_encode b bytes" "length value \<le> MAX_TICKET_LEN"
    by (auto simp: ticket_encode_def capability_text_def Let_def split: option.splits if_splits)
  have "from_slice pc bytes = Some ?p" using assms(1) bytes by (simp add: codec_roundtrip_def)
  moreover have "capability_parse (capability_text (t_capability t)) = Inr (t_capability t)"
    using assms(4) capability_parse_text by (simp add: ticket_ok_def)
  ultimately show ?thesis
    using v assms(2,4)
    by (cases t) (simp add: ticket_parse_def ticket_new_def b64_roundtrip_def ticket_ok_def Let_def)
qed

lemma ticket_relays_fixpoint:
  assumes "ticket_ok t"
  shows "ticket_relays api (t_peer_relay_urls t) = Inr (t_peer_relay_urls t) \<longleftrightarrow>
    (\<forall>v\<in>set (t_peer_relay_urls t). normalize_relay api v = Inr v)"
  using assms by (auto simp: ticket_relays_Inr_iff list_all2_same_iff ticket_ok_def)


text \<open>Concrete instances of the parameters, for the witnesses.\<close>

record simple_url =
  su_host :: string
  su_path :: string

definition simple_url_parse :: "string \<Rightarrow> simple_url option" where
  "simple_url_parse s =
     (case strip_prefix ''https://'' s of
        None \<Rightarrow> None
      | Some rest \<Rightarrow>
          let host = takeWhile (\<lambda>c. c \<noteq> CHR ''/'') rest; p = dropWhile (\<lambda>c. c \<noteq> CHR ''/'') rest
          in if host = [] then None else Some \<lparr>su_host = host, su_path = (if p = [] then ''/'' else p)\<rparr>)"

definition simple_urls :: "simple_url url_api" where
  "simple_urls = \<lparr>url_parse = simple_url_parse, url_scheme = (\<lambda>_. ''https''), url_has_host = (\<lambda>_. True),
     url_host_str = (\<lambda>u. Some (su_host u)), url_domain = (\<lambda>u. Some (su_host u)), url_username = (\<lambda>_. []),
     url_password = (\<lambda>_. None), url_path = su_path, url_query = (\<lambda>_. None), url_fragment = (\<lambda>_. None),
     url_to_string = (\<lambda>u. ''https://'' @ su_host u @ su_path u),
     url_set_host = (\<lambda>h u. Some (u\<lparr>su_host := h\<rparr>)), url_set_path = (\<lambda>p u. u\<lparr>su_path := p\<rparr>),
     url_set_query = (\<lambda>_ u. u)\<rparr>"

fun enc_string :: "string \<Rightarrow> string" where
  "enc_string [] = ''.''"
| "enc_string (c # cs) = CHR ''c'' # c # enc_string cs"

fun dec_strings :: "string \<Rightarrow> string \<Rightarrow> string list option" where
  "dec_strings acc [] = (if acc = [] then Some [] else None)"
| "dec_strings acc [t] = (if t = CHR ''.'' then Some [acc] else None)"
| "dec_strings acc (t # c # bs) =
     (if t = CHR ''.'' then map_option (\<lambda>ss. acc # ss) (dec_strings [] (c # bs))
      else dec_strings (acc @ [c]) bs)"

definition sample_payloads :: "payload codec" where
  "sample_payloads = \<lparr>to_vec = (\<lambda>p. Some (concat (map enc_string (p_host_id p # p_capability p # p_peer_relay_urls p)))),
     from_slice = (\<lambda>bs. case dec_strings [] bs of
        Some (h # c # rs) \<Rightarrow> Some \<lparr>p_host_id = h, p_capability = c, p_peer_relay_urls = rs\<rparr> | _ \<Rightarrow> None)\<rparr>"

definition plain_base64 :: base64_api where
  "plain_base64 = \<lparr>b64_encode = (\<lambda>bs. bs), b64_decode = Some\<rparr>"

lemma dec_strings_enc: "dec_strings acc (enc_string s @ bs) = map_option (\<lambda>ss. (acc @ s) # ss) (dec_strings [] bs)"
proof (induction s arbitrary: acc)
  case Nil
  then show ?case by (cases bs) auto
next
  case (Cons c s)
  then show ?case by simp
qed

lemma sample_payloads_roundtrip: "codec_roundtrip sample_payloads"
proof -
  have "dec_strings [] (concat (map enc_string ss)) = Some ss" for ss
    by (induction ss) (simp_all add: dec_strings_enc)
  from this [of "_ # _ # _"] show ?thesis by (simp add: codec_roundtrip_def sample_payloads_def)
qed

lemma plain_base64_roundtrip: "b64_roundtrip plain_base64"
  by (simp add: b64_roundtrip_def plain_base64_def)

definition demo_ticket :: "string list \<Rightarrow> ticket" where
  "demo_ticket relays = \<lparr>t_host_id = replicate 64 CHR ''a'', t_capability = \<lparr>cap_service = ''db'', cap_service_type = Tcp, cap_secret = ''k''\<rparr>,
     t_peer_relay_urls = relays\<rparr>"


lemma length_enc_string [simp]: "length (enc_string s) = 2 * length s + 1"
  by (induction s) auto

lemma demo_ticket_new:
  assumes "normalize_relay simple_urls v = Inr w" "length w \<le> 1000"
  shows "ticket_new simple_urls sample_payloads plain_base64 (replicate 64 CHR ''A'') ''db:tcp:k'' [v] =
    Inr (demo_ticket [w])"
proof -
  have "to_ascii_lower CHR ''A'' = CHR ''a''" by code_simp
  then have hex: "list_all is_ascii_hexdigit (replicate 64 CHR ''A'')"
    "to_ascii_lowercase (replicate 64 CHR ''A'') = replicate 64 CHR ''a''"
    by (simp_all only: list_all_iff to_ascii_lowercase_def map_replicate) (simp add: ascii_defs)
  have cap: "capability_parse ''db:tcp:k'' = Inr \<lparr>cap_service = ''db'', cap_service_type = Tcp, cap_secret = ''k''\<rparr>"
    by code_simp
  have "is_ok (ticket_encode sample_payloads plain_base64 (demo_ticket [w]))"
    using assms(2)
    by (simp add: ticket_encode_def sample_payloads_def plain_base64_def demo_ticket_def MAX_TICKET_LEN_def
        TICKET_PREFIX_def capability_format_def Let_def)
  then show ?thesis
    using assms(1) hex cap
    by (simp add: ticket_new_Inr_iff ticket_relays_Inr_iff demo_ticket_def MAX_TICKET_LEN_def
        MAX_PEER_RELAYS_def ascii_defs)
qed

lemma demo_relay: "normalize_relay simple_urls ''https://r'' = Inr ''https://r/''" 
    "normalize_relay simple_urls ''https://r/'' = Inr ''https://r/''"
  by code_simp+

definition long_relay :: string where
  "long_relay = ''https://'' @ replicate 504 CHR ''a''"

lemma long_relay_normalized: "normalize_relay simple_urls long_relay = Inr (long_relay @ ''/'')"
proof -
  have "\<not> list_ex (\<lambda>b. is_ascii_whitespace b \<or> is_ascii_control b) long_relay"
    by (simp add: long_relay_def list_ex_iff ascii_defs)
  moreover have "simple_url_parse long_relay = Some \<lparr>su_host = replicate 504 CHR ''a'', su_path = ''/''\<rparr>"
    by (simp add: long_relay_def simple_url_parse_def Let_def)
  moreover have "strip_suffix ''.'' (replicate 504 CHR ''a'') = None"
  proof (rule ccontr)
    assume "strip_suffix ''.'' (replicate 504 CHR ''a'') \<noteq> None"
    then obtain t where "replicate 504 CHR ''a'' = t @ ''.''" by (auto simp: strip_suffix_Some_iff)
    then have "CHR ''.'' \<in> set (replicate 504 CHR ''a'')" by (metis in_set_conv_decomp)
    then show False by simp
  qed
  ultimately show ?thesis
    by (simp add: normalize_relay_def simple_urls_def) (simp add: long_relay_def)
qed

subsection \<open>Properties\<close>

text \<open>
  C27. Every ticket that parsing accepts is well formed: a 64-digit lower-case hexadecimal host
  identity, a valid capability whose secret is at most 1024 graphic characters, and at most four
  distinct relay hints.
\<close>

theorem ticket_parse_ok:
  assumes "ticket_parse api pc b enc = Inr t"
  shows "ticket_ok t \<and> length enc \<le> MAX_TICKET_LEN \<and> (\<exists>rest. enc = TICKET_PREFIX @ rest)"
  using assms by (auto simp: ticket_parse_def result_simps strip_prefix_Some_iff dest: ticket_new_ok split: if_splits)

theorem ticket_parse_ok_witness:
  "ticket_ok (demo_ticket [''https://r/''])"
proof -
  have new: "ticket_new simple_urls sample_payloads plain_base64 (replicate 64 CHR ''A'') ''db:tcp:k'' [''https://r''] =
      Inr (demo_ticket [''https://r/''])"
    by (rule demo_ticket_new) (simp_all add: demo_relay)
  then obtain enc where e: "ticket_encode sample_payloads plain_base64 (demo_ticket [''https://r/'']) = Inr enc"
    by (auto simp: ticket_new_Inr_iff is_ok_iff)
  have relays: "ticket_relays simple_urls (t_peer_relay_urls (demo_ticket [''https://r/''])) = Inr [''https://r/'']"
    by (simp add: demo_ticket_def ticket_relays_Inr_iff demo_relay)
  have "ticket_parse simple_urls sample_payloads plain_base64 enc = Inr (demo_ticket [''https://r/''])"
    using ticket_parse_encode [OF sample_payloads_roundtrip plain_base64_roundtrip e ticket_new_ok [OF new], of simple_urls]
      relays e
    by (simp add: demo_ticket_def Let_def)
  from ticket_parse_ok [OF this] show ?thesis by simp
qed

text \<open>
  C28. A ticket that was accepted can always be encoded within the size limit, and its encoding
  parses back to the same ticket exactly when each of its normalized relay hints is accepted
  unchanged by the same normalization.
\<close>

theorem ticket_roundtrip_iff:
  assumes "codec_roundtrip pc" "b64_roundtrip b" "ticket_new api pc b h c vs = Inr t"
  shows "\<exists>enc. ticket_encode pc b t = Inr enc \<and> length enc \<le> MAX_TICKET_LEN \<and>
    (ticket_parse api pc b enc = Inr t \<longleftrightarrow>
     (\<forall>v\<in>set (t_peer_relay_urls t). normalize_relay api v = Inr v))"
proof -
  from assms(3) obtain enc where e: "ticket_encode pc b t = Inr enc"
    by (auto simp: ticket_new_Inr_iff is_ok_iff)
  note ok = ticket_new_ok [OF assms(3)]
  have "ticket_parse api pc b enc = Inr t \<longleftrightarrow>
      ticket_relays api (t_peer_relay_urls t) = Inr (t_peer_relay_urls t)"
    unfolding ticket_parse_encode [OF assms(1,2) e ok] using e
    by (cases t) (auto simp: result_simps Let_def)
  moreover from e have "length enc \<le> MAX_TICKET_LEN"
    by (auto simp: ticket_encode_def Let_def split: option.splits if_splits)
  ultimately show ?thesis using e ticket_relays_fixpoint [OF ok] by blast
qed

theorem ticket_roundtrip_iff_witness:
  "\<exists>enc. ticket_encode sample_payloads plain_base64 (demo_ticket [''https://r/'']) = Inr enc \<and>
     ticket_parse simple_urls sample_payloads plain_base64 enc = Inr (demo_ticket [''https://r/''])"
proof -
  have "ticket_new simple_urls sample_payloads plain_base64 (replicate 64 CHR ''A'') ''db:tcp:k'' [''https://r''] =
      Inr (demo_ticket [''https://r/''])"
    by (rule demo_ticket_new) (simp_all add: demo_relay)
  from ticket_roundtrip_iff [OF sample_payloads_roundtrip plain_base64_roundtrip this]
  show ?thesis by (auto simp: demo_ticket_def demo_relay)
qed

text \<open>
  C39. The length limit of 512 bytes is tested before normalization, which can make a hint longer
  (a missing final slash is added, a host may be re-encoded): a ticket accepted with such a hint
  is encoded without complaint, but its encoding is refused by every parser.
\<close>

theorem ticket_long_relay_refused:
  assumes "codec_roundtrip pc" "b64_roundtrip b" "ticket_new api pc b h c vs = Inr t"
    "v \<in> set (t_peer_relay_urls t)" "512 < length v"
  shows "\<exists>enc. ticket_encode pc b t = Inr enc \<and> ticket_parse api pc b enc = Inl InvalidPeerRelay"
proof -
  from assms(3) obtain enc where e: "ticket_encode pc b t = Inr enc"
    by (auto simp: ticket_new_Inr_iff is_ok_iff)
  have "normalize_relay api v \<noteq> Inr r" for r using assms(5) by (simp add: normalize_relay_def)
  then have "ticket_relays api (t_peer_relay_urls t) \<noteq> Inr rs" for rs
    using assms(4) unfolding ticket_relays_Inr_iff in_set_conv_nth list_all2_conv_all_nth by metis
  then have "ticket_relays api (t_peer_relay_urls t) = Inl InvalidPeerRelay"
    by (cases "ticket_relays api (t_peer_relay_urls t)") (auto dest: ticket_relays_Inl)
  with e show ?thesis using ticket_parse_encode [OF assms(1,2) e ticket_new_ok [OF assms(3)], of api] by simp
qed

theorem ticket_long_relay_refused_witness:
  "ticket_new simple_urls sample_payloads plain_base64 (replicate 64 CHR ''A'') ''db:tcp:k'' [long_relay] =
     Inr (demo_ticket [long_relay @ ''/'']) \<and>
   (\<exists>enc. ticket_encode sample_payloads plain_base64 (demo_ticket [long_relay @ ''/'']) = Inr enc \<and>
      ticket_parse simple_urls sample_payloads plain_base64 enc = Inl InvalidPeerRelay)"
proof -
  have new: "ticket_new simple_urls sample_payloads plain_base64 (replicate 64 CHR ''A'') ''db:tcp:k'' [long_relay] =
      Inr (demo_ticket [long_relay @ ''/''])"
    by (rule demo_ticket_new) (simp_all add: long_relay_normalized, simp add: long_relay_def)
  moreover have "long_relay @ ''/'' \<in> set (t_peer_relay_urls (demo_ticket [long_relay @ ''/'']))"
    "512 < length (long_relay @ ''/'')"
    by (simp_all add: demo_ticket_def long_relay_def)
  from ticket_long_relay_refused [OF sample_payloads_roundtrip plain_base64_roundtrip new this]
  show ?thesis using new by blast
qed

end
