(* ===== verification/Native_Client.thy ===== *)
theory Native_Client
  imports Session_Client Tickets Config
begin

text \<open>
  The native SDK client, \<open>crates/locho-client-native/src/client.rs\<close> and \<open>error.rs\<close>: options, the
  published status of an attachment, the life of one attachment (\<open>run_attachment\<close>) and the
  registry of a client. Parsing host identities, binding the listener and the endpoint, and the
  tasks the attachment supervises are parameters, given by what they return and in which order.
\<close>

subsection \<open>Errors and options\<close>

datatype client_error =
    ClClosed | ClCancelled | ClRuntimeRequired | ClInvalidHostId | ClInvalidDirectAddress | ClInvalidPeerRelay
  | ClInvalidCapability capability_error | ClUnsupportedService | ClInvalidTimeout | ClListenerBind
  | ClListenerFailed | ClEndpointBind | ClStartupTimeout | ClShutdownTimeout | ClTaskFailed | ClPeer session_error

record 'u tcp_options =
  to_host_id :: string
  to_capability :: string
  to_local_port :: u16
  to_direct_address :: "socket_addr option"
  to_peer_relay_urls :: "string list"
  to_relay_settings :: "'u relay_settings option"

definition tcp_options_new :: "string \<Rightarrow> string \<Rightarrow> 'u tcp_options" where
  "tcp_options_new host_id cap = \<lparr>to_host_id = host_id, to_capability = cap, to_local_port = 0,
     to_direct_address = None, to_peer_relay_urls = [], to_relay_settings = None\<rparr>"

definition tcp_options_from_ticket :: "ticket \<Rightarrow> client_error + 'u tcp_options" where
  "tcp_options_from_ticket t =
     (let cap = t_capability t in
      if cap_service_type cap \<noteq> Tcp then Inl ClUnsupportedService
      else Inr ((tcp_options_new (t_host_id t)
                   (capability_format (cap_service cap) (cap_service_type cap) (cap_secret cap)))
                \<lparr>to_peer_relay_urls := t_peer_relay_urls t\<rparr>))"

subsection \<open>The published status\<close>

record attachment_status =
  as_revision :: nat
  as_state :: session_state
  as_local_addr :: "socket_addr option"
  as_path :: transport_path
  as_peer :: "session_status option"
  as_terminal_error :: "client_error option"

definition control_new :: attachment_status where
  "control_new = \<lparr>as_revision = 0, as_state = Starting, as_local_addr = None, as_path = PathUnknown,
     as_peer = None, as_terminal_error = None\<rparr>"

definition control_closing :: "attachment_status \<Rightarrow> attachment_status" where
  "control_closing s =
     (if as_state s \<noteq> Closed then s\<lparr>as_revision := as_revision s + 1, as_state := Closing\<rparr> else s)"

definition control_closed :: "client_error option \<Rightarrow> attachment_status \<Rightarrow> attachment_status" where
  "control_closed err s = s\<lparr>as_revision := as_revision s + 1, as_state := Closed, as_path := PathUnknown,
     as_terminal_error := err\<rparr>"

definition publish_bound :: "socket_addr \<Rightarrow> attachment_status \<Rightarrow> attachment_status" where
  "publish_bound addr s = s\<lparr>as_revision := as_revision s + 1, as_local_addr := Some addr, as_state := Connecting\<rparr>"

definition publish_peer :: "session_status \<Rightarrow> attachment_status \<Rightarrow> attachment_status" where
  "publish_peer snapshot s = s\<lparr>as_revision := as_revision s + 1, as_state := state snapshot,
     as_path := path snapshot, as_peer := Some snapshot\<rparr>"

definition publish_failed :: "client_error \<Rightarrow> attachment_status \<Rightarrow> attachment_status" where
  "publish_failed err s = s\<lparr>as_revision := as_revision s + 1, as_state := Failed, as_terminal_error := Some err\<rparr>"

datatype status_action =
    ClosingAction | ClosedAction "client_error option" | BoundAction socket_addr | PeerAction session_status
  | FailedAction client_error

fun status_step :: "status_action \<Rightarrow> attachment_status \<Rightarrow> attachment_status" where
  "status_step ClosingAction s = control_closing s"
| "status_step (ClosedAction err) s = control_closed err s"
| "status_step (BoundAction addr) s = publish_bound addr s"
| "status_step (PeerAction snapshot) s = publish_peer snapshot s"
| "status_step (FailedAction err) s = publish_failed err s"

text \<open>\<open>wait_closed\<close> and \<open>wait_connected\<close> over the statuses a caller sees; the list ends at the deadline.\<close>

fun wait_closed :: "attachment_status list \<Rightarrow> client_error + unit" where
  "wait_closed [] = Inl ClShutdownTimeout"
| "wait_closed (s # ss) =
     (if as_state s = Closed then (case as_terminal_error s of None \<Rightarrow> Inr () | Some e \<Rightarrow> Inl e)
      else wait_closed ss)"

fun attachment_wait_connected :: "(bool \<times> attachment_status) list \<Rightarrow> client_error + unit" where
  "attachment_wait_connected [] = Inl ClStartupTimeout"
| "attachment_wait_connected ((cancelled, s) # ss) =
     (if cancelled then Inl ClClosed
      else if as_state s = Connected then Inr ()
      else if as_state s \<in> {Closing, Closed, Failed}
      then Inl (case as_terminal_error s of None \<Rightarrow> ClClosed | Some e \<Rightarrow> e)
      else attachment_wait_connected ss)"

subsection \<open>One attachment\<close>

definition is_unspecified :: "ip_addr \<Rightarrow> bool" where
  "is_unspecified ip = (case ip of V4 a \<Rightarrow> a = 0 | V6 a \<Rightarrow> a = 0)"

definition is_multicast :: "ip_addr \<Rightarrow> bool" where
  "is_multicast ip = (case ip of V4 a \<Rightarrow> drop_bit 28 a = 14 | V6 a \<Rightarrow> drop_bit 120 a = 0xFF)"

text \<open>\<open>setup\<close>, up to the resources it binds: the address of the listener and the relays of the target.\<close>

definition attachment_setup ::
  "'u url_api \<Rightarrow> (string \<Rightarrow> bool) \<Rightarrow> (u16 \<Rightarrow> socket_addr option) \<Rightarrow> bool \<Rightarrow> 'u tcp_options \<Rightarrow>
   client_error + socket_addr \<times> 'u list \<times> capability" where
  "attachment_setup api host_ok bind_listener endpoint_binds options =
     (if \<not> host_ok (to_host_id options) then Inl ClInvalidHostId
      else
        res_bind (map_err ClInvalidCapability (capability_parse (to_capability options))) (\<lambda>cap.
        if cap_service_type cap \<noteq> Tcp then Inl ClUnsupportedService
        else if (case to_direct_address options of None \<Rightarrow> False
                 | Some a \<Rightarrow> sa_port a = 0 \<or> is_unspecified (sa_ip a) \<or> is_multicast (sa_ip a))
        then Inl ClInvalidDirectAddress
        else
          res_bind (collect_results (\<lambda>value. map_err (\<lambda>_. ClInvalidPeerRelay) (parse_relay_url api value))
            (to_peer_relay_urls options)) (\<lambda>relays.
          res_bind (ok_or ClListenerBind (bind_listener (to_local_port options))) (\<lambda>addr.
          if \<not> endpoint_binds then Inl ClEndpointBind else Inr (addr, relays, cap)))))"

text \<open>
  The supervision loop. Each turn publishes the peer's snapshot and, unless the peer has closed,
  waits for the next event; \<open>pending\<close> is whether the caller still waits for an answer.
\<close>

datatype loop_event =
    LoopCancelled | DriverEnded | ListenerEnded bool | StartupDeadline | PeerChanged session_status | PeerGone

record attach_run =
  ar_status :: attachment_status
  ar_pending :: bool
  ar_replies :: "(client_error + socket_addr) list"
  ar_failure :: "client_error option"

definition turn :: "socket_addr \<Rightarrow> session_status \<Rightarrow> attach_run \<Rightarrow> attach_run" where
  "turn addr snapshot a =
     (let a = a\<lparr>ar_status := publish_peer snapshot (ar_status a)\<rparr>
      in if state snapshot = Closed
         then a\<lparr>ar_failure := Some (case terminal_error snapshot of None \<Rightarrow> ClTaskFailed | Some e \<Rightarrow> ClPeer e)\<rparr>
         else if state snapshot = Connected \<and> ar_pending a
         then a\<lparr>ar_pending := False, ar_replies := ar_replies a @ [Inr addr]\<rparr>
         else a)"

fun attach_wait :: "socket_addr \<Rightarrow> loop_event list \<Rightarrow> attach_run \<Rightarrow> attach_run" where
  "attach_wait addr [] a = a"
| "attach_wait addr (LoopCancelled # _) a = a"
| "attach_wait addr (DriverEnded # _) a = a\<lparr>ar_failure := Some ClTaskFailed\<rparr>"
| "attach_wait addr (ListenerEnded failed # _) a =
     a\<lparr>ar_failure := Some (if failed then ClListenerFailed else ClTaskFailed)\<rparr>"
| "attach_wait addr (StartupDeadline # evs) a =
     (if ar_pending a then a\<lparr>ar_failure := Some ClStartupTimeout\<rparr> else attach_wait addr evs a)"
| "attach_wait addr (PeerChanged snapshot # evs) a =
     (let a = turn addr snapshot a in if state snapshot = Closed then a else attach_wait addr evs a)"
| "attach_wait addr (PeerGone # _) a = a\<lparr>ar_failure := Some ClTaskFailed\<rparr>"

definition attach_loop :: "socket_addr \<Rightarrow> session_status \<Rightarrow> loop_event list \<Rightarrow> attach_run \<Rightarrow> attach_run" where
  "attach_loop addr snapshot evs a =
     (let a = turn addr snapshot a in if state snapshot = Closed then a else attach_wait addr evs a)"

definition or_insert :: "'a \<Rightarrow> 'a option \<Rightarrow> 'a option" where
  "or_insert x y = (case y of None \<Rightarrow> Some x | Some z \<Rightarrow> Some z)"

text \<open>After the loop: the failure is published, the session is closed and the tasks joined or aborted.\<close>

definition attach_finish :: "(session_error + unit) \<Rightarrow> bool \<Rightarrow> attach_run \<Rightarrow> attach_run" where
  "attach_finish close_result in_time a =
     (let s = (case ar_failure a of None \<Rightarrow> ar_status a | Some e \<Rightarrow> publish_failed e (ar_status a));
          s = control_closing s;
          failure = (case close_result of Inl e \<Rightarrow> or_insert (ClPeer e) (ar_failure a) | Inr _ \<Rightarrow> ar_failure a);
          failure = (if in_time then failure else or_insert ClShutdownTimeout failure);
          replies = (if ar_pending a
                     then ar_replies a @ [Inl (case failure of None \<Rightarrow> ClCancelled | Some e \<Rightarrow> e)] else ar_replies a)
      in \<lparr>ar_status = control_closed failure s, ar_pending = False, ar_replies = replies, ar_failure = failure\<rparr>)"

datatype 'u setup_outcome = SetupCancelled | SetupLate | SetupDone "client_error + socket_addr \<times> 'u list \<times> capability"

definition run_attachment ::
  "bool \<Rightarrow> 'u setup_outcome \<Rightarrow> session_status \<Rightarrow> loop_event list \<Rightarrow> (session_error + unit) \<Rightarrow> bool \<Rightarrow> attach_run" where
  "run_attachment waits_connected setup_result first evs close_result in_time =
     (let start = (\<lambda>err. \<lparr>ar_status = control_closed (if err = ClCancelled then None else Some err) control_new,
            ar_pending = False, ar_replies = [Inl err], ar_failure = Some err\<rparr>)
      in case setup_result of
        SetupCancelled \<Rightarrow> start ClCancelled
      | SetupLate \<Rightarrow> start ClStartupTimeout
      | SetupDone (Inl e) \<Rightarrow> start e
      | SetupDone (Inr (addr, _, _)) \<Rightarrow>
          attach_finish close_result in_time
            (attach_loop addr first evs
               \<lparr>ar_status = publish_bound addr control_new, ar_pending = waits_connected,
                ar_replies = (if waits_connected then [] else [Inr addr]), ar_failure = None\<rparr>))"

subsection \<open>The registry\<close>

record registry =
  reg_closed :: bool
  reg_next :: nat
  reg_attachments :: "nat list"
  reg_close_error :: "client_error option"

definition registry_new :: registry where
  "registry_new = \<lparr>reg_closed = False, reg_next = 0, reg_attachments = [], reg_close_error = None\<rparr>"

definition register_attachment :: "bool \<Rightarrow> duration \<Rightarrow> registry \<Rightarrow> (client_error + nat) \<times> registry" where
  "register_attachment runtime budget g =
     (if budget = 0 \<or> budget > from_secs 300 then (Inl ClInvalidTimeout, g)
      else if \<not> runtime then (Inl ClRuntimeRequired, g)
      else if reg_closed g then (Inl ClClosed, g)
      else let key = reg_next g + 1
           in (Inr key, g\<lparr>reg_next := key, reg_attachments := key # reg_attachments g\<rparr>))"

text \<open>\<open>Drop for Completion\<close>: the attachment's last status, closed if its task did not close it.\<close>

definition completion_status :: "attachment_status \<Rightarrow> attachment_status" where
  "completion_status s = (if as_state s \<noteq> Closed then control_closed (Some ClTaskFailed) s else s)"

definition completion_drop :: "nat \<Rightarrow> attachment_status \<Rightarrow> registry \<Rightarrow> registry" where
  "completion_drop key s g =
     (let err = as_terminal_error (completion_status s);
          g = (if reg_closed g then (case err of None \<Rightarrow> g
                 | Some e \<Rightarrow> g\<lparr>reg_close_error := or_insert e (reg_close_error g)\<rparr>) else g)
      in g\<lparr>reg_attachments := removeAll key (reg_attachments g)\<rparr>)"

text \<open>\<open>Client::close\<close>, first and last part; between them it waits for the attachments it cancelled.\<close>

definition close_begin :: "registry \<Rightarrow> nat list \<times> registry" where
  "close_begin g = (reg_attachments g, g\<lparr>reg_closed := True\<rparr>)"

definition close_end :: "(client_error + unit) list \<Rightarrow> bool \<Rightarrow> registry \<Rightarrow> (client_error + unit) \<times> registry" where
  "close_end waited in_time g =
     (let error = foldl (\<lambda>acc r. case r of Inl e \<Rightarrow> or_insert e acc | Inr _ \<Rightarrow> acc) None waited;
          error = (if in_time then error else or_insert ClShutdownTimeout error);
          g = (case error of None \<Rightarrow> g | Some e \<Rightarrow> g\<lparr>reg_close_error := or_insert e (reg_close_error g)\<rparr>)
      in (case reg_close_error g of None \<Rightarrow> Inr () | Some e \<Rightarrow> Inl e, g))"

datatype registry_action = StartAttachment bool duration | AttachmentDone nat attachment_status | CloseBegin
  | CloseEnd "(client_error + unit) list" bool

fun registry_step :: "registry_action \<Rightarrow> registry \<Rightarrow> registry" where
  "registry_step (StartAttachment runtime d) g = snd (register_attachment runtime d g)"
| "registry_step (AttachmentDone key s) g = completion_drop key s g"
| "registry_step CloseBegin g = snd (close_begin g)"
| "registry_step (CloseEnd ws t) g = snd (close_end ws t g)"


subsection \<open>Lemmas\<close>

lemma status_step_revision: "status_step a s = s \<or> as_revision s < as_revision (status_step a s)"
  by (cases a) (simp_all add: control_closing_def control_closed_def publish_bound_def publish_peer_def publish_failed_def)

interpretation att_rev: revisioned_system status_step "\<lambda>s. s" as_revision
  by unfold_locales (rule status_step_revision)

text \<open>
  The replies to the caller of a startup: none while it is pending, and then exactly one; an
  answer with the address needs a connected peer if the caller asked for one.
\<close>

definition replies_ok :: "bool \<Rightarrow> socket_addr \<Rightarrow> attach_run \<Rightarrow> bool" where
  "replies_ok connected addr a \<longleftrightarrow>
     (if ar_pending a then ar_replies a = [] else ar_replies a = [Inr addr] \<and> connected)"

lemma turn_replies:
  "replies_ok c addr a \<Longrightarrow> replies_ok (c \<or> state snapshot = Connected) addr (turn addr snapshot a)"
  by (auto simp: replies_ok_def turn_def Let_def)

lemma attach_wait_replies:
  "replies_ok c addr a \<Longrightarrow>
   replies_ok (c \<or> (\<exists>st. PeerChanged st \<in> set evs \<and> state st = Connected)) addr (attach_wait addr evs a)"
proof (induction addr evs a arbitrary: c rule: attach_wait.induct)
  case (6 addr snapshot evs a)
  from 6(1) [OF refl _ turn_replies [OF 6(2)]] turn_replies [OF 6(2), of snapshot] show ?case
    by (cases "state snapshot = Closed") (auto simp: replies_ok_def Let_def split: if_splits)
qed (auto simp: replies_ok_def split: if_splits)

lemma attach_loop_replies:
  "replies_ok c addr a \<Longrightarrow>
   replies_ok (c \<or> state first = Connected \<or> (\<exists>st. PeerChanged st \<in> set evs \<and> state st = Connected)) addr
     (attach_loop addr first evs a)"
  using attach_wait_replies [OF turn_replies [of c addr a first], of evs] turn_replies [of c addr a first]
  by (cases "state first = Closed") (auto simp: attach_loop_def replies_ok_def Let_def split: if_splits)

lemma turn_pending: "ar_pending (turn addr snapshot a) \<Longrightarrow> ar_pending a"
  by (auto simp: turn_def Let_def split: if_splits)

lemma attach_wait_pending: "ar_pending (attach_wait addr evs a) \<Longrightarrow> ar_pending a"
  by (induction addr evs a rule: attach_wait.induct) (auto simp: Let_def dest: turn_pending split: if_splits)

lemma attach_loop_pending: "ar_pending (attach_loop addr first evs a) \<Longrightarrow> ar_pending a"
  by (auto simp: attach_loop_def Let_def dest: attach_wait_pending turn_pending split: if_splits)

lemma collect_relays_error:
  "collect_results (\<lambda>v. map_err (\<lambda>_. x) (f v)) vs = Inl e \<Longrightarrow> e = x"
  by (induction vs) (auto simp: result_simps)

lemma attach_finish_closed:
  "as_state (ar_status (attach_finish cr t a)) = Closed \<and> as_path (ar_status (attach_finish cr t a)) = PathUnknown \<and>
   as_terminal_error (ar_status (attach_finish cr t a)) = ar_failure (attach_finish cr t a)"
  by (simp add: attach_finish_def control_closed_def Let_def)

definition registry_inv :: "registry \<Rightarrow> bool" where
  "registry_inv g \<longleftrightarrow> distinct (reg_attachments g) \<and> (\<forall>key\<in>set (reg_attachments g). 0 < key \<and> key \<le> reg_next g)"

lemma registry_inv_step: "registry_inv g \<Longrightarrow> registry_inv (registry_step a g)"
proof (cases a)
  case (StartAttachment d)
  assume "registry_inv g"
  with StartAttachment show ?thesis by (fastforce simp: registry_inv_def register_attachment_def Let_def)
next
  case (AttachmentDone key s)
  assume "registry_inv g"
  with AttachmentDone show ?thesis
    by (auto simp: registry_inv_def completion_drop_def Let_def distinct_removeAll split: option.split)
next
  case CloseBegin
  assume "registry_inv g"
  with CloseBegin show ?thesis by (simp add: registry_inv_def close_begin_def)
next
  case (CloseEnd ws t)
  assume "registry_inv g"
  with CloseEnd show ?thesis by (auto simp: registry_inv_def close_end_def Let_def split: option.split)
qed

interpretation regs: invariant_system registry_new registry_step registry_inv
  by unfold_locales (auto simp: registry_inv_step, simp add: registry_inv_def registry_new_def)

lemma registry_closed_kept: "reg_closed g \<Longrightarrow> reg_closed (registry_step a g) \<and> reg_next (registry_step a g) = reg_next g"
  by (cases a) (auto simp: register_attachment_def completion_drop_def close_begin_def close_end_def Let_def
      split: option.split)

lemma registry_error_kept: "reg_close_error g = Some e \<Longrightarrow> reg_close_error (registry_step a g) = Some e"
  by (cases a) (auto simp: register_attachment_def completion_drop_def close_begin_def close_end_def or_insert_def Let_def
      split: option.split)

lemma registry_run_closed:
  "reg_closed g \<Longrightarrow> reg_closed (run_steps registry_step as g) \<and> reg_next (run_steps registry_step as g) = reg_next g"
  by (induction as arbitrary: g) (auto simp: registry_closed_kept)

lemma registry_run_error:
  "reg_close_error g = Some e \<Longrightarrow> reg_close_error (run_steps registry_step as g) = Some e"
  by (induction as arbitrary: g) (auto simp: registry_error_kept)

lemma setup_failure:
  assumes "\<not> (\<exists>addr relays cap. s = SetupDone (Inr (addr, relays, cap)))"
  shows "s = SetupCancelled \<or> s = SetupLate \<or> (\<exists>e. s = SetupDone (Inl e))"
  using assms by (metis setup_outcome.exhaust sum.exhaust prod.exhaust)

lemma run_attachment_outcome:
  "let a = run_attachment waits setup_result first evs close_result in_time in
   as_state (ar_status a) = Closed \<and> as_path (ar_status a) = PathUnknown \<and>
   ((\<exists>addr relays cap. ar_replies a = [Inr addr] \<and> setup_result = SetupDone (Inr (addr, relays, cap)) \<and>
       (waits = False \<or> state first = Connected \<or> (\<exists>st. PeerChanged st \<in> set evs \<and> state st = Connected))) \<or>
    (\<exists>e. ar_replies a = [Inl e] \<and> (case setup_result of SetupDone (Inr _) \<Rightarrow> waits | _ \<Rightarrow> True)))"
proof (cases "\<exists>addr relays cap. setup_result = SetupDone (Inr (addr, relays, cap))")
  case False
  from setup_failure [OF False] obtain e where "run_attachment waits setup_result first evs close_result in_time =
        \<lparr>ar_status = control_closed (if e = ClCancelled then None else Some e) control_new,
         ar_pending = False, ar_replies = [Inl e], ar_failure = Some e\<rparr>"
    by (auto simp: run_attachment_def Let_def)
  with False show ?thesis
    by (auto simp: control_closed_def Let_def split: setup_outcome.split sum.split)
next
  case True
  then obtain addr relays cap where bound: "setup_result = SetupDone (Inr (addr, relays, cap))" by blast
  define a0 where "a0 = \<lparr>ar_status = publish_bound addr control_new, ar_pending = waits,
      ar_replies = (if waits then [] else [Inr addr]), ar_failure = (None :: client_error option)\<rparr>"
  define a1 where "a1 = attach_loop addr first evs a0"
  have run: "run_attachment waits setup_result first evs close_result in_time = attach_finish close_result in_time a1"
    using bound by (simp add: run_attachment_def a1_def a0_def)
  have "replies_ok (waits = False) addr a0" by (simp add: replies_ok_def a0_def)
  from attach_loop_replies [OF this, of first evs]
  have ok: "replies_ok (waits = False \<or> state first = Connected \<or> (\<exists>st. PeerChanged st \<in> set evs \<and> state st = Connected)) addr a1"
    by (simp add: a1_def)
  have pending: "ar_pending a1 \<Longrightarrow> waits"
    using attach_loop_pending [of addr first evs a0] by (simp add: a1_def a0_def)
  from ok pending have "(\<exists>e. ar_replies (attach_finish close_result in_time a1) = [Inl e]) \<and> waits \<or>
      ar_replies (attach_finish close_result in_time a1) = [Inr addr] \<and>
      (waits = False \<or> state first = Connected \<or> (\<exists>st. PeerChanged st \<in> set evs \<and> state st = Connected))"
    by (cases "ar_pending a1") (auto simp: attach_finish_def replies_ok_def Let_def)
  with bound attach_finish_closed [of close_result in_time a1] show ?thesis
    unfolding run Let_def by auto
qed

subsection \<open>Properties\<close>


text \<open>
  Revisions of an attachment's status: over any sequence of status updates the status is
  unchanged or its revision has grown, so a subscriber may compare revisions only.
\<close>

theorem attachment_revision_identifies:
  "run_steps status_step as s = s \<or> as_revision s < as_revision (run_steps status_step as s)"
  by (rule att_rev.run_revision)

text \<open>
  C32. The registry of a client: in every reachable state the registered attachments have
  different, positive identifiers that have been handed out; once the client is closed nothing is
  registered any more and every attempt is refused; and the first error of a close is kept
  through everything that happens later.
\<close>

theorem registry_sound:
  assumes "reach registry_new registry_step g"
  shows "distinct (reg_attachments g) \<and> (\<forall>key. key \<in> set (reg_attachments g) \<longrightarrow> 0 < key \<and> key \<le> reg_next g) \<and>
    (reg_closed g \<longrightarrow> reg_next (run_steps registry_step as g) = reg_next g \<and>
       (\<exists>e. fst (register_attachment runtime d (run_steps registry_step as g)) = Inl e)) \<and>
    (\<forall>e. reg_close_error g = Some e \<longrightarrow> reg_close_error (run_steps registry_step as g) = Some e)"
proof -
  have "registry_inv g" by (rule regs.reach_inv) (rule assms)
  then have "distinct (reg_attachments g)" "\<And>key. key \<in> set (reg_attachments g) \<Longrightarrow> 0 < key \<and> key \<le> reg_next g"
    by (simp_all add: registry_inv_def)
  moreover have "reg_closed g \<Longrightarrow> \<exists>e. fst (register_attachment runtime d (run_steps registry_step as g)) = Inl e"
    using registry_run_closed [of g as] by (simp add: register_attachment_def)
  ultimately show ?thesis using registry_run_closed [of g as] registry_run_error [of g _ as] by blast
qed

theorem registry_sound_witness:
  "reg_attachments (run_steps registry_step [StartAttachment True 1, StartAttachment True 1] registry_new) = [2, 1] \<and>
   (\<exists>e. fst (register_attachment True 1 (run_steps registry_step [StartAttachment True 1, StartAttachment True 1, CloseBegin] registry_new)) = Inl e)"
proof -
  have "reach registry_new registry_step (run_steps registry_step [StartAttachment True 1, StartAttachment True 1, CloseBegin] registry_new)"
    by (intro reach_run reach_init)
  from registry_sound [OF this, of "[]" True 1]
  show ?thesis
    by (simp add: registry_new_def register_attachment_def close_begin_def from_secs_def)
qed

text \<open>
  A ticket's credential survives the way into the SDK: the options made from a well-formed
  TCP ticket lead to a setup that uses exactly the ticket's capability, and the setup fails only
  for the host identity, a relay hint or a resource.
\<close>

theorem ticket_options_faithful:
  assumes "ticket_ok t" "tcp_options_from_ticket t = Inr options"
  shows "cap_service_type (t_capability t) = Tcp \<and>
    (case attachment_setup api host_ok bind_listener endpoint_binds options of
       Inr (addr, relays, cap) \<Rightarrow> cap = t_capability t \<and> length relays = length (t_peer_relay_urls t)
     | Inl e \<Rightarrow> e \<in> {ClInvalidHostId, ClInvalidPeerRelay, ClListenerBind, ClEndpointBind})"
proof -
  from assms(2) have tcp: "cap_service_type (t_capability t) = Tcp"
    and opts: "to_capability options = capability_text (t_capability t)" "to_direct_address options = None"
      "to_peer_relay_urls options = t_peer_relay_urls t"
    by (auto simp: tcp_options_from_ticket_def tcp_options_new_def capability_text_def Let_def split: if_splits)
  have cap: "capability_parse (to_capability options) = Inr (t_capability t)"
    using assms(1) capability_parse_text opts(1) by (simp add: ticket_ok_def)
  let ?rs = "collect_results (\<lambda>value. map_err (\<lambda>_. ClInvalidPeerRelay) (parse_relay_url api value)) (to_peer_relay_urls options)"
  have err: "?rs = Inl e \<Longrightarrow> e = ClInvalidPeerRelay" for e
    by (rule collect_relays_error)
  have len: "?rs = Inr relays \<Longrightarrow> length relays = length (t_peer_relay_urls t)" for relays
    using opts(3) by (auto simp: collect_results_Inr_iff dest: list_all2_lengthD)
  show ?thesis
    using tcp cap opts(2) err len
    by (cases ?rs; cases "bind_listener (to_local_port options)") (auto simp: attachment_setup_def)
qed

theorem ticket_options_faithful_witness:
  "let options = tcp_options_new (replicate 64 CHR ''a'') ''db:tcp:k'' :: simple_url tcp_options in
   tcp_options_from_ticket (demo_ticket []) = Inr options \<and>
   (case attachment_setup simple_urls (\<lambda>_. True) (\<lambda>port. Some \<lparr>sa_ip = V4 0x7F000001, sa_port = port\<rparr>) True options of
      Inr (addr, relays, cap) \<Rightarrow> cap = t_capability (demo_ticket []) \<and> length relays = length (t_peer_relay_urls (demo_ticket []))
    | Inl e \<Rightarrow> e \<in> {ClInvalidHostId, ClInvalidPeerRelay, ClListenerBind, ClEndpointBind})"
proof -
  let ?options = "tcp_options_new (replicate 64 CHR ''a'') ''db:tcp:k'' :: simple_url tcp_options"
  have ok: "ticket_ok (demo_ticket [])" by code_simp
  have opts: "tcp_options_from_ticket (demo_ticket []) = Inr ?options"
    by (simp add: tcp_options_from_ticket_def demo_ticket_def tcp_options_new_def capability_format_def)
  from ticket_options_faithful [OF ok opts, of simple_urls "\<lambda>_. True"
      "\<lambda>port. Some \<lparr>sa_ip = V4 0x7F000001, sa_port = port\<rparr>" True]
  have "case attachment_setup simple_urls (\<lambda>_. True) (\<lambda>port. Some \<lparr>sa_ip = V4 0x7F000001, sa_port = port\<rparr>) True ?options of
      Inr (addr, relays, cap) \<Rightarrow> cap = t_capability (demo_ticket []) \<and> length relays = length (t_peer_relay_urls (demo_ticket []))
    | Inl e \<Rightarrow> e \<in> {ClInvalidHostId, ClInvalidPeerRelay, ClListenerBind, ClEndpointBind}"
    by simp
  with opts show ?thesis by (simp add: Let_def)
qed

end
