(* ===== verification/Host_State.thy ===== *)
theory Host_State
  imports Config Wire_Protocol Step_Systems
begin

text \<open>
  The persistent state of a host, \<open>src/state.rs\<close>: the private key \<open>host.key\<close> and the service
  secrets \<open>host_state.json\<close> in the state directory, written atomically, and the lock that keeps
  two processes from changing them at once.

  A state directory is its files by name and whether some process holds the lock. The operating
  system is the record \<open>io_env\<close>: which of its calls fail. An operation returns its result and the
  directory it leaves. The JSON codec, the key pair derivation and the random source are
  parameters.
\<close>

subsection \<open>Files\<close>

record state_file =
  f_bytes :: bytes
  f_mode :: u32

type_synonym files = "string \<Rightarrow> state_file option"

record state_dir =
  sd_files :: files
  sd_locked :: bool

text \<open>Where \<open>write_file_atomic\<close> fails, if it does.\<close>

datatype write_fault =
    NoFault | MkdirFault | CreateFault | WriteFault nat | SyncFault | RenameFault | DirSyncFault

record io_env =
  io_mkdir_fails :: bool
  io_lock_open_fails :: bool
  io_new_mode :: u32
  io_inspect_fails :: "string \<Rightarrow> bool"
  io_chmod_fails :: "string \<Rightarrow> bool"
  io_read_fails :: "string \<Rightarrow> bool"
  io_remove_fails :: "string \<Rightarrow> bool"
  io_write_fault :: "string \<Rightarrow> write_fault"
  io_random :: "string \<Rightarrow> string"

datatype state_error =
    NoHomeDirectory | CreateDirectory | OpenLock | StateBusy | InspectFile | SecureFile | ReadFile
  | InvalidKeyLength | ParseState | UnsupportedSchema u8 | SerializeState | CreateTemp | WriteTemp | SyncTemp
  | ReplaceFile | SyncDirectory | RemoveFile | UnknownService | NoHostState | NoHostIdentity | InvalidHostIdInState
  | IdentityMismatch

definition CURRENT_SCHEMA_VERSION :: u8 where "CURRENT_SCHEMA_VERSION = 2"
definition LEGACY_SCHEMA_VERSION :: u8 where "LEGACY_SCHEMA_VERSION = 1"

text \<open>The modes \<open>0o600\<close> and \<open>0o077\<close>.\<close>

definition PRIVATE_MODE :: u32 where "PRIVATE_MODE = 0x180"
definition OTHERS_MASK :: u32 where "OTHERS_MASK = 0x3F"

definition host_key_path :: string where "host_key_path = ''host.key''"
definition host_state_path :: string where "host_state_path = ''host_state.json''"
definition lock_path :: string where "lock_path = ''state.lock''"

lemmas state_names = host_key_path_def host_state_path_def lock_path_def

text \<open>The directory, from \<open>LOCHO_STATE_DIR\<close> and the home directory.\<close>

definition app_data_dir :: "string option \<Rightarrow> string option \<Rightarrow> state_error + string" where
  "app_data_dir locho_state_dir home =
     (case locho_state_dir of
        Some path \<Rightarrow>
          if path \<noteq> [] then Inr path
          else (case home of None \<Rightarrow> Inl NoHomeDirectory
                | Some h \<Rightarrow> Inr (path_push (path_push (path_push h ''.local'') ''share'') ''locho''))
      | None \<Rightarrow>
          (case home of None \<Rightarrow> Inl NoHomeDirectory
           | Some h \<Rightarrow> Inr (path_push (path_push (path_push h ''.local'') ''share'') ''locho'')))"

subsection \<open>Operations on the directory\<close>

type_synonym 'a state_op = "state_dir \<Rightarrow> (state_error + 'a) \<times> state_dir"

definition op_bind :: "'a state_op \<Rightarrow> ('a \<Rightarrow> 'b state_op) \<Rightarrow> 'b state_op" where
  "op_bind m f d = (case m d of (Inl e, d) \<Rightarrow> (Inl e, d) | (Inr x, d) \<Rightarrow> f x d)"

definition op_return :: "'a \<Rightarrow> 'a state_op" where "op_return x d = (Inr x, d)"
definition op_fail :: "state_error \<Rightarrow> 'a state_op" where "op_fail e d = (Inl e, d)"

definition file_exists :: "string \<Rightarrow> state_dir \<Rightarrow> bool" where
  "file_exists name d = (sd_files d name \<noteq> None)"

definition is_private :: "u32 \<Rightarrow> bool" where
  "is_private mode = (and mode OTHERS_MASK = 0)"

definition ensure_private_file :: "io_env \<Rightarrow> string \<Rightarrow> unit state_op" where
  "ensure_private_file io name d =
     (case sd_files d name of
        None \<Rightarrow> (Inl InspectFile, d)
      | Some f \<Rightarrow>
          if io_inspect_fails io name then (Inl InspectFile, d)
          else if \<not> is_private (f_mode f)
          then if io_chmod_fails io name then (Inl SecureFile, d)
               else (Inr (), d\<lparr>sd_files := (sd_files d)(name \<mapsto> f\<lparr>f_mode := PRIVATE_MODE\<rparr>)\<rparr>)
          else (Inr (), d))"

definition read_file :: "io_env \<Rightarrow> string \<Rightarrow> bytes state_op" where
  "read_file io name d =
     (case sd_files d name of
        None \<Rightarrow> (Inl ReadFile, d)
      | Some f \<Rightarrow> if io_read_fails io name then (Inl ReadFile, d) else (Inr (f_bytes f), d))"

text \<open>
  The name of the temporary file, and the steps of an atomic write: each is what it leaves in the
  directory. Writing may stop after any number of bytes. \<open>write_states\<close> lists every directory
  that exists at some moment of the write, including after a failure and the removal of the
  temporary file; the last one is what the operation leaves, and a crash leaves any of them.
\<close>

definition temp_path :: "io_env \<Rightarrow> string \<Rightarrow> string" where
  "temp_path io name = ''.'' @ name @ ''.tmp-'' @ io_random io name"

definition write_states :: "io_env \<Rightarrow> string \<Rightarrow> bytes \<Rightarrow> files \<Rightarrow> (state_error + unit) \<times> files list" where
  "write_states io name data fs =
     (let temp = temp_path io name;
          fault = io_write_fault io name;
          partial = (\<lambda>k. fs(temp \<mapsto> \<lparr>f_bytes = take k data, f_mode = PRIVATE_MODE\<rparr>));
          replaced = (fs(name \<mapsto> \<lparr>f_bytes = data, f_mode = PRIVATE_MODE\<rparr>))(temp := None);
          removed = fs(temp := None);
          writing = (\<lambda>k. map partial [0..<Suc k])
      in if fault = MkdirFault then (Inl CreateDirectory, [fs])
         else if fault = CreateFault \<or> fs temp \<noteq> None then (Inl CreateTemp, [fs, removed])
         else case fault of
           WriteFault k \<Rightarrow> (Inl WriteTemp, fs # writing (min k (length data)) @ [removed])
         | SyncFault \<Rightarrow> (Inl SyncTemp, fs # writing (length data) @ [removed])
         | RenameFault \<Rightarrow> (Inl ReplaceFile, fs # writing (length data) @ [removed])
         | DirSyncFault \<Rightarrow> (Inl SyncDirectory, fs # writing (length data) @ [replaced])
         | _ \<Rightarrow> (Inr (), fs # writing (length data) @ [replaced]))"

definition write_file_atomic :: "io_env \<Rightarrow> string \<Rightarrow> bytes \<Rightarrow> unit state_op" where
  "write_file_atomic io name data d =
     (case write_states io name data (sd_files d) of
        (res, states) \<Rightarrow> (res, d\<lparr>sd_files := last states\<rparr>))"

definition remove_if_exists :: "io_env \<Rightarrow> string \<Rightarrow> unit state_op" where
  "remove_if_exists io name d =
     (if file_exists name d
      then if io_remove_fails io name then (Inl RemoveFile, d)
           else (Inr (), d\<lparr>sd_files := (sd_files d)(name := None)\<rparr>)
      else (Inr (), d))"

subsection \<open>The lock\<close>

text \<open>\<open>File::create\<close> empties the lock file, keeping the mode it has.\<close>

definition acquire_state_lock :: "io_env \<Rightarrow> unit state_op" where
  "acquire_state_lock io d =
     (if io_mkdir_fails io then (Inl CreateDirectory, d)
      else if io_lock_open_fails io then (Inl OpenLock, d)
      else
        let mode = (case sd_files d lock_path of None \<Rightarrow> io_new_mode io | Some f \<Rightarrow> f_mode f);
            d = d\<lparr>sd_files := (sd_files d)(lock_path \<mapsto> \<lparr>f_bytes = [], f_mode = mode\<rparr>)\<rparr>
        in if sd_locked d then (Inl StateBusy, d) else (Inr (), d\<lparr>sd_locked := True\<rparr>))"

definition release_state_lock :: "state_dir \<Rightarrow> state_dir" where
  "release_state_lock d = d\<lparr>sd_locked := False\<rparr>"

text \<open>An operation under the lock: the guard is dropped when it returns.\<close>

definition with_state_lock :: "io_env \<Rightarrow> 'a state_op \<Rightarrow> 'a state_op" where
  "with_state_lock io m =
     op_bind (acquire_state_lock io) (\<lambda>_ d. case m d of (res, d) \<Rightarrow> (res, release_state_lock d))"

subsection \<open>Key and host state\<close>

text \<open>\<open>iroh\<close>'s key pairs: a fresh key, the identity of a key, and which texts are identities.\<close>

record key_api =
  key_generate :: bytes
  key_identity :: "bytes \<Rightarrow> string"
  identity_parses :: "string \<Rightarrow> bool"

record persisted_host_state =
  schema_version :: u8
  endpoint_id :: string
  attach_secret :: string
  service_secrets :: "string \<Rightarrow> string option"

definition load_or_create_host_secret_key :: "io_env \<Rightarrow> key_api \<Rightarrow> bytes state_op" where
  "load_or_create_host_secret_key io keys d =
     (if io_mkdir_fails io then (Inl CreateDirectory, d)
      else if file_exists host_key_path d
      then op_bind (ensure_private_file io host_key_path) (\<lambda>_.
           op_bind (read_file io host_key_path) (\<lambda>data.
           if length data \<noteq> 32 then op_fail InvalidKeyLength else op_return data)) d
      else op_bind (write_file_atomic io host_key_path (key_generate keys)) (\<lambda>_. op_return (key_generate keys)) d)"

definition validate_host_state_schema :: "persisted_host_state \<Rightarrow> state_error + unit" where
  "validate_host_state_schema st =
     (if schema_version st \<noteq> CURRENT_SCHEMA_VERSION \<and> schema_version st \<noteq> LEGACY_SCHEMA_VERSION
      then Inl (UnsupportedSchema (schema_version st)) else Inr ())"

definition repair_host_state :: "string \<Rightarrow> string \<Rightarrow> persisted_host_state \<Rightarrow> persisted_host_state \<times> bool" where
  "repair_host_state fresh identity st =
     (let (st, changed) = (if endpoint_id st \<noteq> identity then (st\<lparr>endpoint_id := identity\<rparr>, True) else (st, False))
      in if trim (attach_secret st) = [] then (st\<lparr>attach_secret := fresh\<rparr>, True) else (st, changed))"

definition write_host_state_file :: "io_env \<Rightarrow> persisted_host_state codec \<Rightarrow> persisted_host_state \<Rightarrow> unit state_op" where
  "write_host_state_file io sc st =
     (case to_vec sc st of
        None \<Rightarrow> op_fail SerializeState
      | Some data \<Rightarrow> write_file_atomic io host_state_path data)"

text \<open>Reading the state file, for both the host and the commands.\<close>

definition parse_state_file :: "io_env \<Rightarrow> persisted_host_state codec \<Rightarrow> persisted_host_state state_op" where
  "parse_state_file io sc =
     op_bind (ensure_private_file io host_state_path) (\<lambda>_.
     op_bind (read_file io host_state_path) (\<lambda>data.
     case from_slice sc data of
       None \<Rightarrow> op_fail ParseState
     | Some st \<Rightarrow> (case validate_host_state_schema st of Inl e \<Rightarrow> op_fail e | Inr _ \<Rightarrow> op_return st)))"

text \<open>A legacy state is brought to the current version; its one secret gives no service secrets.\<close>

definition upgrade_state :: "string \<Rightarrow> string \<Rightarrow> persisted_host_state \<Rightarrow> persisted_host_state \<times> bool" where
  "upgrade_state fresh identity st =
     (let (st, changed) = repair_host_state fresh identity st
      in if schema_version st = LEGACY_SCHEMA_VERSION then (st\<lparr>schema_version := CURRENT_SCHEMA_VERSION\<rparr>, True)
         else (st, changed))"

definition load_or_create_host_state ::
  "io_env \<Rightarrow> persisted_host_state codec \<Rightarrow> string \<Rightarrow> string \<Rightarrow> persisted_host_state state_op" where
  "load_or_create_host_state io sc fresh identity d =
     (if file_exists host_state_path d
      then op_bind (parse_state_file io sc) (\<lambda>st.
             let (st, changed) = upgrade_state fresh identity st
             in if changed then op_bind (write_host_state_file io sc st) (\<lambda>_. op_return st) else op_return st) d
      else
        let st = \<lparr>schema_version = CURRENT_SCHEMA_VERSION, endpoint_id = identity, attach_secret = fresh,
                  service_secrets = Map.empty\<rparr>
        in op_bind (write_host_state_file io sc st) (\<lambda>_. op_return st) d)"

definition save_host_state :: "io_env \<Rightarrow> persisted_host_state codec \<Rightarrow> persisted_host_state \<Rightarrow> unit state_op" where
  "save_host_state io sc st = write_host_state_file io sc st"

subsection \<open>Commands\<close>

definition reset_identity :: "io_env \<Rightarrow> unit state_op" where
  "reset_identity io =
     with_state_lock io
       (op_bind (remove_if_exists io host_key_path) (\<lambda>_. remove_if_exists io host_state_path))"

definition rotate_secret ::
  "io_env \<Rightarrow> key_api \<Rightarrow> persisted_host_state codec \<Rightarrow> string \<Rightarrow> string \<Rightarrow> string \<Rightarrow> (string \<times> string) state_op" where
  "rotate_secret io keys sc fresh new_secret service =
     with_state_lock io
       (op_bind (load_or_create_host_secret_key io keys) (\<lambda>key.
          let identity = key_identity keys key in
          op_bind (load_or_create_host_state io sc fresh identity) (\<lambda>st.
            let st = st\<lparr>endpoint_id := identity\<rparr> in
            if service_secrets st service = None then op_fail UnknownService
            else op_bind (write_host_state_file io sc
                   (st\<lparr>service_secrets := (service_secrets st)(service \<mapsto> new_secret)\<rparr>)) (\<lambda>_.
                 op_return (identity, new_secret)))))"

definition read_host_state :: "io_env \<Rightarrow> key_api \<Rightarrow> persisted_host_state codec \<Rightarrow> persisted_host_state state_op" where
  "read_host_state io keys sc d =
     (if \<not> file_exists host_state_path d then (Inl NoHostState, d)
      else op_bind (parse_state_file io sc) (\<lambda>st.
             if identity_parses keys (endpoint_id st) then op_return st else op_fail InvalidHostIdInState) d)"

definition read_service_secret ::
  "io_env \<Rightarrow> key_api \<Rightarrow> persisted_host_state codec \<Rightarrow> string \<Rightarrow> string state_op" where
  "read_service_secret io keys sc service =
     op_bind (read_host_state io keys sc) (\<lambda>st.
       case service_secrets st service of None \<Rightarrow> op_fail UnknownService | Some secret \<Rightarrow> op_return secret)"

definition read_existing_host_endpoint_id :: "io_env \<Rightarrow> key_api \<Rightarrow> string state_op" where
  "read_existing_host_endpoint_id io keys d =
     (if \<not> file_exists host_key_path d then (Inl NoHostIdentity, d)
      else op_bind (ensure_private_file io host_key_path) (\<lambda>_.
           op_bind (read_file io host_key_path) (\<lambda>data.
           if length data \<noteq> 32 then op_fail InvalidKeyLength else op_return (key_identity keys data))) d)"

definition read_host_endpoint_id :: "io_env \<Rightarrow> key_api \<Rightarrow> persisted_host_state codec \<Rightarrow> string state_op" where
  "read_host_endpoint_id io keys sc =
     op_bind (read_host_state io keys sc) (\<lambda>st.
     op_bind (read_existing_host_endpoint_id io keys) (\<lambda>identity.
     if endpoint_id st \<noteq> identity then op_fail IdentityMismatch else op_return identity))"

subsection \<open>Lemmas\<close>

named_theorems state_op_simps

lemma op_bind_Inr [state_op_simps]:
  "op_bind m f d = (Inr y, d') \<longleftrightarrow> (\<exists>x d1. m d = (Inr x, d1) \<and> f x d1 = (Inr y, d'))"
  by (auto simp: op_bind_def split: prod.split sum.split)

lemma op_bind_Inl [state_op_simps]:
  "op_bind m f d = (Inl e, d') \<longleftrightarrow> m d = (Inl e, d') \<or> (\<exists>x d1. m d = (Inr x, d1) \<and> f x d1 = (Inl e, d'))"
  by (auto simp: op_bind_def split: prod.split sum.split)

lemma op_return_eq [state_op_simps]: "op_return x d = (r, d') \<longleftrightarrow> r = Inr x \<and> d' = d"
  by (auto simp: op_return_def)

lemma op_fail_eq [state_op_simps]: "op_fail e d = (r, d') \<longleftrightarrow> r = Inl e \<and> d' = d"
  by (auto simp: op_fail_def)

lemma temp_path_fresh [simp]: "temp_path io name \<noteq> name" "name \<noteq> temp_path io name"
proof -
  have "length (temp_path io name) > length name" by (simp add: temp_path_def)
  then show "temp_path io name \<noteq> name" "name \<noteq> temp_path io name" by auto
qed

lemma temp_path_other:
  assumes "take 1 n \<noteq> ''.''"
  shows "temp_path io name \<noteq> n" "n \<noteq> temp_path io name"
  using assms by (auto simp: temp_path_def)

lemma temp_path_state_names [simp]:
  "temp_path io name \<noteq> host_key_path" "host_key_path \<noteq> temp_path io name"
  "temp_path io name \<noteq> host_state_path" "host_state_path \<noteq> temp_path io name"
  "temp_path io name \<noteq> lock_path" "lock_path \<noteq> temp_path io name"
  by (simp_all add: temp_path_def state_names)

lemma state_names_distinct [simp]:
  "host_key_path \<noteq> host_state_path" "host_state_path \<noteq> host_key_path"
  "host_key_path \<noteq> lock_path" "lock_path \<noteq> host_key_path"
  "host_state_path \<noteq> lock_path" "lock_path \<noteq> host_state_path"
  by (simp_all add: state_names)

text \<open>Every moment of an atomic write: the target is untouched, or it has been replaced.\<close>

definition new_file :: "bytes \<Rightarrow> state_file" where
  "new_file data = \<lparr>f_bytes = data, f_mode = PRIVATE_MODE\<rparr>"

definition only_temp :: "io_env \<Rightarrow> string \<Rightarrow> bytes \<Rightarrow> files \<Rightarrow> files \<Rightarrow> bool" where
  "only_temp io name data fs fs' \<longleftrightarrow>
     (let temp = temp_path io name in
      fs' = fs \<or> fs' = fs(temp := None) \<or> (\<exists>k. fs' = fs(temp \<mapsto> new_file (take k data))))"

definition replaced :: "io_env \<Rightarrow> string \<Rightarrow> bytes \<Rightarrow> files \<Rightarrow> files \<Rightarrow> bool" where
  "replaced io name data fs fs' \<longleftrightarrow> fs' = fs(name \<mapsto> new_file data, temp_path io name := None)"

lemma only_temp_intros:
  "only_temp io name data fs fs" "only_temp io name data fs (fs(temp_path io name := None))"
  "only_temp io name data fs (fs(temp_path io name \<mapsto> \<lparr>f_bytes = take k data, f_mode = PRIVATE_MODE\<rparr>))"
  "only_temp io name data fs (fs(temp_path io name \<mapsto> \<lparr>f_bytes = data, f_mode = PRIVATE_MODE\<rparr>))"
  by (auto simp: only_temp_def new_file_def Let_def intro: exI [of _ "length data"])

lemma write_states_moment:
  "fs' \<in> set (snd (write_states io name data fs)) \<Longrightarrow> only_temp io name data fs fs' \<or> replaced io name data fs fs'"
  by (cases "io_write_fault io name")
    (auto simp: write_states_def Let_def replaced_def new_file_def only_temp_intros split: if_splits)

lemma write_states_last:
  "case write_states io name data fs of (res, states) \<Rightarrow>
     (if res = Inr () \<or> res = Inl SyncDirectory then replaced io name data fs (last states)
      else last states \<in> {fs, fs(temp_path io name := None)}) \<and> res \<noteq> Inl ParseState \<and> states \<noteq> []"
  by (cases "io_write_fault io name") (simp_all add: write_states_def Let_def replaced_def new_file_def)

lemma write_file_atomic_Inr:
  "write_file_atomic io name data d = (Inr (), d') \<Longrightarrow>
   d' = d\<lparr>sd_files := (sd_files d)(name \<mapsto> new_file data, temp_path io name := None)\<rparr>"
  using write_states_last [of io name data "sd_files d"]
  by (auto simp: write_file_atomic_def replaced_def split: prod.splits)

lemma write_file_atomic_result:
  assumes "write_file_atomic io name data d = (res, d')"
  shows "d' = d\<lparr>sd_files := sd_files d'\<rparr> \<and> (\<forall>n. n \<noteq> name \<and> n \<noteq> temp_path io name \<longrightarrow> sd_files d' n = sd_files d n) \<and>
    sd_files d' name = (if res = Inr () \<or> res = Inl SyncDirectory then Some (new_file data) else sd_files d name) \<and>
    (sd_files d' (temp_path io name) = None \<or> sd_files d' = sd_files d)"
  using assms write_states_last [of io name data "sd_files d"]
  by (auto simp: write_file_atomic_def replaced_def split: prod.splits if_splits)

lemma new_file_simps [simp]: "f_bytes (new_file data) = data" "is_private (f_mode (new_file data))"
  by (simp_all add: new_file_def is_private_def PRIVATE_MODE_def OTHERS_MASK_def)

subsection \<open>Privacy\<close>

text \<open>No file but the lock is accessible to others.\<close>

definition files_private :: "files \<Rightarrow> bool" where
  "files_private fs \<longleftrightarrow> (\<forall>n f. n \<noteq> lock_path \<and> fs n = Some f \<longrightarrow> is_private (f_mode f))"

lemma files_private_upd [simp]:
  "files_private fs \<Longrightarrow> files_private (fs(n := None))"
  "files_private fs \<Longrightarrow> files_private (fs(n \<mapsto> new_file data))"
  "files_private fs \<Longrightarrow> files_private (fs(lock_path \<mapsto> f))"
  by (auto simp: files_private_def)

text \<open>An operation keeps the files private whatever it returns.\<close>

definition keeps_private :: "'a state_op \<Rightarrow> bool" where
  "keeps_private m \<longleftrightarrow> (\<forall>d. files_private (sd_files d) \<longrightarrow> files_private (sd_files (snd (m d))))"

named_theorems privacy

lemma keeps_private_bind [privacy]:
  "keeps_private m \<Longrightarrow> (\<And>x. keeps_private (f x)) \<Longrightarrow> keeps_private (op_bind m f)"
  unfolding keeps_private_def
proof (intro allI impI)
  fix d :: state_dir
  assume m: "\<forall>d. files_private (sd_files d) \<longrightarrow> files_private (sd_files (snd (m d)))"
    and f: "\<And>x. \<forall>d. files_private (sd_files d) \<longrightarrow> files_private (sd_files (snd (f x d)))"
    and d: "files_private (sd_files d)"
  obtain res d1 where "m d = (res, d1)" by fastforce
  with m [rule_format, OF d] f show "files_private (sd_files (snd (op_bind m f d)))"
    by (cases res) (auto simp: op_bind_def)
qed

lemma keeps_private_return [privacy]: "keeps_private (op_return x)" "keeps_private (op_fail e)"
  by (simp_all add: keeps_private_def op_return_def op_fail_def)

lemma write_states_private:
  "files_private fs \<Longrightarrow> fs' \<in> set (snd (write_states io name data fs)) \<Longrightarrow> files_private fs'"
  using write_states_moment [of fs' io name data fs] by (auto simp: only_temp_def replaced_def Let_def)

lemma keeps_private_write [privacy]: "keeps_private (write_file_atomic io name data)"
proof -
  have "last (snd (write_states io name data fs)) \<in> set (snd (write_states io name data fs))" for fs
    using write_states_last [of io name data fs] by (auto split: prod.splits)
  with write_states_private show ?thesis
    by (fastforce simp: keeps_private_def write_file_atomic_def split: prod.splits)
qed

lemma keeps_private_ensure [privacy]: "keeps_private (ensure_private_file io name)"
  by (auto simp: keeps_private_def ensure_private_file_def files_private_def split: option.split)

lemma keeps_private_read [privacy]: "keeps_private (read_file io name)"
  by (auto simp: keeps_private_def read_file_def split: option.split)

lemma keeps_private_remove [privacy]: "keeps_private (remove_if_exists io name)"
  by (auto simp: keeps_private_def remove_if_exists_def)

lemma keeps_private_lock [privacy]: "keeps_private (acquire_state_lock io)"
  by (auto simp: keeps_private_def acquire_state_lock_def Let_def)

lemma keeps_private_locked [privacy]: "keeps_private m \<Longrightarrow> keeps_private (with_state_lock io m)"
proof -
  assume m: "keeps_private m"
  then have "keeps_private (\<lambda>d. case m d of (res, d) \<Rightarrow> (res, release_state_lock d))"
    by (auto simp: keeps_private_def release_state_lock_def split: prod.split)
  with keeps_private_lock show ?thesis unfolding with_state_lock_def by (intro keeps_private_bind)
qed

lemma keeps_private_if:
  "(\<And>d. c d \<Longrightarrow> m d = yes d) \<Longrightarrow> (\<And>d. \<not> c d \<Longrightarrow> m d = no d) \<Longrightarrow> keeps_private yes \<Longrightarrow> keeps_private no \<Longrightarrow> keeps_private m"
  unfolding keeps_private_def by metis

lemma keeps_private_key [privacy]: "keeps_private (load_or_create_host_secret_key io keys)"
proof (cases "io_mkdir_fails io")
  case True
  then show ?thesis by (simp add: keeps_private_def load_or_create_host_secret_key_def)
next
  case False
  show ?thesis
    by (rule keeps_private_if [where c = "file_exists host_key_path"
          and yes = "op_bind (ensure_private_file io host_key_path) (\<lambda>_. op_bind (read_file io host_key_path) (\<lambda>data.
              if length data \<noteq> 32 then op_fail InvalidKeyLength else op_return data))"
          and no = "op_bind (write_file_atomic io host_key_path (key_generate keys)) (\<lambda>_. op_return (key_generate keys))"])
      (use False in \<open>auto simp: load_or_create_host_secret_key_def intro!: privacy\<close>)
qed

lemma keeps_private_write_state [privacy]: "keeps_private (write_host_state_file io sc st)"
  by (auto simp: write_host_state_file_def intro!: privacy split: option.split)

lemma keeps_private_parse [privacy]: "keeps_private (parse_state_file io sc)"
  by (auto simp: parse_state_file_def intro!: privacy split: option.split sum.split)

lemma keeps_private_load [privacy]: "keeps_private (load_or_create_host_state io sc fresh identity)"
  by (rule keeps_private_if [where c = "file_exists host_state_path"
        and yes = "op_bind (parse_state_file io sc) (\<lambda>st. let (st, changed) = upgrade_state fresh identity st
             in if changed then op_bind (write_host_state_file io sc st) (\<lambda>_. op_return st) else op_return st)"
        and no = "op_bind (write_host_state_file io sc \<lparr>schema_version = CURRENT_SCHEMA_VERSION, endpoint_id = identity,
            attach_secret = fresh, service_secrets = Map.empty\<rparr>) (\<lambda>_. op_return \<lparr>schema_version = CURRENT_SCHEMA_VERSION,
            endpoint_id = identity, attach_secret = fresh, service_secrets = Map.empty\<rparr>)"])
    (auto simp: load_or_create_host_state_def Let_def intro!: privacy split: prod.split)

lemma keeps_private_save [privacy]: "keeps_private (save_host_state io sc st)"
  by (simp add: save_host_state_def privacy)

lemma keeps_private_reset [privacy]: "keeps_private (reset_identity io)"
  by (simp add: reset_identity_def privacy)

lemma keeps_private_rotate [privacy]: "keeps_private (rotate_secret io keys sc fresh new_secret service)"
  by (auto simp: rotate_secret_def Let_def intro!: privacy)

lemma keeps_private_read_state [privacy]: "keeps_private (read_host_state io keys sc)"
  by (rule keeps_private_if [where c = "file_exists host_state_path" and no = "op_fail NoHostState"
        and yes = "op_bind (parse_state_file io sc) (\<lambda>st.
             if identity_parses keys (endpoint_id st) then op_return st else op_fail InvalidHostIdInState)"])
    (auto simp: read_host_state_def op_fail_def [where e = NoHostState] intro!: privacy)

lemma keeps_private_read_key [privacy]: "keeps_private (read_existing_host_endpoint_id io keys)"
  by (rule keeps_private_if [where c = "file_exists host_key_path" and no = "op_fail NoHostIdentity"
        and yes = "op_bind (ensure_private_file io host_key_path) (\<lambda>_. op_bind (read_file io host_key_path) (\<lambda>data.
           if length data \<noteq> 32 then op_fail InvalidKeyLength else op_return (key_identity keys data)))"])
    (auto simp: read_existing_host_endpoint_id_def op_fail_def [where e = NoHostIdentity] intro!: privacy)

lemma keeps_private_read_secret [privacy]: "keeps_private (read_service_secret io keys sc service)"
  by (auto simp: read_service_secret_def intro!: privacy split: option.split)

lemma keeps_private_read_id [privacy]: "keeps_private (read_host_endpoint_id io keys sc)"
  by (auto simp: read_host_endpoint_id_def intro!: privacy)

text \<open>
  The life of a state directory: the host's start and its commands, each with its own failures,
  and crashes in the middle of a write. A process that dies loses its lock.
\<close>

datatype dir_action =
    StartKey io_env key_api
  | LoadState io_env "persisted_host_state codec" string string
  | SaveState io_env "persisted_host_state codec" persisted_host_state
  | RotateSecret io_env key_api "persisted_host_state codec" string string string
  | ResetIdentity io_env
  | ReadSecret io_env key_api "persisted_host_state codec" string
  | ReadEndpointId io_env key_api "persisted_host_state codec"
  | CrashInWrite io_env string bytes nat

fun dir_step :: "dir_action \<Rightarrow> state_dir \<Rightarrow> state_dir" where
  "dir_step (StartKey io keys) d = snd (load_or_create_host_secret_key io keys d)"
| "dir_step (LoadState io sc fresh identity) d = snd (load_or_create_host_state io sc fresh identity d)"
| "dir_step (SaveState io sc st) d = snd (save_host_state io sc st d)"
| "dir_step (RotateSecret io keys sc fresh new_secret service) d = snd (rotate_secret io keys sc fresh new_secret service d)"
| "dir_step (ResetIdentity io) d = snd (reset_identity io d)"
| "dir_step (ReadSecret io keys sc service) d = snd (read_service_secret io keys sc service d)"
| "dir_step (ReadEndpointId io keys sc) d = snd (read_host_endpoint_id io keys sc d)"
| "dir_step (CrashInWrite io name data k) d =
     (let states = snd (write_states io name data (sd_files d))
      in d\<lparr>sd_files := states ! (k mod length states), sd_locked := False\<rparr>)"

definition empty_dir :: state_dir where
  "empty_dir = \<lparr>sd_files = Map.empty, sd_locked = False\<rparr>"

lemma keeps_privateD: "keeps_private m \<Longrightarrow> files_private (sd_files d) \<Longrightarrow> files_private (sd_files (snd (m d)))"
  by (simp add: keeps_private_def)

lemma dir_step_private: "files_private (sd_files d) \<Longrightarrow> files_private (sd_files (dir_step a d))"
proof (cases a)
  case (CrashInWrite io name data k)
  assume d: "files_private (sd_files d)"
  have "snd (write_states io name data (sd_files d)) \<noteq> []"
    using write_states_last [of io name data "sd_files d"] by (auto split: prod.splits)
  then have "snd (write_states io name data (sd_files d)) ! (k mod length (snd (write_states io name data (sd_files d))))
      \<in> set (snd (write_states io name data (sd_files d)))" by simp
  from write_states_private [OF d this] CrashInWrite show ?thesis by (simp add: Let_def)
qed (simp_all add: keeps_privateD privacy)

interpretation dirs: invariant_system empty_dir dir_step "\<lambda>d. files_private (sd_files d)"
  by unfold_locales (auto simp: dir_step_private, simp add: empty_dir_def files_private_def)

subsection \<open>What is persisted\<close>

definition file_bytes :: "string \<Rightarrow> state_dir \<Rightarrow> bytes option" where
  "file_bytes name d = map_option f_bytes (sd_files d name)"

definition persisted :: "persisted_host_state codec \<Rightarrow> state_dir \<Rightarrow> persisted_host_state option" where
  "persisted sc d = Option.bind (file_bytes host_state_path d) (from_slice sc)"

text \<open>Reading changes at most the mode of the file.\<close>

lemma ensure_private_bytes:
  "ensure_private_file io name d = (res, d') \<Longrightarrow> file_bytes n d' = file_bytes n d \<and> sd_locked d' = sd_locked d"
  by (auto simp: ensure_private_file_def file_bytes_def split: option.splits if_splits)

lemma read_file_result:
  "read_file io name d = (res, d') \<Longrightarrow> d' = d \<and> (\<forall>data. res = Inr data \<longrightarrow> file_bytes name d = Some data)"
  by (auto simp: read_file_def file_bytes_def split: option.splits if_splits)

lemma private_read_Inr:
  "op_bind (ensure_private_file io name) (\<lambda>_. op_bind (read_file io name) k) d = (Inr x, d') \<Longrightarrow>
   \<exists>data d1. file_bytes name d = Some data \<and> k data d1 = (Inr x, d') \<and> (\<forall>n. file_bytes n d1 = file_bytes n d) \<and>
     sd_locked d1 = sd_locked d"
  by (auto simp: state_op_simps dest!: read_file_result) (metis ensure_private_bytes)

lemma private_read_Inl:
  "op_bind (ensure_private_file io name) (\<lambda>_. op_bind (read_file io name) k) d = (Inl e, d') \<Longrightarrow>
   ((\<forall>n. file_bytes n d' = file_bytes n d) \<and> sd_locked d' = sd_locked d) \<or>
   (\<exists>data d1. file_bytes name d = Some data \<and> k data d1 = (Inl e, d') \<and> (\<forall>n. file_bytes n d1 = file_bytes n d) \<and>
     sd_locked d1 = sd_locked d)"
  by (auto simp: state_op_simps dest!: read_file_result dest: ensure_private_bytes) (metis ensure_private_bytes)+

lemma write_atomic_bytes:
  assumes "write_file_atomic io name data d = (res, d')"
  shows "sd_locked d' = sd_locked d"
    "n \<noteq> temp_path io name \<Longrightarrow> n \<noteq> name \<Longrightarrow> file_bytes n d' = file_bytes n d"
    "file_bytes name d' = (if res = Inr () \<or> res = Inl SyncDirectory then Some data else file_bytes name d)"
proof -
  note w = write_file_atomic_result [OF assms]
  then show "sd_locked d' = sd_locked d" by (metis state_dir.select_convs(2) state_dir.surjective state_dir.update_convs(1))
  show "n \<noteq> temp_path io name \<Longrightarrow> n \<noteq> name \<Longrightarrow> file_bytes n d' = file_bytes n d"
    "file_bytes name d' = (if res = Inr () \<or> res = Inl SyncDirectory then Some data else file_bytes name d)"
    using w by (simp_all add: file_bytes_def)
qed

lemma parse_state_file_result:
  assumes "parse_state_file io sc d = (res, d')"
  shows "(\<forall>n. file_bytes n d' = file_bytes n d) \<and> sd_locked d' = sd_locked d \<and>
    (\<forall>st. res = Inr st \<longrightarrow> persisted sc d = Some st \<and> schema_version st \<in> {CURRENT_SCHEMA_VERSION, LEGACY_SCHEMA_VERSION})"
proof (cases res)
  case (Inl e)
  have "(case from_slice sc data of None \<Rightarrow> op_fail ParseState | Some st \<Rightarrow>
      (case validate_host_state_schema st of Inl e \<Rightarrow> op_fail e | Inr _ \<Rightarrow> op_return st)) d1 = (r, d2) \<Longrightarrow> d2 = d1" for data d1 r d2
    by (cases "from_slice sc data"; cases "validate_host_state_schema (the (from_slice sc data))")
      (simp_all add: state_op_simps)
  with private_read_Inl [OF assms [unfolded Inl parse_state_file_def]] Inl show ?thesis by fastforce
next
  case (Inr st)
  with private_read_Inr [OF assms [unfolded Inr parse_state_file_def]] show ?thesis
    by (auto simp: state_op_simps persisted_def validate_host_state_schema_def split: option.splits sum.splits if_splits)
qed

lemma upgrade_state_simps:
  assumes "upgrade_state fresh identity st = (st', changed)"
    "schema_version st \<in> {CURRENT_SCHEMA_VERSION, LEGACY_SCHEMA_VERSION}"
  shows "service_secrets st' = service_secrets st" "endpoint_id st' = identity"
    "schema_version st' = CURRENT_SCHEMA_VERSION" "\<not> changed \<Longrightarrow> st' = st"
  using assms by (auto simp: upgrade_state_def repair_host_state_def CURRENT_SCHEMA_VERSION_def LEGACY_SCHEMA_VERSION_def Let_def
      split: if_splits)

lemma write_state_result:
  assumes "codec_roundtrip sc" "write_host_state_file io sc st d = (res, d')"
  shows "sd_locked d' = sd_locked d \<and> file_bytes host_key_path d' = file_bytes host_key_path d \<and>
    (if res = Inr () \<or> res = Inl SyncDirectory then persisted sc d' = Some st
     else persisted sc d' = persisted sc d)"
proof (cases "to_vec sc st")
  case None
  with assms(2) show ?thesis by (auto simp: write_host_state_file_def state_op_simps)
next
  case (Some data)
  with assms(2) have w: "write_file_atomic io host_state_path data d = (res, d')" by (simp add: write_host_state_file_def)
  from Some assms(1) have "from_slice sc data = Some st" by (simp add: codec_roundtrip_def)
  with write_atomic_bytes [OF w] show ?thesis by (simp add: persisted_def)
qed

lemma host_key_keeps_state:
  assumes "load_or_create_host_secret_key io keys d = (res, d')"
  shows "persisted sc d' = persisted sc d \<and> sd_locked d' = sd_locked d \<and>
    (\<forall>data. file_bytes host_key_path d = Some data \<longrightarrow> file_bytes host_key_path d' = Some data \<and> res \<in> {Inr data} \<union> range Inl)"
proof (cases "io_mkdir_fails io")
  case True
  with assms show ?thesis by (auto simp: load_or_create_host_secret_key_def)
next
  case False
  show ?thesis
  proof (cases "file_exists host_key_path d")
    case True
    with assms False have r: "op_bind (ensure_private_file io host_key_path) (\<lambda>_. op_bind (read_file io host_key_path) (\<lambda>data.
           if length data \<noteq> 32 then op_fail InvalidKeyLength else op_return data)) d = (res, d')"
      by (simp add: load_or_create_host_secret_key_def)
    show ?thesis
    proof (cases res)
      case (Inl e)
      from private_read_Inl [OF r [unfolded Inl]] Inl show ?thesis
        by (auto simp: state_op_simps persisted_def split: if_splits)
    next
      case (Inr key)
      from private_read_Inr [OF r [unfolded Inr]] Inr show ?thesis
        by (auto simp: state_op_simps persisted_def split: if_splits)
    qed
  next
    case False
    with assms \<open>\<not> io_mkdir_fails io\<close> obtain res1 where
      w: "write_file_atomic io host_key_path (key_generate keys) d = (res1, d')"
      by (auto simp: load_or_create_host_secret_key_def op_bind_def op_return_def split: prod.splits sum.splits)
    from False write_atomic_bytes [OF w] show ?thesis
      by (simp add: persisted_def file_exists_def file_bytes_def)
  qed
qed

lemma persisted_exists: "persisted sc d = Some st \<Longrightarrow> file_exists host_state_path d"
  by (cases "sd_files d host_state_path") (auto simp: persisted_def file_bytes_def file_exists_def)

lemma load_state_result:
  assumes sc: "codec_roundtrip sc" and load: "load_or_create_host_state io sc fresh identity d = (res, d')"
    and st: "persisted sc d = Some st"
  shows "sd_locked d' = sd_locked d \<and> file_bytes host_key_path d' = file_bytes host_key_path d \<and>
    (\<exists>st'. persisted sc d' = Some st' \<and> service_secrets st' = service_secrets st \<and>
      (\<forall>s. res = Inr s \<longrightarrow> s = st' \<and> endpoint_id s = identity \<and> schema_version s = CURRENT_SCHEMA_VERSION))"
proof -
  obtain pres d1 where p: "parse_state_file io sc d = (pres, d1)" by fastforce
  note pr = parse_state_file_result [OF p]
  then have same: "persisted sc d1 = persisted sc d" by (simp add: persisted_def)
  show ?thesis
  proof (cases pres)
    case (Inl e)
    with load p persisted_exists [OF st] have "res = Inl e" "d' = d1"
      by (simp_all add: load_or_create_host_state_def op_bind_def)
    with pr same st show ?thesis by auto
  next
    case (Inr st0)
    with pr st have st0: "st0 = st" "schema_version st \<in> {CURRENT_SCHEMA_VERSION, LEGACY_SCHEMA_VERSION}" by auto
    obtain st1 changed where u: "upgrade_state fresh identity st = (st1, changed)" by fastforce
    note up = upgrade_state_simps [OF u st0(2)]
    show ?thesis
    proof (cases changed)
      case False
      with load p Inr st0 u persisted_exists [OF st] have "res = Inr st1" "d' = d1"
        by (simp_all add: load_or_create_host_state_def op_bind_def op_return_def)
      with pr same st up False show ?thesis by auto
    next
      case True
      obtain wres d2 where w: "write_host_state_file io sc st1 d1 = (wres, d2)" by fastforce
      with load p Inr st0 u True persisted_exists [OF st] have "d' = d2" "res = (case wres of Inl e \<Rightarrow> Inl e | Inr _ \<Rightarrow> Inr st1)"
        by (auto simp: load_or_create_host_state_def op_bind_def op_return_def split: sum.splits)
      with write_state_result [OF sc w] pr same st up show ?thesis
        by (cases wres) (auto split: if_splits)
    qed
  qed
qed

lemma acquire_lock_result:
  assumes "acquire_state_lock io d = (res, d')"
  shows "persisted sc d' = persisted sc d \<and> file_bytes host_key_path d' = file_bytes host_key_path d \<and>
    (res = Inr () \<longrightarrow> \<not> sd_locked d) \<and> (res \<noteq> Inr () \<longrightarrow> sd_locked d' = sd_locked d)"
  using assms by (auto simp: acquire_state_lock_def persisted_def file_bytes_def Let_def split: if_splits option.splits)

lemma release_lock_simps [simp]:
  "persisted sc (release_state_lock d) = persisted sc d" "file_bytes n (release_state_lock d) = file_bytes n d"
  "sd_locked (release_state_lock d) = False"
  by (simp_all add: release_state_lock_def persisted_def file_bytes_def)

lemma with_state_lock_result:
  assumes "with_state_lock io m d = (res, d')"
  obtains (refused) e where "res = Inl e" "sd_locked d' = sd_locked d" "\<And>sc. persisted sc d' = persisted sc d"
      "file_bytes host_key_path d' = file_bytes host_key_path d"
  | (ran) d1 d2 where "\<not> sd_locked d" "m d1 = (res, d2)" "d' = release_state_lock d2" "\<And>sc. persisted sc d1 = persisted sc d"
      "file_bytes host_key_path d1 = file_bytes host_key_path d"
proof -
  obtain ares d1 where a: "acquire_state_lock io d = (ares, d1)" by fastforce
  note ar = acquire_lock_result [OF a]
  show thesis
  proof (cases ares)
    case (Inl e)
    with assms a have "res = Inl e" "d' = d1" by (simp_all add: with_state_lock_def op_bind_def)
    with ar Inl refused show thesis by auto
  next
    case (Inr u)
    obtain d2 where "m d1 = (res, d2)" "d' = release_state_lock d2"
      using assms a Inr by (auto simp: with_state_lock_def op_bind_def split: prod.splits)
    with ar Inr ran show thesis by auto
  qed
qed

lemma rotate_body_result:
  assumes sc: "codec_roundtrip sc" and st: "persisted sc d = Some st"
    and body: "op_bind (load_or_create_host_secret_key io keys) (\<lambda>key.
          let identity = key_identity keys key in
          op_bind (load_or_create_host_state io sc fresh identity) (\<lambda>st.
            let st = st\<lparr>endpoint_id := identity\<rparr> in
            if service_secrets st service = None then op_fail UnknownService
            else op_bind (write_host_state_file io sc
                   (st\<lparr>service_secrets := (service_secrets st)(service \<mapsto> new_secret)\<rparr>)) (\<lambda>_.
                 op_return (identity, new_secret)))) d = (res, d')"
  shows "(\<forall>key. file_bytes host_key_path d = Some key \<longrightarrow> file_bytes host_key_path d' = Some key) \<and>
    (\<exists>st'. persisted sc d' = Some st' \<and>
      (case res of
         Inr (identity, secret) \<Rightarrow> secret = new_secret \<and>
           service_secrets st service \<noteq> None \<and> endpoint_id st' = identity \<and>
           service_secrets st' = (service_secrets st)(service \<mapsto> new_secret)
       | Inl e \<Rightarrow> service_secrets st' = service_secrets st \<or>
           e = SyncDirectory \<and> service_secrets st' = (service_secrets st)(service \<mapsto> new_secret)))"
proof -
  obtain kres d1 where k: "load_or_create_host_secret_key io keys d = (kres, d1)" by fastforce
  note kr = host_key_keeps_state [OF k, of sc]
  show ?thesis
  proof (cases kres)
    case (Inl e)
    with body k have "res = Inl e" "d' = d1" by (simp_all add: op_bind_def)
    with kr st show ?thesis by auto
  next
    case (Inr key)
    define identity where "identity = key_identity keys key"
    obtain lres d2 where l: "load_or_create_host_state io sc fresh identity d1 = (lres, d2)" by fastforce
    from load_state_result [OF sc l] kr st obtain st1 where lr: "persisted sc d2 = Some st1"
      "service_secrets st1 = service_secrets st" "file_bytes host_key_path d2 = file_bytes host_key_path d1"
      "\<And>s. lres = Inr s \<Longrightarrow> s = st1 \<and> endpoint_id s = identity" by auto
    show ?thesis
    proof (cases lres)
      case Inl': (Inl e)
      with body k Inr l have "res = Inl e" "d' = d2" by (simp_all add: op_bind_def identity_def Let_def)
      with kr lr show ?thesis by auto
    next
      case Inr': (Inr s)
      with lr(4) have s: "s\<lparr>endpoint_id := identity\<rparr> = st1" by auto
      show ?thesis
      proof (cases "service_secrets st service")
        case None
        with body k Inr l Inr' s lr have "res = Inl UnknownService" "d' = d2"
          by (auto simp: op_bind_def op_fail_def identity_def Let_def)
        with kr lr show ?thesis by auto
      next
        case (Some old)
        let ?st = "st1\<lparr>service_secrets := (service_secrets st1)(service \<mapsto> new_secret)\<rparr>"
        obtain wres d3 where w: "write_host_state_file io sc ?st d2 = (wres, d3)" by fastforce
        have "s\<lparr>endpoint_id := identity, service_secrets := (service_secrets s)(service \<mapsto> new_secret)\<rparr> = ?st"
          using s by auto
        with body k Inr l Inr' w Some lr(2) s
        have res: "d' = d3" "res = (case wres of Inl e \<Rightarrow> Inl e | Inr _ \<Rightarrow> Inr (identity, new_secret))"
          by (auto simp: op_bind_def op_return_def identity_def Let_def split: sum.splits)
        from write_state_result [OF sc w] kr lr res Some Inr' s show ?thesis
          by (cases wres) (auto split: if_splits)
      qed
    qed
  qed
qed

subsection \<open>Properties\<close>

text \<open>
  C10. Files are replaced atomically and never half: at every moment of a write, so after a crash
  at any point too, the file has its old content and mode or is the complete new file with mode
  0600, and no other file but the temporary one differs. A write that succeeds leaves the new
  file and no temporary file; one that fails before the replacement leaves the old one.
\<close>

theorem atomic_write_all_or_nothing:
  assumes "fs' \<in> set (snd (write_states io name data fs))"
  shows "(fs' name = fs name \<or> fs' name = Some \<lparr>f_bytes = data, f_mode = PRIVATE_MODE\<rparr>) \<and>
    (\<forall>n. n \<noteq> name \<and> n \<noteq> temp_path io name \<longrightarrow> fs' n = fs n) \<and>
    (case write_file_atomic io name data \<lparr>sd_files = fs, sd_locked = l\<rparr> of
       (Inr _, d) \<Rightarrow> sd_files d name = Some \<lparr>f_bytes = data, f_mode = PRIVATE_MODE\<rparr> \<and> sd_files d (temp_path io name) = None
     | (Inl e, d) \<Rightarrow> e = SyncDirectory \<or> sd_files d name = fs name)"
proof -
  obtain res d where w: "write_file_atomic io name data \<lparr>sd_files = fs, sd_locked = l\<rparr> = (res, d)" by fastforce
  have "(fs' name = fs name \<or> fs' name = Some \<lparr>f_bytes = data, f_mode = PRIVATE_MODE\<rparr>) \<and>
      (\<forall>n. n \<noteq> name \<and> n \<noteq> temp_path io name \<longrightarrow> fs' n = fs n)"
    using write_states_moment [OF assms] by (auto simp: only_temp_def replaced_def new_file_def Let_def)
  moreover have "case (res, d) of
      (Inr _, d) \<Rightarrow> sd_files d name = Some \<lparr>f_bytes = data, f_mode = PRIVATE_MODE\<rparr> \<and> sd_files d (temp_path io name) = None
    | (Inl e, d) \<Rightarrow> e = SyncDirectory \<or> sd_files d name = fs name"
  proof (cases res)
    case (Inl e)
    with write_file_atomic_result [OF w] show ?thesis by auto
  next
    case (Inr u)
    with write_file_atomic_Inr [of io name data "\<lparr>sd_files = fs, sd_locked = l\<rparr>" d] w show ?thesis by (simp add: new_file_def)
  qed
  ultimately show ?thesis unfolding w by blast
qed

definition quiet_io :: io_env where
  "quiet_io = \<lparr>io_mkdir_fails = False, io_lock_open_fails = False, io_new_mode = 0x1A4, io_inspect_fails = (\<lambda>_. False),
     io_chmod_fails = (\<lambda>_. False), io_read_fails = (\<lambda>_. False), io_remove_fails = (\<lambda>_. False),
     io_write_fault = (\<lambda>_. NoFault), io_random = (\<lambda>_. ''7'')\<rparr>"

theorem atomic_write_all_or_nothing_witness:
  "let fs = [host_key_path \<mapsto> \<lparr>f_bytes = ''old'', f_mode = 0x180\<rparr>] in
   map (\<lambda>fs'. map_option f_bytes (fs' host_key_path)) (snd (write_states quiet_io host_key_path ''ab'' fs)) =
     [Some ''old'', Some ''old'', Some ''old'', Some ''old'', Some ''ab''] \<and>
   fst (write_file_atomic quiet_io host_key_path ''ab'' \<lparr>sd_files = fs, sd_locked = True\<rparr>) = Inr () \<and>
   sd_files (snd (write_file_atomic quiet_io host_key_path ''ab'' \<lparr>sd_files = fs, sd_locked = True\<rparr>)) host_key_path =
     Some \<lparr>f_bytes = ''ab'', f_mode = PRIVATE_MODE\<rparr>"
proof -
  define fs where "fs = [host_key_path \<mapsto> \<lparr>f_bytes = ''old'', f_mode = 0x180 :: u32\<rparr>]"
  have states: "map (\<lambda>fs'. map_option f_bytes (fs' host_key_path)) (snd (write_states quiet_io host_key_path ''ab'' fs)) =
     [Some ''old'', Some ''old'', Some ''old'', Some ''old'', Some ''ab'']"
    by (simp add: write_states_def fs_def quiet_io_def Let_def)
  have "fs \<in> set (snd (write_states quiet_io host_key_path ''ab'' fs))"
    by (simp add: write_states_def fs_def quiet_io_def Let_def)
  note moment = this
  obtain d where w: "write_file_atomic quiet_io host_key_path ''ab'' \<lparr>sd_files = fs, sd_locked = True\<rparr> = (Inr (), d)"
    by (simp add: write_file_atomic_def write_states_def fs_def quiet_io_def Let_def)
  have "sd_files d host_key_path = Some \<lparr>f_bytes = ''ab'', f_mode = PRIVATE_MODE\<rparr>"
    using atomic_write_all_or_nothing [OF moment, of True] w by simp
  with states w show ?thesis unfolding fs_def Let_def by simp
qed



text \<open>
  Rotating a secret changes that secret only: on success the persisted secrets are the old
  ones with the new secret for the one service, which was known, under the identity of the host
  key, and the lock is free again; nobody else held it. On failure the persisted secrets are the
  old ones, except that a failure to flush the directory after the replacement is reported though
  the new secret is in place. The host key is not changed either way.
\<close>

theorem rotate_secret_exact:
  assumes sc: "codec_roundtrip sc" and st: "persisted sc d = Some st"
    and rotate: "rotate_secret io keys sc fresh new_secret service d = (res, d')"
  shows "(\<forall>key. file_bytes host_key_path d = Some key \<longrightarrow> file_bytes host_key_path d' = Some key) \<and>
    (\<exists>st'. persisted sc d' = Some st' \<and>
      (case res of
         Inr (identity, secret) \<Rightarrow> secret = new_secret \<and> \<not> sd_locked d \<and> \<not> sd_locked d' \<and>
           service_secrets st service \<noteq> None \<and> endpoint_id st' = identity \<and>
           service_secrets st' = (service_secrets st)(service \<mapsto> new_secret)
       | Inl e \<Rightarrow> sd_locked d' = sd_locked d \<and> (service_secrets st' = service_secrets st \<or>
           e = SyncDirectory \<and> service_secrets st' = (service_secrets st)(service \<mapsto> new_secret))))"
  using rotate unfolding rotate_secret_def
proof (cases rule: with_state_lock_result)
  case (refused e)
  with st show ?thesis by auto
next
  case (ran d1 d2)
  from rotate_body_result [OF sc _ ran(2)] ran st show ?thesis
    by (cases res) (auto split: prod.splits)
qed

definition demo_state :: "string \<Rightarrow> persisted_host_state" where
  "demo_state secret = \<lparr>schema_version = CURRENT_SCHEMA_VERSION, endpoint_id = ''host'', attach_secret = ''x'',
     service_secrets = [''db'' \<mapsto> secret]\<rparr>"

definition demo_state_codec :: "persisted_host_state codec" where
  "demo_state_codec = \<lparr>to_vec = (\<lambda>st. case service_secrets st ''db'' of
       None \<Rightarrow> None | Some secret \<Rightarrow> if st = demo_state secret then Some secret else None),
     from_slice = (\<lambda>data. Some (demo_state data))\<rparr>"

definition demo_keys :: key_api where
  "demo_keys = \<lparr>key_generate = replicate 32 CHR ''k'', key_identity = (\<lambda>_. ''host''), identity_parses = (\<lambda>_. True)\<rparr>"

definition demo_dir :: state_dir where
  "demo_dir = \<lparr>sd_files = [host_key_path \<mapsto> new_file (replicate 32 CHR ''k''), host_state_path \<mapsto> new_file ''old''], sd_locked = False\<rparr>"

lemma demo_state_codec_roundtrip: "codec_roundtrip demo_state_codec"
  by (auto simp: codec_roundtrip_def demo_state_codec_def split: option.splits if_splits)

lemma demo_dir_persisted: "persisted demo_state_codec demo_dir = Some (demo_state ''old'')"
  by (simp add: persisted_def file_bytes_def demo_dir_def demo_state_codec_def)

lemma demo_rotate:
  "\<exists>d'. rotate_secret quiet_io demo_keys demo_state_codec ''f'' ''new'' ''db'' demo_dir = (Inr (''host'', ''new''), d')"
proof -
  have "to_vec demo_state_codec ((demo_state ''old'')\<lparr>endpoint_id := ''host'', service_secrets := [''db'' \<mapsto> ''new'']\<rparr>) = Some ''new''"
    by (simp add: demo_state_codec_def demo_state_def)
  moreover have "trim ''x'' = ''x''" by code_simp
  ultimately show ?thesis
    by (simp add: rotate_secret_def with_state_lock_def op_bind_def acquire_state_lock_def quiet_io_def demo_dir_def
        load_or_create_host_secret_key_def file_exists_def ensure_private_file_def read_file_def op_return_def demo_keys_def
        load_or_create_host_state_def parse_state_file_def demo_state_codec_def validate_host_state_schema_def
        upgrade_state_def repair_host_state_def demo_state_def Let_def release_state_lock_def
        write_host_state_file_def write_file_atomic_def write_states_def CURRENT_SCHEMA_VERSION_def LEGACY_SCHEMA_VERSION_def)
qed

theorem rotate_secret_exact_witness:
  "\<exists>d' st'. rotate_secret quiet_io demo_keys demo_state_codec ''f'' ''new'' ''db'' demo_dir = (Inr (''host'', ''new''), d') \<and>
     persisted demo_state_codec d' = Some st' \<and> service_secrets st' = [''db'' \<mapsto> ''new'']"
proof -
  from demo_rotate obtain d' where
    r: "rotate_secret quiet_io demo_keys demo_state_codec ''f'' ''new'' ''db'' demo_dir = (Inr (''host'', ''new''), d')" by blast
  from rotate_secret_exact [OF demo_state_codec_roundtrip demo_dir_persisted r] r show ?thesis
    by (auto simp: demo_state_def)
qed

text \<open>
  What the host saved is what it finds: a current state that was saved successfully is loaded
  back unchanged by the next start under the same identity, which writes nothing, and the commands
  read the secret of each service from it.
\<close>

theorem saved_state_loads:
  assumes "codec_roundtrip sc" "save_host_state io sc st d = (Inr (), d1)"
    and "schema_version st = CURRENT_SCHEMA_VERSION" "trim (attach_secret st) \<noteq> []" "identity_parses keys (endpoint_id st)"
    and "\<not> io_inspect_fails io' host_state_path" "\<not> io_read_fails io' host_state_path"
  shows "load_or_create_host_state io' sc fresh (endpoint_id st) d1 = (Inr st, d1) \<and>
    read_service_secret io' keys sc service d1 =
      ((case service_secrets st service of None \<Rightarrow> Inl UnknownService | Some secret \<Rightarrow> Inr secret), d1)"
proof -
  from assms(2) obtain data where data: "to_vec sc st = Some data"
    and w: "write_file_atomic io host_state_path data d = (Inr (), d1)"
    by (cases "to_vec sc st") (auto simp: save_host_state_def write_host_state_file_def state_op_simps)
  from data assms(1) have dec: "from_slice sc data = Some st" by (simp add: codec_roundtrip_def)
  have f: "sd_files d1 host_state_path = Some (new_file data)"
    using write_file_atomic_Inr [OF w] by simp
  have parse: "parse_state_file io' sc d1 = (Inr st, d1)"
    using assms(3,6,7) f dec
    by (simp add: parse_state_file_def op_bind_def ensure_private_file_def read_file_def op_return_def
        validate_host_state_schema_def)
  have "upgrade_state fresh (endpoint_id st) st = (st, False)"
    using assms(3,4) by (simp add: upgrade_state_def repair_host_state_def CURRENT_SCHEMA_VERSION_def LEGACY_SCHEMA_VERSION_def)
  with parse f assms(5) show ?thesis
    by (simp add: load_or_create_host_state_def file_exists_def op_bind_def op_return_def op_fail_def read_service_secret_def
        read_host_state_def split: option.split)
qed

theorem saved_state_loads_witness:
  "\<exists>d1. save_host_state quiet_io demo_state_codec (demo_state ''s3'') empty_dir = (Inr (), d1) \<and>
     load_or_create_host_state quiet_io demo_state_codec ''f'' ''host'' d1 = (Inr (demo_state ''s3''), d1) \<and>
     read_service_secret quiet_io demo_keys demo_state_codec ''db'' d1 = (Inr ''s3'', d1)"
proof -
  have "to_vec demo_state_codec (demo_state ''s3'') = Some ''s3''" by (simp add: demo_state_codec_def demo_state_def)
  then obtain d1 where s: "save_host_state quiet_io demo_state_codec (demo_state ''s3'') empty_dir = (Inr (), d1)"
    by (simp add: save_host_state_def write_host_state_file_def write_file_atomic_def write_states_def quiet_io_def
        empty_dir_def Let_def)
  have "trim ''x'' \<noteq> []" by code_simp
  then have st: "schema_version (demo_state ''s3'') = CURRENT_SCHEMA_VERSION" "trim (attach_secret (demo_state ''s3'')) \<noteq> []"
    "identity_parses demo_keys (endpoint_id (demo_state ''s3''))"
    by (simp_all add: demo_state_def demo_keys_def)
  have "\<not> io_inspect_fails quiet_io host_state_path" "\<not> io_read_fails quiet_io host_state_path" by (simp_all add: quiet_io_def)
  from saved_state_loads [OF demo_state_codec_roundtrip s st this] s show ?thesis by (simp add: demo_state_def)
qed

end
