(* ===== verification/Host_Startup.thy ===== *)
theory Host_Startup
  imports Host Host_State Relay_Policy
begin

text \<open>
  The start of a host, the first part of \<open>run\<close> in \<open>src/host.rs\<close>: configuration, relay policy,
  state lock, identity, endpoint, service secrets, certificates and HTTP clients, and the state
  saved before the first connection is accepted. The lock is held while the host runs; a start
  that fails drops it.
\<close>

datatype startup_error =
    StartConfig config_error | StartRelay relay_file_error | StartState state_error | StartBindAddress bind_error
  | StartAddressRefused | StartEndpoint | StartCaRead string | StartCaParse string | StartClient string

text \<open>What a start finds outside: files, environment, network, and the crates it calls.\<close>

record 'u startup_env =
  se_urls :: "'u url_api"
  se_read :: "string \<Rightarrow> bytes option"
  se_pem_ok :: "bytes \<Rightarrow> bool"
  se_config_toml :: "bytes \<Rightarrow> 'u service_config list option"
  se_relay_toml :: "string \<Rightarrow> relay_file option"
  se_header_value_ok :: "string \<Rightarrow> bool"
  se_n0_map :: "'u \<Rightarrow> 'u relay_config option"
  se_env :: "string \<Rightarrow> string option"
  se_address_accepted :: "socket_addr \<Rightarrow> bool"
  se_endpoint_binds :: bool
  se_client_builds :: "string \<Rightarrow> bool"
  se_io :: io_env
  se_keys :: key_api
  se_codec :: "persisted_host_state codec"
  se_attach_secret :: string
  se_fresh :: "string \<Rightarrow> string"

definition bind_option :: "'u startup_env \<Rightarrow> socket_addr option \<Rightarrow> startup_error + unit" where
  "bind_option env bind_address =
     (case bind_address of
        None \<Rightarrow> Inr ()
      | Some address \<Rightarrow>
          res_bind (map_err StartBindAddress (validate_bind_address address)) (\<lambda>address.
          bail_if (\<not> se_address_accepted env address) StartAddressRefused))"

text \<open>The certificates of the services that name one, then a client per HTTP service.\<close>

definition load_ca_certificate :: "'u startup_env \<Rightarrow> 'u service_config \<Rightarrow> startup_error + unit" where
  "load_ca_certificate env svc =
     (case svc_ca_cert svc of
        None \<Rightarrow> Inr ()
      | Some ca_cert \<Rightarrow>
          res_bind (ok_or (StartCaRead ca_cert) (se_read env ca_cert)) (\<lambda>certificate.
          bail_if (\<not> se_pem_ok env certificate) (StartCaParse ca_cert)))"

definition build_client :: "'u startup_env \<Rightarrow> 'u service_config \<Rightarrow> startup_error + unit" where
  "build_client env svc = bail_if (svc_type svc = Http \<and> \<not> se_client_builds env (svc_name svc)) (StartClient (svc_name svc))"

definition build_clients :: "'u startup_env \<Rightarrow> 'u service_config list \<Rightarrow> startup_error + unit" where
  "build_clients env services =
     res_bind (collect_results (load_ca_certificate env) services) (\<lambda>_.
     res_bind (collect_results (build_client env) services) (\<lambda>_. Inr ()))"

type_synonym 'a start_op = "state_dir \<Rightarrow> (startup_error + 'a) \<times> state_dir"

definition start_bind :: "'a start_op \<Rightarrow> ('a \<Rightarrow> 'b start_op) \<Rightarrow> 'b start_op" where
  "start_bind m f d = (case m d of (Inl e, d) \<Rightarrow> (Inl e, d) | (Inr x, d) \<Rightarrow> f x d)"

definition pure_start :: "startup_error + 'a \<Rightarrow> 'a start_op" where
  "pure_start r d = (r, d)"

definition state_start :: "'a state_op \<Rightarrow> 'a start_op" where
  "state_start m d = (case m d of (r, d) \<Rightarrow> (map_err StartState r, d))"

text \<open>The part under the lock.\<close>

definition start_locked ::
  "'u startup_env \<Rightarrow> socket_addr option \<Rightarrow> 'u service_config list \<Rightarrow> ('u host_services \<times> string) start_op" where
  "start_locked env bind_address services =
     start_bind (state_start (load_or_create_host_secret_key (se_io env) (se_keys env))) (\<lambda>key.
     start_bind (pure_start (bind_option env bind_address)) (\<lambda>_.
     start_bind (pure_start (bail_if (\<not> se_endpoint_binds env) StartEndpoint)) (\<lambda>_.
     let identity = key_identity (se_keys env) key in
     start_bind (state_start (load_or_create_host_state (se_io env) (se_codec env) (se_attach_secret env) identity)) (\<lambda>st.
     let hs = prepare_services (se_fresh env) services (service_secrets st);
         st = st\<lparr>service_secrets := hs_secrets hs\<rparr> in
     start_bind (pure_start (build_clients env services)) (\<lambda>_.
     start_bind (state_start (save_host_state (se_io env) (se_codec env) st)) (\<lambda>_.
     pure_start (Inr (hs, identity))))))))"

text \<open>The lock guard, dropped when the rest of the start fails.\<close>

definition unlock_on_error :: "'a start_op \<Rightarrow> 'a start_op" where
  "unlock_on_error m d = (case m d of (Inl e, d) \<Rightarrow> (Inl e, release_state_lock d) | (Inr x, d) \<Rightarrow> (Inr x, d))"

definition host_startup ::
  "'u startup_env \<Rightarrow> string \<Rightarrow> string option \<Rightarrow> socket_addr option \<Rightarrow> ('u host_services \<times> string) start_op" where
  "host_startup env config_path relay_config_path bind_address =
     start_bind (pure_start (map_err StartConfig
       (config_load (se_urls env) False (se_read env) (se_pem_ok env) (se_config_toml env) config_path))) (\<lambda>services.
     start_bind (pure_start (map_err StartRelay
       (relay_file_load (se_urls env) (se_header_value_ok env) (se_n0_map env) (se_env env) (se_relay_toml env) (se_read env)
          relay_config_path))) (\<lambda>_.
     start_bind (state_start (acquire_state_lock (se_io env))) (\<lambda>_.
     unlock_on_error (start_locked env bind_address services))))"

text \<open>The end of \<open>run\<close>: the lock is dropped.\<close>

definition host_stopped :: "state_dir \<Rightarrow> state_dir" where
  "host_stopped d = release_state_lock d"

subsection \<open>Lemmas\<close>

lemma start_bind_Inr [state_op_simps]:
  "start_bind m f d = (Inr y, d') \<longleftrightarrow> (\<exists>x d1. m d = (Inr x, d1) \<and> f x d1 = (Inr y, d'))"
  by (auto simp: start_bind_def split: prod.split sum.split)

lemma pure_start_Inr [state_op_simps]: "pure_start r d = (Inr x, d') \<longleftrightarrow> r = Inr x \<and> d' = d"
  by (auto simp: pure_start_def)

lemma state_start_Inr [state_op_simps]: "state_start m d = (Inr x, d') \<longleftrightarrow> m d = (Inr x, d')"
  by (cases "fst (m d)"; cases "m d") (auto simp: state_start_def)

lemma unlock_on_error_Inr [state_op_simps]: "unlock_on_error m d = (Inr x, d') \<longleftrightarrow> m d = (Inr x, d')"
  by (cases "fst (m d)"; cases "m d") (auto simp: unlock_on_error_def)

text \<open>What a successful start leaves: the key and the secrets of its services.\<close>

lemma host_key_Inr:
  assumes "load_or_create_host_secret_key io keys d = (Inr key, d')"
  shows "file_bytes host_key_path d' = Some key"
proof (cases "file_bytes host_key_path d")
  case (Some data)
  with host_key_keeps_state [OF assms] show ?thesis by auto
next
  case None
  then have "\<not> file_exists host_key_path d" by (simp add: file_bytes_def file_exists_def)
  with assms obtain d1 where "write_file_atomic io host_key_path (key_generate keys) d = (Inr (), d1)"
    "key = key_generate keys" "d' = d1"
    by (auto simp: load_or_create_host_secret_key_def state_op_simps split: if_splits)
  with write_file_atomic_Inr [of io host_key_path "key_generate keys" d d1] show ?thesis by (simp add: file_bytes_def)
qed

lemma start_locked_Inr:
  assumes sc: "codec_roundtrip (se_codec env)" and start: "start_locked env bind_address services d = (Inr (hs, identity), d')"
  obtains key d1 d2 st where "load_or_create_host_secret_key (se_io env) (se_keys env) d = (Inr key, d1)"
    "identity = key_identity (se_keys env) key"
    "load_or_create_host_state (se_io env) (se_codec env) (se_attach_secret env) identity d1 = (Inr st, d2)"
    "hs = prepare_services (se_fresh env) services (service_secrets st)"
    "persisted (se_codec env) d' = Some (st\<lparr>service_secrets := hs_secrets hs\<rparr>)"
    "file_bytes host_key_path d' = file_bytes host_key_path d2"
proof -
  from start obtain key d1 st d2 where
    k: "load_or_create_host_secret_key (se_io env) (se_keys env) d = (Inr key, d1)" "identity = key_identity (se_keys env) key"
    and l: "load_or_create_host_state (se_io env) (se_codec env) (se_attach_secret env) identity d1 = (Inr st, d2)"
    and hs: "hs = prepare_services (se_fresh env) services (service_secrets st)"
    and s: "save_host_state (se_io env) (se_codec env) (st\<lparr>service_secrets := hs_secrets hs\<rparr>) d2 = (Inr (), d')"
    by (auto simp: start_locked_def state_op_simps Let_def)
  from write_state_result [OF sc s [unfolded save_host_state_def]] that [OF k l hs] show thesis by simp
qed

lemma new_state_key:
  assumes sc: "codec_roundtrip sc" and "load_or_create_host_state io sc fresh identity d = (Inr st, d')"
  shows "file_bytes host_key_path d' = file_bytes host_key_path d"
proof (cases "file_exists host_state_path d")
  case False
  with assms(2) obtain st0 where w: "write_host_state_file io sc st0 d = (Inr (), d')"
    by (auto simp: load_or_create_host_state_def state_op_simps Let_def)
  from write_state_result [OF sc w] show ?thesis by simp
next
  case True
  with assms(2) obtain st0 d1 where p: "parse_state_file io sc d = (Inr st0, d1)"
    by (auto simp: load_or_create_host_state_def state_op_simps)
  then have "persisted sc d = Some st0" using parse_state_file_result by blast
  from load_state_result [OF sc assms(2) this] show ?thesis by simp
qed

lemma host_startup_Inr:
  assumes "host_startup env config_path relay_path bind_address d = (Inr started, d')"
  obtains services d1 where
    "config_load (se_urls env) False (se_read env) (se_pem_ok env) (se_config_toml env) config_path = Inr services"
    "\<not> sd_locked d" "persisted (se_codec env) d1 = persisted (se_codec env) d" "file_bytes host_key_path d1 = file_bytes host_key_path d"
    "start_locked env bind_address services d1 = (Inr started, d')"
proof -
  from assms obtain services d1 where
    c: "config_load (se_urls env) False (se_read env) (se_pem_ok env) (se_config_toml env) config_path = Inr services"
    and a: "acquire_state_lock (se_io env) d = (Inr (), d1)"
    and s: "start_locked env bind_address services d1 = (Inr started, d')"
    by (auto simp: host_startup_def state_op_simps result_simps)
  from acquire_lock_result [OF a, of "se_codec env"] that [OF c _ _ _ s] show thesis by simp
qed

lemma config_load_valid:
  "config_load api it rf pem toml p = Inr services \<Longrightarrow> config_validate api it rf pem services = Inr ()"
  by (auto simp: config_load_def result_simps)

subsection \<open>Properties\<close>

text \<open>
  C7. Restarting a host keeps what its clients hold: if a host has started and stopped, the next
  start on the same state directory has the same identity, and every service configured for both
  starts has the same secret, so capabilities and tickets handed out before keep working. This
  holds whatever else the second start's configuration contains and whatever it would generate.
\<close>

theorem restart_keeps_capabilities:
  assumes sc: "codec_roundtrip (se_codec env)" "se_codec env' = se_codec env" "se_keys env' = se_keys env"
    and first: "host_startup env config_path relay_path bind_address d = (Inr (hs, identity), d1)"
    and second: "host_startup env' config_path' relay_path' bind_address' (host_stopped d1) = (Inr (hs', identity'), d2)"
    and svc: "svc \<in> set (hs_services hs)" "svc_name svc \<in> svc_name ` set (hs_services hs')"
  shows "identity' = identity \<and> hs_secrets hs' (svc_name svc) = hs_secrets hs (svc_name svc) \<and> hs_secrets hs (svc_name svc) \<noteq> None"
proof -
  from host_startup_Inr [OF first] obtain services d0 where
    c: "config_load (se_urls env) False (se_read env) (se_pem_ok env) (se_config_toml env) config_path = Inr services"
    and s: "start_locked env bind_address services d0 = (Inr (hs, identity), d1)" by metis
  from start_locked_Inr [OF sc(1) s] obtain key da db st where
    k: "load_or_create_host_secret_key (se_io env) (se_keys env) d0 = (Inr key, da)" "identity = key_identity (se_keys env) key"
    and l: "load_or_create_host_state (se_io env) (se_codec env) (se_attach_secret env) identity da = (Inr st, db)"
    and hs: "hs = prepare_services (se_fresh env) services (service_secrets st)"
    and p: "persisted (se_codec env) d1 = Some (st\<lparr>service_secrets := hs_secrets hs\<rparr>)"
      "file_bytes host_key_path d1 = file_bytes host_key_path db" by metis
  have key: "file_bytes host_key_path d1 = Some key"
    using host_key_Inr [OF k(1)] new_state_key [OF sc(1) l] p(2) by simp
  have sc': "codec_roundtrip (se_codec env')" using sc by simp
  from host_startup_Inr [OF second] obtain services' d0' where
    c': "config_load (se_urls env') False (se_read env') (se_pem_ok env') (se_config_toml env') config_path' = Inr services'"
    and same: "persisted (se_codec env') d0' = persisted (se_codec env) d1" "file_bytes host_key_path d0' = Some key"
    and s': "start_locked env' bind_address' services' d0' = (Inr (hs', identity'), d2)"
    using key sc(2) by (auto simp: host_stopped_def)
  from start_locked_Inr [OF sc' s'] obtain key' da' db' st' where
    k': "load_or_create_host_secret_key (se_io env') (se_keys env') d0' = (Inr key', da')"
      "identity' = key_identity (se_keys env') key'"
    and l': "load_or_create_host_state (se_io env') (se_codec env') (se_attach_secret env') identity' da' = (Inr st', db')"
    and hs': "hs' = prepare_services (se_fresh env') services' (service_secrets st')" by metis
  have "identity' = identity"
    using host_key_keeps_state [OF k'(1)] same(2) k k' sc(3) by auto
  moreover have "service_secrets st' = hs_secrets hs"
    using load_state_result [OF sc' l', of "st\<lparr>service_secrets := hs_secrets hs\<rparr>"]
      host_key_keeps_state [OF k'(1), of "se_codec env'"] same(1) p(1) by auto
  moreover have "hs_secrets hs (svc_name svc) \<noteq> None"
    using svc(1) hs prepare_secrets_eq [OF validated_names [OF config_load_valid [OF c]]]
    by (simp add: prepare_services_def)
  moreover have "svc_name svc \<in> svc_name ` set services'" using svc(2) hs' by (simp add: prepare_services_def)
  ultimately show ?thesis
    using hs' prepare_secrets_eq [OF validated_names [OF config_load_valid [OF c']]]
    by (auto simp: prepare_services_def split: option.split)
qed

text \<open>A sample host with one TCP service and an existing state directory.\<close>

definition demo_startup :: "string startup_env" where
  "demo_startup = \<lparr>se_urls = scheme_urls, se_read = (\<lambda>_. Some []), se_pem_ok = (\<lambda>_. True),
     se_config_toml = (\<lambda>_. Some [demo_tcp_service]), se_relay_toml = (\<lambda>_. None), se_header_value_ok = (\<lambda>_. True),
     se_n0_map = Map.empty, se_env = Map.empty, se_address_accepted = (\<lambda>_. True), se_endpoint_binds = True,
     se_client_builds = (\<lambda>_. True), se_io = quiet_io, se_keys = demo_keys, se_codec = demo_state_codec,
     se_attach_secret = ''f'', se_fresh = (\<lambda>_. ''fresh'')\<rparr>"

definition demo_ready :: "state_dir \<Rightarrow> bool" where
  "demo_ready d \<longleftrightarrow> \<not> sd_locked d \<and> sd_files d host_key_path = Some (new_file (replicate 32 CHR ''k'')) \<and>
     sd_files d host_state_path = Some (new_file ''old'') \<and> sd_files d (temp_path quiet_io host_state_path) = None"

lemma demo_secrets: "prepare_secrets (\<lambda>_. ''fresh'') [demo_tcp_service] [''db'' \<mapsto> ''old''] = [''db'' \<mapsto> ''old'']"
  by (rule ext) (simp add: prepare_secrets_def demo_tcp_service_def)

lemma demo_config:
  "config_load scheme_urls False (\<lambda>_. Some []) (\<lambda>_. True) (\<lambda>_. Some [demo_tcp_service]) p = Inr [demo_tcp_service]"
proof -
  have "is_safe_service_name ''db''" by code_simp
  then show ?thesis
    by (simp add: config_load_def config_validate_def service_key_def validate_service_def validate_tcp_service_def
        demo_tcp_service_def resolve_tcp_idle_timeout_def MAX_TCP_IDLE_TIMEOUT_SECS_def Let_def)
qed

lemma demo_start_locked:
  assumes "sd_files d host_key_path = Some (new_file (replicate 32 CHR ''k''))" "sd_files d host_state_path = Some (new_file ''old'')"
    "sd_files d (temp_path quiet_io host_state_path) = None"
  shows "start_locked demo_startup None [demo_tcp_service] d =
    (Inr (prepare_services (\<lambda>_. ''fresh'') [demo_tcp_service] [''db'' \<mapsto> ''old''], ''host''),
     d\<lparr>sd_files := (sd_files d)(host_state_path \<mapsto> new_file ''old'', temp_path quiet_io host_state_path := None)\<rparr>)"
proof -
  let ?hs = "prepare_services (\<lambda>_. ''fresh'') [demo_tcp_service] [''db'' \<mapsto> ''old'']"
  have key: "load_or_create_host_secret_key quiet_io demo_keys d = (Inr (replicate 32 CHR ''k''), d)"
    using assms by (simp add: load_or_create_host_secret_key_def quiet_io_def file_exists_def op_bind_def ensure_private_file_def
        read_file_def op_return_def)
  have "trim ''x'' = ''x''" by code_simp
  then have load: "load_or_create_host_state quiet_io demo_state_codec ''f'' ''host'' d = (Inr (demo_state ''old''), d)"
    using assms by (simp add: load_or_create_host_state_def quiet_io_def file_exists_def op_bind_def ensure_private_file_def
        read_file_def op_return_def parse_state_file_def demo_state_codec_def validate_host_state_schema_def demo_state_def
        upgrade_state_def repair_host_state_def CURRENT_SCHEMA_VERSION_def LEGACY_SCHEMA_VERSION_def)
  have "(demo_state ''old'')\<lparr>service_secrets := hs_secrets ?hs\<rparr> = demo_state ''old''"
    by (simp add: demo_state_def prepare_services_def demo_secrets)
  moreover have "to_vec demo_state_codec (demo_state ''old'') = Some ''old''" by (simp add: demo_state_codec_def demo_state_def)
  ultimately have save: "save_host_state quiet_io demo_state_codec ((demo_state ''old'')\<lparr>service_secrets := hs_secrets ?hs\<rparr>) d =
      (Inr (), d\<lparr>sd_files := (sd_files d)(host_state_path \<mapsto> new_file ''old'', temp_path quiet_io host_state_path := None)\<rparr>)"
    using assms(3) by (simp add: save_host_state_def write_host_state_file_def write_file_atomic_def write_states_def new_file_def
        quiet_io_def Let_def)
  have clients: "build_clients demo_startup [demo_tcp_service] = Inr ()"
    by (simp add: build_clients_def load_ca_certificate_def build_client_def demo_tcp_service_def)
  have "service_secrets (demo_state ''old'') = [''db'' \<mapsto> ''old'']" by (simp add: demo_state_def)
  with key load save clients show ?thesis
    by (simp add: start_locked_def start_bind_def state_start_def pure_start_def bind_option_def demo_startup_def demo_keys_def Let_def)
qed

lemma demo_start:
  assumes "demo_ready d"
  shows "\<exists>d'. host_startup demo_startup ''c'' None None d =
    (Inr (prepare_services (\<lambda>_. ''fresh'') [demo_tcp_service] [''db'' \<mapsto> ''old''], ''host''), d') \<and> demo_ready (host_stopped d')"
proof -
  obtain d1 where a: "acquire_state_lock quiet_io d = (Inr (), d1)"
    and d1: "sd_files d1 = (sd_files d)(lock_path := sd_files d1 lock_path)"
    using assms by (auto simp: acquire_state_lock_def quiet_io_def demo_ready_def Let_def)
  have files: "sd_files d1 host_key_path = Some (new_file (replicate 32 CHR ''k''))" "sd_files d1 host_state_path = Some (new_file ''old'')"
    "sd_files d1 (temp_path quiet_io host_state_path) = None"
    using assms by (subst d1, simp add: demo_ready_def)+
  from demo_start_locked [OF files] a files show ?thesis
    by (simp add: host_startup_def start_bind_def state_start_def pure_start_def unlock_on_error_def demo_startup_def demo_config
        relay_file_load_def demo_ready_def host_stopped_def release_state_lock_def)
qed

theorem restart_keeps_capabilities_witness:
  "\<exists>hs d1 hs' d2. host_startup demo_startup ''c'' None None demo_dir = (Inr (hs, ''host''), d1) \<and>
     host_startup demo_startup ''c'' None None (host_stopped d1) = (Inr (hs', ''host''), d2) \<and>
     hs_secrets hs' ''db'' = hs_secrets hs ''db'' \<and> hs_secrets hs ''db'' \<noteq> None"
proof -
  have "demo_ready demo_dir" by (simp add: demo_ready_def demo_dir_def)
  from demo_start [OF this] obtain d1 where
    f: "host_startup demo_startup ''c'' None None demo_dir =
      (Inr (prepare_services (\<lambda>_. ''fresh'') [demo_tcp_service] [''db'' \<mapsto> ''old''], ''host''), d1)" and r: "demo_ready (host_stopped d1)"
    by blast
  from demo_start [OF r] obtain d2 where
    s: "host_startup demo_startup ''c'' None None (host_stopped d1) =
      (Inr (prepare_services (\<lambda>_. ''fresh'') [demo_tcp_service] [''db'' \<mapsto> ''old''], ''host''), d2)" by blast
  have "codec_roundtrip (se_codec demo_startup)" by (simp add: demo_startup_def demo_state_codec_roundtrip)
  from restart_keeps_capabilities [OF this refl refl f s, of demo_tcp_service] f s show ?thesis
    by (auto simp: prepare_services_def demo_tcp_service_def)
qed

end
