(* ===== verification/Web_Http.thy ===== *)
theory Web_Http
  imports Wire_Protocol
begin

text \<open>
  The HTTP/1.1 subset of the browser client, \<open>crates/locho-web/src/http.rs\<close>: encoding one
  request and reading one response, with bounded heads and the three body framings.

  A buffered reader holds the bytes that have arrived as the segments in which they arrived,
  and how the stream ends after them; every result below is about all ways of cutting the same
  bytes into segments. Errors are the codes of the source. \<open>httparse\<close> and the \<open>http\<close> crate's
  parsers are the parameters of \<open>web_api\<close>; \<open>usize\<close> has the bound \<open>usize_max\<close> of the target.
\<close>

subsection \<open>Text\<close>

definition LF :: char where "LF = CHR 0x0A"
definition CR :: char where "CR = CHR 0x0D"
definition CRLF :: bytes where "CRLF = [CR, LF]"

text \<open>The two parsers of digits.\<close>

definition hex_digit :: "char \<Rightarrow> nat" where
  "hex_digit c = (if is_ascii_digit c then code c - 48 else if in_range 65 70 c then code c - 55 else code c - 87)"

definition radix_value :: "nat \<Rightarrow> string \<Rightarrow> nat" where
  "radix_value base s = foldl (\<lambda>acc c. base * acc + hex_digit c) 0 s"

definition parse_usize :: "nat \<Rightarrow> nat \<Rightarrow> string \<Rightarrow> nat option" where
  "parse_usize usize_max base s = (if radix_value base s \<le> usize_max then Some (radix_value base s) else None)"

text \<open>\<open>std::str::from_utf8\<close>: which byte sequences are UTF-8.\<close>

definition cont :: "char \<Rightarrow> bool" where
  "cont b = in_range 128 191 b"

fun utf8_valid :: "bytes \<Rightarrow> bool" where
  "utf8_valid [] = True"
| "utf8_valid (a # bs) =
     (if code a < 128 then utf8_valid bs
      else
        case bs of [] \<Rightarrow> False | b # bs \<Rightarrow>
          (if in_range 194 223 a then cont b \<and> utf8_valid bs
           else
             case bs of [] \<Rightarrow> False | c # bs \<Rightarrow>
               (if code a = 224 then in_range 160 191 b \<and> cont c \<and> utf8_valid bs
                else if code a = 237 then in_range 128 159 b \<and> cont c \<and> utf8_valid bs
                else if in_range 225 239 a then cont b \<and> cont c \<and> utf8_valid bs
                else
                  case bs of [] \<Rightarrow> False | d # bs \<Rightarrow>
                    (if code a = 240 then in_range 144 191 b \<and> cont c \<and> cont d \<and> utf8_valid bs
                     else if code a = 244 then in_range 128 143 b \<and> cont c \<and> cont d \<and> utf8_valid bs
                     else in_range 241 243 a \<and> cont b \<and> cont c \<and> cont d \<and> utf8_valid bs))))"

declare utf8_valid.simps(2) [simp del]

lemma utf8_ascii: "list_all (\<lambda>b. code b < 128) s \<Longrightarrow> utf8_valid s"
  by (induction s) (simp_all add: utf8_valid.simps(2))

definition eq_ignore_ascii_case :: "string \<Rightarrow> string \<Rightarrow> bool" where
  "eq_ignore_ascii_case a b = (to_ascii_lowercase a = to_ascii_lowercase b)"

subsection \<open>Requests\<close>

definition MAX_BODY :: nat where "MAX_BODY = 8 * 1024 * 1024"
definition MAX_REQUEST :: nat where "MAX_REQUEST = 4 * 1024 * 1024"
definition MAX_HEAD :: nat where "MAX_HEAD = 64 * 1024"
definition MAX_FIELDS :: nat where "MAX_FIELDS = 100"
definition READ_BYTES :: nat where "READ_BYTES = 16 * 1024"
definition MAX_CHUNK_LINE :: nat where "MAX_CHUNK_LINE = 1024"

record web_request =
  wr_method :: string
  wr_path :: string
  wr_authority :: string
  wr_headers :: "(string \<times> string) list"
  wr_timeout_ms :: nat

record authority =
  au_host :: string
  au_port :: "string option"
  au_port_u16 :: "u16 option"

record parsed_head =
  ph_version :: "u8 option"
  ph_code :: "u16 option"
  ph_headers :: "(string \<times> bytes) list"

record web_api =
  path_and_query_ok :: "string \<Rightarrow> bool"
  authority_parse :: "string \<Rightarrow> authority option"
  header_name_ok :: "string \<Rightarrow> bool"
  parse_response :: "bytes \<Rightarrow> parsed_head option"
  usize_max :: nat

definition hop :: "string \<Rightarrow> bool" where
  "hop name = (name \<in> {''connection'', ''keep-alive'', ''proxy-authenticate'', ''proxy-authorization'',
     ''proxy-connection'', ''te'', ''trailer'', ''transfer-encoding'', ''upgrade''})"

definition field_value_ok :: "bytes \<Rightarrow> bool" where
  "field_value_ok v = (\<not> list_ex (\<lambda>b. code b < 32 \<and> b \<noteq> CHR 0x09 \<or> 127 \<le> code b) v)"

definition path_ok :: "web_api \<Rightarrow> string \<Rightarrow> bool" where
  "path_ok api p = (\<not> (\<not> starts_with ''/'' p \<or> starts_with ''//'' p \<or>
     list_ex (\<lambda>b. code b \<le> 32 \<or> 127 \<le> code b \<or> b = CHR ''#'' \<or> b = CHR 0x5C) p \<or> \<not> path_and_query_ok api p))"

definition authority_ok :: "web_api \<Rightarrow> string \<Rightarrow> bool" where
  "authority_ok api a =
     (case authority_parse api a of
        None \<Rightarrow> False
      | Some au \<Rightarrow> \<not> (au_host au = [] \<or> contains_str ''@'' a \<or> \<not> list_all (\<lambda>b. code b < 128) a \<or>
          list_ex (\<lambda>b. code b \<le> 32 \<or> code b = 127) a \<or> ends_with '':'' a \<or> (au_port au \<noteq> None \<and> au_port_u16 au = None)))"

definition request_header_ok :: "web_api \<Rightarrow> string \<times> string \<Rightarrow> bool" where
  "request_header_ok api nv =
     (let (name, v) = nv; lower = to_ascii_lowercase name
      in \<not> (hop lower \<or> lower \<in> {''host'', ''content-length'', ''expect'', ''accept-encoding''} \<or>
        \<not> header_name_ok api name \<or> \<not> field_value_ok v))"

fun encode_headers :: "web_api \<Rightarrow> bytes \<Rightarrow> (string \<times> string) list \<Rightarrow> string + bytes" where
  "encode_headers api out [] = Inr out"
| "encode_headers api out (nv # hs) =
     (if \<not> request_header_ok api nv then Inl ''invalidHeader''
      else
        let out = out @ fst nv @ '': '' @ snd nv @ CRLF
        in if length out > MAX_HEAD then Inl ''requestLimit'' else encode_headers api out hs)"

definition encode :: "web_api \<Rightarrow> web_request \<Rightarrow> bytes \<Rightarrow> string + bytes" where
  "encode api req body =
     (if \<not> (1 \<le> wr_timeout_ms req \<and> wr_timeout_ms req \<le> 300000) then Inl ''invalidTimeout''
      else if wr_method req \<notin> {''GET'', ''HEAD'', ''POST'', ''PUT'', ''PATCH'', ''DELETE'', ''OPTIONS''} then Inl ''invalidMethod''
      else if length body > MAX_REQUEST then Inl ''requestLimit''
      else if wr_method req \<in> {''GET'', ''HEAD''} \<and> body \<noteq> [] then Inl ''invalidBody''
      else if \<not> path_ok api (wr_path req) then Inl ''invalidPath''
      else if \<not> authority_ok api (wr_authority req) then Inl ''invalidAuthority''
      else if length (wr_headers req) + 4 > MAX_FIELDS then Inl ''requestLimit''
      else
        let out = wr_method req @ '' '' @ wr_path req @ '' HTTP/1.1'' @ CRLF @ ''Host: '' @ wr_authority req @ CRLF @
              ''Connection: close'' @ CRLF @ ''Accept-Encoding: identity'' @ CRLF @
              ''Content-Length: '' @ decimal (length body) @ CRLF
        in res_bind (encode_headers api out (wr_headers req)) (\<lambda>out.
             let out = out @ CRLF
             in if length out > MAX_HEAD then Inl ''requestLimit'' else Inr (out @ body)))"

subsection \<open>Lines\<close>

record buf_reader =
  br_segs :: "bytes list"
  br_end :: stream_end

definition flat :: "buf_reader \<Rightarrow> bytes" where
  "flat r = concat (br_segs r)"

text \<open>
  What waiting for more bytes gives at the end of a stream; \<open>idle\<close> is whether the wait has an
  idle timeout. The first case is \<open>fill_buf\<close> returning an empty slice.
\<close>

definition at_end :: "bool \<Rightarrow> stream_end \<Rightarrow> string \<Rightarrow> ('a, string) outcome" where
  "at_end idle fin eof =
     (case fin of Eof \<Rightarrow> Fail eof | Broken \<Rightarrow> Fail ''transport'' | Stalled \<Rightarrow> if idle then Fail ''idleTimeout'' else Hang)"

definition line_count :: "bytes \<Rightarrow> nat" where
  "line_count s = (if LF \<in> set s then length (takeWhile (\<lambda>b. b \<noteq> LF) s) + 1 else length s)"

text \<open>\<open>line\<close> and \<open>framing_line\<close>: the loop over the segments that arrive.\<close>

fun read_line_from :: "bool \<Rightarrow> nat \<Rightarrow> bytes \<Rightarrow> bytes list \<Rightarrow> stream_end \<Rightarrow> (bytes \<times> bytes list, string) outcome" where
  "read_line_from idle limit out [] fin = at_end idle fin ''truncatedResponse''"
| "read_line_from idle limit out (s # ss) fin =
     (if s = [] then read_line_from idle limit out ss fin
      else
        let count = line_count s in
        if length out + count > limit then Fail ''responseLimit''
        else
          let out = out @ take count s
          in if ends_with [LF] out
             then if ends_with CRLF out then Done (out, drop count s # ss) else Fail ''invalidResponse''
             else read_line_from idle limit out ss fin)"

definition read_line :: "bool \<Rightarrow> nat \<Rightarrow> buf_reader \<Rightarrow> (bytes \<times> buf_reader, string) outcome" where
  "read_line idle limit r =
     (case read_line_from idle limit [] (br_segs r) (br_end r) of
        Done (out, ss) \<Rightarrow> Done (out, r\<lparr>br_segs := ss\<rparr>) | Fail e \<Rightarrow> Fail e | Hang \<Rightarrow> Hang)"

text \<open>The same on the bytes alone.\<close>

definition line_ref :: "bool \<Rightarrow> nat \<Rightarrow> bytes \<Rightarrow> stream_end \<Rightarrow> (bytes \<times> bytes, string) outcome" where
  "line_ref idle limit bs fin =
     (let n = line_count bs in
      if n > limit then Fail ''responseLimit''
      else if LF \<notin> set bs then at_end idle fin ''truncatedResponse''
      else if ends_with CRLF (take n bs) then Done (take n bs, drop n bs)
      else Fail ''invalidResponse'')"

lemma ends_with_LF [simp]: "ends_with [c] (out @ s) \<longleftrightarrow> (if s = [] then ends_with [c] out else last s = c)"
  by (cases s rule: rev_cases) (auto simp: ends_with_iff)

lemma line_count_simps:
  "LF \<notin> set s \<Longrightarrow> line_count (s @ t) = length s + line_count t"
  "LF \<in> set s \<Longrightarrow> line_count (s @ t) = line_count s"
  by (auto simp: line_count_def takeWhile_append)

lemma line_count_le: "line_count s \<le> length s"
proof (cases "LF \<in> set s")
  case True
  then obtain a b where "s = a @ LF # b" "LF \<notin> set a" by (meson split_list_first)
  then show ?thesis by (auto simp: line_count_def takeWhile_append)
qed (simp add: line_count_def)

lemma last_line:
  assumes "s \<noteq> []"
  shows "last (take (line_count s) s) = LF \<longleftrightarrow> LF \<in> set s"
proof (cases "LF \<in> set s")
  case True
  then obtain a b where "s = a @ LF # b" "LF \<notin> set a" by (meson split_list_first)
  then have "take (line_count s) s = a @ [LF]" by (auto simp: line_count_def takeWhile_append)
  then show ?thesis using True by simp
next
  case False
  then have "last s \<noteq> LF" using last_in_set [OF assms] by metis
  with False show ?thesis by (simp add: line_count_def)
qed

lemma line_count_pos: "s \<noteq> [] \<Longrightarrow> 0 < line_count s"
  by (simp add: line_count_def)

text \<open>Reading from segments gives the result of reading from bytes, with some cut of the rest.\<close>

definition same_read :: "('x \<times> bytes, 'e) outcome \<Rightarrow> ('x \<times> bytes list, 'e) outcome \<Rightarrow> bool" where
  "same_read a b =
     (case a of
        Done (x, rest) \<Rightarrow> (case b of Done (y, ss) \<Rightarrow> y = x \<and> concat ss = rest | _ \<Rightarrow> False)
      | Fail e \<Rightarrow> b = Fail e
      | Hang \<Rightarrow> b = Hang)"

lemma same_read_simps [simp]:
  "same_read (Fail e) b \<longleftrightarrow> b = Fail e" "same_read Hang b \<longleftrightarrow> b = Hang"
  "same_read (Done (x, rest)) (Done (y, ss)) \<longleftrightarrow> y = x \<and> concat ss = rest"
  by (simp_all add: same_read_def)

lemma read_line_from_ref:
  assumes "LF \<notin> set out" "length out \<le> limit"
  shows "same_read (line_ref idle limit (out @ concat ss) fin) (read_line_from idle limit out ss fin)"
  using assms
proof (induction ss arbitrary: out)
  case Nil
  then have "line_count out = length out" by (simp add: line_count_def)
  with Nil show ?case by (cases fin; cases idle) (auto simp: line_ref_def at_end_def)
next
  case (Cons s ss)
  show ?case
  proof (cases "s = []")
    case True
    with Cons show ?thesis by simp
  next
    case False
    have count: "line_count (out @ s @ t) = length out + line_count (s @ t)" for t
      using Cons.prems(1) by (simp add: line_count_simps)
    show ?thesis
    proof (cases "LF \<in> set s")
      case True
      then have n: "line_count (out @ concat (s # ss)) = length out + line_count s"
        using count [of "concat ss"] by (simp add: line_count_simps)
      have "take (line_count s) s \<noteq> []" using False line_count_pos [OF False] by simp
      with n True last_line [OF False] line_count_le [of s] show ?thesis
        by (simp add: line_ref_def Let_def False)
    next
      case no: False
      then have c: "line_count s = length s" by (simp add: line_count_def)
      have big: "length out + length s \<le> line_count (out @ concat (s # ss))"
        using count [of "concat ss"] no by (simp add: line_count_simps)
      show ?thesis
      proof (cases "length out + length s \<le> limit")
        case True
        moreover have "last s \<noteq> LF" using last_in_set [OF False] no by metis
        ultimately show ?thesis using Cons.IH [of "out @ s"] Cons.prems no c False by (simp add: Let_def)
      next
        case over: False
        with big have "limit < line_count (out @ concat (s # ss))" by linarith
        with over c False show ?thesis by (simp add: line_ref_def Let_def)
      qed
    qed
  qed
qed

lemma read_line_ref:
  "same_read (line_ref idle limit (flat r) (br_end r)) (read_line_from idle limit [] (br_segs r) (br_end r))"
  using read_line_from_ref [of "[]"] by (simp add: flat_def)

lemma read_line_Done:
  assumes "read_line idle limit r = Done (l, r')"
  shows "flat r = l @ flat r'" "br_end r' = br_end r" "ends_with CRLF l" "length l \<le> limit" "2 \<le> length l"
proof -
  from assms obtain ss where ss: "read_line_from idle limit [] (br_segs r) (br_end r) = Done (l, ss)" "r' = r\<lparr>br_segs := ss\<rparr>"
    by (auto simp: read_line_def split: outcome.splits)
  with read_line_ref [of idle limit r]
  have ref: "line_ref idle limit (flat r) (br_end r) = Done (l, concat ss)"
    by (cases "line_ref idle limit (flat r) (br_end r)") (auto simp: same_read_def split: prod.splits)
  then have l: "l = take (line_count (flat r)) (flat r)" "concat ss = drop (line_count (flat r)) (flat r)"
    "ends_with CRLF l" "line_count (flat r) \<le> limit"
    by (auto simp: line_ref_def at_end_def Let_def split: if_splits stream_end.splits)
  then show "flat r = l @ flat r'" "br_end r' = br_end r" "ends_with CRLF l" "length l \<le> limit"
    using ss(2) by (simp_all add: flat_def)
  from l(3) show "2 \<le> length l" by (auto simp: ends_with_iff CRLF_def)
qed

lemma read_line_shorter: "read_line idle limit r = Done (l, r') \<Longrightarrow> length (flat r') < length (flat r)"
  using read_line_Done [of idle limit r l r'] by auto

lemma out_bind_cong [fundef_cong]:
  "m = m' \<Longrightarrow> (\<And>x. m' = Done x \<Longrightarrow> f x = g x) \<Longrightarrow> out_bind m f = out_bind m' g"
  by (cases m') auto

text \<open>A line whose text has no line feed is read whatever the segments are.\<close>

lemma read_line_text:
  assumes "flat r = text @ CRLF @ rest" "LF \<notin> set text" "length text + 2 \<le> limit"
  shows "\<exists>r'. read_line idle limit r = Done (text @ CRLF, r') \<and> flat r' = rest \<and> br_end r' = br_end r"
proof -
  have "flat r = (text @ [CR]) @ LF # rest" "LF \<notin> set (text @ [CR])" using assms by (simp_all add: CRLF_def CR_def LF_def)
  then have n: "line_count (flat r) = length text + 2" "LF \<in> set (flat r)"
    by (simp_all add: line_count_def) (auto simp: takeWhile_append)
  have "ends_with CRLF (text @ CRLF)" by (auto simp: ends_with_iff)
  then have "line_ref idle limit (flat r) (br_end r) = Done (text @ CRLF, rest)"
    using n assms by (simp add: line_ref_def CRLF_def)
  with read_line_ref [of idle limit r] obtain ss where
    "read_line_from idle limit [] (br_segs r) (br_end r) = Done (text @ CRLF, ss)" "concat ss = rest"
    by (cases "read_line_from idle limit [] (br_segs r) (br_end r)") (auto simp: same_read_def)
  then show ?thesis by (auto simp: read_line_def flat_def)
qed

subsection \<open>Bodies\<close>

datatype framing = FrEmpty | FrLength nat | FrChunked nat bool | FrEof

record web_body =
  wb_reader :: buf_reader
  wb_framing :: framing
  wb_framing_bytes :: nat
  wb_trailer_limit :: nat

definition body_empty :: "web_body \<Rightarrow> bool" where
  "body_empty b = (wb_framing b = FrEmpty \<or> wb_framing b = FrLength 0)"

text \<open>\<open>fill_buf\<close> with \<open>consume\<close>: at most \<open>n\<close> bytes of the first segment that has any.\<close>

fun take_available :: "nat \<Rightarrow> bytes list \<Rightarrow> bytes \<times> bytes list" where
  "take_available n [] = ([], [])"
| "take_available n (s # ss) = (if s = [] then take_available n ss else (take n s, drop n s # ss))"

text \<open>The data branch of \<open>next\<close>.\<close>

definition next_data :: "bool \<Rightarrow> web_body \<Rightarrow> (bytes option \<times> web_body, string) outcome" where
  "next_data idle b =
     (let n = (case wb_framing b of FrLength n \<Rightarrow> min n READ_BYTES | FrChunked n _ \<Rightarrow> min n READ_BYTES | _ \<Rightarrow> READ_BYTES);
          (out, ss) = take_available n (br_segs (wb_reader b));
          b' = b\<lparr>wb_reader := (wb_reader b)\<lparr>br_segs := ss\<rparr>\<rparr>
      in if out = []
         then if br_end (wb_reader b) = Eof \<and> wb_framing b = FrEof then Done (None, b\<lparr>wb_framing := FrEmpty\<rparr>)
              else at_end idle (br_end (wb_reader b)) ''truncatedResponse''
         else Done (Some out,
           (case wb_framing b of
              FrLength n \<Rightarrow> b'\<lparr>wb_framing := FrLength (n - length out)\<rparr>
            | FrChunked n _ \<Rightarrow> b'\<lparr>wb_framing := FrChunked (n - length out) (n - length out = 0)\<rparr>
            | _ \<Rightarrow> b')))"

text \<open>The size line of a chunk: \<open>None\<close> after the last chunk, otherwise the body inside the next one.\<close>

definition next_size :: "web_api \<Rightarrow> bool \<Rightarrow> bool \<Rightarrow> bool \<Rightarrow> web_body \<Rightarrow> (web_body option \<times> web_body, string) outcome" where
  "next_size api idle buffered ending b =
     out_bind
       (if ending
        then out_bind (read_line idle 2 (wb_reader b)) (\<lambda>(l, r). if l \<noteq> CRLF then Fail ''invalidResponse'' else Done r)
        else Done (wb_reader b)) (\<lambda>r.
     let limit = (if buffered then MAX_HEAD - wb_framing_bytes b else MAX_CHUNK_LINE) in
     out_bind (read_line idle limit r) (\<lambda>(size_line, r).
     let framing_bytes = (if buffered then wb_framing_bytes b + length size_line else 0);
         text = take (length size_line - 2) size_line in
     if \<not> utf8_valid text \<or> text = [] \<or> \<not> list_all is_ascii_hexdigit text then Fail ''invalidResponse''
     else
       case parse_usize (usize_max api) 16 text of
         None \<Rightarrow> Fail ''invalidResponse''
       | Some len \<Rightarrow>
           let b = b\<lparr>wb_reader := r, wb_framing_bytes := framing_bytes\<rparr> in
           if len = 0
           then out_bind (read_line idle (wb_trailer_limit b) r) (\<lambda>(l, r).
                  if l \<noteq> CRLF then Fail ''unsupportedTrailers''
                  else Done (None, b\<lparr>wb_reader := r, wb_framing := FrEmpty\<rparr>))
           else if buffered \<and> len > MAX_BODY then Fail ''responseLimit''
           else let b = b\<lparr>wb_framing := FrChunked len False\<rparr> in Done (Some b, b)))"

definition body_next :: "web_api \<Rightarrow> bool \<Rightarrow> bool \<Rightarrow> web_body \<Rightarrow> (bytes option \<times> web_body, string) outcome" where
  "body_next api idle buffered b =
     (case wb_framing b of
        FrEmpty \<Rightarrow> Done (None, b)
      | FrLength n \<Rightarrow> if n = 0 then Done (None, b) else next_data idle b
      | FrChunked n ending \<Rightarrow>
          if n = 0
          then out_bind (next_size api idle buffered ending b) (\<lambda>(next, b).
                 case next of None \<Rightarrow> Done (None, b) | Some b \<Rightarrow> next_data idle b)
          else next_data idle b
      | FrEof \<Rightarrow> next_data idle b)"

definition body_left :: "web_body \<Rightarrow> bytes" where
  "body_left b = flat (wb_reader b)"

lemma take_available_eq:
  "take_available n ss = (out, ss') \<Longrightarrow> concat ss = out @ concat ss' \<and> length out \<le> n \<and> (0 < n \<longrightarrow> (out = [] \<longleftrightarrow> concat ss = []))"
  by (induction n ss rule: take_available.induct) (auto split: if_splits)

lemma next_data_Some:
  assumes "next_data idle b = Done (Some out, b')" "case wb_framing b of FrLength n \<Rightarrow> 0 < n | FrChunked n _ \<Rightarrow> 0 < n | _ \<Rightarrow> True"
  shows "out \<noteq> []" "body_left b = out @ body_left b'" "br_end (wb_reader b') = br_end (wb_reader b)"
    "wb_trailer_limit b' = wb_trailer_limit b" "wb_framing_bytes b' = wb_framing_bytes b"
    "wb_framing b' = (case wb_framing b of FrLength n \<Rightarrow> FrLength (n - length out)
       | FrChunked n _ \<Rightarrow> FrChunked (n - length out) (n - length out = 0) | f \<Rightarrow> f)"
    "case wb_framing b of FrLength n \<Rightarrow> length out \<le> n | FrChunked n _ \<Rightarrow> length out \<le> n | _ \<Rightarrow> True"
proof -
  define n where "n = (case wb_framing b of FrLength n \<Rightarrow> min n READ_BYTES | FrChunked n _ \<Rightarrow> min n READ_BYTES | _ \<Rightarrow> READ_BYTES)"
  obtain o1 ss where t: "take_available n (br_segs (wb_reader b)) = (o1, ss)" by fastforce
  from assms(1) have o1: "o1 = out" "out \<noteq> []"
    and b': "b' = (let b' = b\<lparr>wb_reader := (wb_reader b)\<lparr>br_segs := ss\<rparr>\<rparr> in case wb_framing b of
              FrLength n \<Rightarrow> b'\<lparr>wb_framing := FrLength (n - length out)\<rparr>
            | FrChunked n _ \<Rightarrow> b'\<lparr>wb_framing := FrChunked (n - length out) (n - length out = 0)\<rparr>
            | _ \<Rightarrow> b')"
    using t by (auto simp: next_data_def n_def [symmetric] Let_def at_end_def split: if_splits stream_end.splits)
  note ta = take_available_eq [OF t]
  show "out \<noteq> []" by (rule o1)
  show "body_left b = out @ body_left b'" "br_end (wb_reader b') = br_end (wb_reader b)"
    "wb_trailer_limit b' = wb_trailer_limit b" "wb_framing_bytes b' = wb_framing_bytes b"
    "wb_framing b' = (case wb_framing b of FrLength n \<Rightarrow> FrLength (n - length out)
       | FrChunked n _ \<Rightarrow> FrChunked (n - length out) (n - length out = 0) | f \<Rightarrow> f)"
    using ta o1 b' by (auto simp: body_left_def flat_def Let_def split: framing.splits)
  show "case wb_framing b of FrLength n \<Rightarrow> length out \<le> n | FrChunked n _ \<Rightarrow> length out \<le> n | _ \<Rightarrow> True"
    using ta o1 by (auto simp: n_def split: framing.splits)
qed

lemma next_data_progress:
  assumes "body_left b \<noteq> []" "case wb_framing b of FrLength n \<Rightarrow> 0 < n | FrChunked n _ \<Rightarrow> 0 < n | _ \<Rightarrow> True"
  shows "\<exists>out b'. next_data idle b = Done (Some out, b')"
proof -
  define n where "n = (case wb_framing b of FrLength n \<Rightarrow> min n READ_BYTES | FrChunked n _ \<Rightarrow> min n READ_BYTES | _ \<Rightarrow> READ_BYTES)"
  have "0 < n" using assms(2) by (auto simp: n_def READ_BYTES_def split: framing.splits)
  obtain o1 ss where t: "take_available n (br_segs (wb_reader b)) = (o1, ss)" by fastforce
  from take_available_eq [OF t] \<open>0 < n\<close> have "o1 = [] \<longleftrightarrow> concat (br_segs (wb_reader b)) = []" by blast
  then have "o1 \<noteq> []" using assms(1) by (simp add: body_left_def flat_def)
  with t show ?thesis by (simp add: next_data_def n_def [symmetric] Let_def)
qed

lemma next_size_left:
  assumes "next_size api idle buffered ending b = Done (next, b')"
  shows "length (body_left b') < length (body_left b)" "\<And>b1. next = Some b1 \<Longrightarrow> b1 = b' \<and> (\<exists>n. 0 < n \<and> wb_framing b' = FrChunked n False)"
proof -
  from assms obtain r l r1 where
    r: "if ending then \<exists>l0. read_line idle 2 (wb_reader b) = Done (l0, r) else r = wb_reader b"
    and l: "read_line idle (if buffered then MAX_HEAD - wb_framing_bytes b else MAX_CHUNK_LINE) r = Done (l, r1)"
    and b': "(next = None \<and> (\<exists>l2 r2. read_line idle (wb_trailer_limit b) r1 = Done (l2, r2) \<and> wb_reader b' = r2)) \<or>
      (\<exists>n. 0 < n \<and> next = Some b' \<and> wb_framing b' = FrChunked n False \<and> wb_reader b' = r1)"
    by (auto simp: next_size_def out_bind_Done_iff Let_def split: if_splits option.splits)
  have "length (flat r) \<le> length (flat (wb_reader b))"
    using r read_line_Done(1) by (cases ending) force+
  moreover have "length (flat r1) < length (flat r)"
    using read_line_Done [OF l] by auto
  moreover have "length (flat (wb_reader b')) \<le> length (flat r1)"
    using b' read_line_Done(1) by force
  ultimately show "length (body_left b') < length (body_left b)" by (simp add: body_left_def)
  show "\<And>b1. next = Some b1 \<Longrightarrow> b1 = b' \<and> (\<exists>n. 0 < n \<and> wb_framing b' = FrChunked n False)" using b' by auto
qed

lemma body_next_shorter:
  assumes "body_next api idle buffered b = Done (Some out, b')"
  shows "length (body_left b') < length (body_left b)"
proof -
  have data: "length (body_left b') < length (body_left b0)"
    if "next_data idle b0 = Done (Some out, b')" "case wb_framing b0 of FrLength n \<Rightarrow> 0 < n | FrChunked n _ \<Rightarrow> 0 < n | _ \<Rightarrow> True" for b0
    using next_data_Some(1,2) [OF that] by simp
  show ?thesis
  proof (cases "\<exists>ending. wb_framing b = FrChunked 0 ending")
    case True
    then obtain ending where f: "wb_framing b = FrChunked 0 ending" by blast
    with assms obtain b1 b2 where s: "next_size api idle buffered ending b = Done (Some b1, b2)" and d: "next_data idle b1 = Done (Some out, b')"
      by (auto simp: body_next_def out_bind_Done_iff split: option.splits)
    from next_size_left [OF s] have "b1 = b2" "\<exists>n>0. wb_framing b1 = FrChunked n False"
      "length (body_left b2) < length (body_left b)" by auto
    with data [OF d] show ?thesis by auto
  next
    case False
    with assms have "next_data idle b = Done (Some out, b')" "case wb_framing b of FrLength n \<Rightarrow> 0 < n | FrChunked n _ \<Rightarrow> 0 < n | _ \<Rightarrow> True"
      by (auto simp: body_next_def split: framing.splits if_splits)
    then show ?thesis by (rule data)
  qed
qed

text \<open>Pulling until the end of the body, as the streaming consumer and \<open>read\<close> do.\<close>

function drain_body :: "web_api \<Rightarrow> bool \<Rightarrow> bool \<Rightarrow> web_body \<Rightarrow> (bytes list \<times> web_body, string) outcome" where
  "drain_body api idle buffered b =
     (case body_next api idle buffered b of
        Fail e \<Rightarrow> Fail e
      | Hang \<Rightarrow> Hang
      | Done (None, b) \<Rightarrow> Done ([], b)
      | Done (Some out, b) \<Rightarrow> out_bind (drain_body api idle buffered b) (\<lambda>(outs, b). Done (out # outs, b)))"
  by pat_completeness auto

termination
  by (relation "measure (\<lambda>(_, _, _, b). length (body_left b))") (auto dest: body_next_shorter)

text \<open>\<open>read\<close>'s loop, with its bound on the whole body.\<close>

function read_loop :: "web_api \<Rightarrow> bytes \<Rightarrow> web_body \<Rightarrow> (bytes, string) outcome" where
  "read_loop api sofar b =
     (case body_next api False True b of
        Fail e \<Rightarrow> Fail e
      | Hang \<Rightarrow> Hang
      | Done (None, b) \<Rightarrow> Done sofar
      | Done (Some out, b) \<Rightarrow>
          if length out > MAX_BODY - length sofar then Fail ''responseLimit'' else read_loop api (sofar @ out) b)"
  by pat_completeness auto

termination
  by (relation "measure (\<lambda>(_, _, b). length (body_left b))") (auto dest: body_next_shorter)

declare drain_body.simps [simp del] read_loop.simps [simp del]

subsection \<open>Heads\<close>

text \<open>The lines of one head up to the empty line.\<close>

function head_lines :: "nat \<Rightarrow> bytes \<Rightarrow> buf_reader \<Rightarrow> (bytes \<times> nat \<times> buf_reader, string) outcome" where
  "head_lines remaining head r =
     out_bind (read_line False remaining r) (\<lambda>(next, r).
       if next = CRLF then Done (head @ next, remaining - length next, r)
       else head_lines (remaining - length next) (head @ next) r)"
  by pat_completeness auto

termination
  by (relation "measure (\<lambda>(_, _, r). length (flat r))")
    (auto dest: read_line_shorter)

declare head_lines.simps [simp del]

definition field_of :: "string \<times> bytes \<Rightarrow> string + (string \<times> string)" where
  "field_of nv =
     (let (name, v) = nv in
      if \<not> field_value_ok v \<or> \<not> utf8_valid v then Inl ''invalidResponse'' else Inr (to_ascii_lowercase name, trim v))"

text \<open>
  The heads before the final one: at most nine heads are looked at, and the fields of all of them
  count. \<open>n\<close> is how many heads may still be read.
\<close>

fun final_head ::
  "web_api \<Rightarrow> nat \<Rightarrow> nat \<Rightarrow> nat \<Rightarrow> buf_reader \<Rightarrow> ((u16 \<times> (string \<times> string) list) \<times> nat \<times> buf_reader, string) outcome" where
  "final_head api 0 remaining count r = Fail ''responseLimit''"
| "final_head api (Suc n) remaining count r =
     out_bind (head_lines remaining [] r) (\<lambda>(head, remaining, r).
       case parse_response api head of
         None \<Rightarrow> Fail ''invalidResponse''
       | Some parsed \<Rightarrow>
           if ph_version parsed \<noteq> Some 1 then Fail ''invalidResponse''
           else
             (case ph_code parsed of
                None \<Rightarrow> Fail ''invalidResponse''
              | Some status \<Rightarrow>
                  if \<not> (100 \<le> status \<and> status \<le> 599) \<or> status = 101 then Fail ''unsupportedResponse''
                  else
                    let count = count + length (ph_headers parsed) in
                    if count > MAX_FIELDS then Fail ''responseLimit''
                    else
                      (case collect_results field_of (ph_headers parsed) of
                         Inl e \<Rightarrow> Fail e
                       | Inr headers \<Rightarrow>
                           if status \<ge> 200 then Done ((status, headers), remaining, r)
                           else if list_ex (\<lambda>(n, _). n = ''content-length'' \<or> n = ''transfer-encoding'') headers
                           then Fail ''invalidResponse''
                           else final_head api n remaining count r)))"

record head_framing =
  hf_length :: "nat option"
  hf_chunked :: bool
  hf_connection :: "string list"

definition connection_field :: "web_api \<Rightarrow> string \<Rightarrow> string + string" where
  "connection_field api field =
     (let field = to_ascii_lowercase (trim field)
      in if header_name_ok api field then Inr field else Inl ''invalidResponse'')"

definition framing_field :: "web_api \<Rightarrow> string \<times> string \<Rightarrow> head_framing \<Rightarrow> string + head_framing" where
  "framing_field api nv hf =
     (let (name, v) = nv in
      if name = ''content-length''
      then if v = [] \<or> \<not> list_all is_ascii_digit v then Inl ''invalidResponse''
           else (case parse_usize (usize_max api) 10 v of
                   None \<Rightarrow> Inl ''invalidResponse''
                 | Some current \<Rightarrow>
                     if hf_length hf \<noteq> None \<and> hf_length hf \<noteq> Some current then Inl ''invalidResponse''
                     else Inr (hf\<lparr>hf_length := Some current\<rparr>))
      else if name = ''transfer-encoding''
      then if hf_chunked hf \<or> \<not> eq_ignore_ascii_case v ''chunked'' then Inl ''unsupportedFraming''
           else Inr (hf\<lparr>hf_chunked := True\<rparr>)
      else if name = ''content-encoding'' \<and> \<not> eq_ignore_ascii_case v ''identity'' then Inl ''unsupportedEncoding''
      else if name = ''connection''
      then res_bind (collect_results (connection_field api) (split_on CHR '','' v)) (\<lambda>fs.
             Inr (hf\<lparr>hf_connection := hf_connection hf @ fs\<rparr>))
      else Inr hf)"

fun framing_fields :: "web_api \<Rightarrow> (string \<times> string) list \<Rightarrow> head_framing \<Rightarrow> string + head_framing" where
  "framing_fields api [] hf = Inr hf"
| "framing_fields api (nv # hs) hf = res_bind (framing_field api nv hf) (framing_fields api hs)"

definition choose_framing :: "string \<Rightarrow> u16 \<Rightarrow> head_framing \<Rightarrow> string + framing" where
  "choose_framing meth status hf =
     (if hf_chunked hf \<and> hf_length hf \<noteq> None then Inl ''invalidResponse''
      else if status = 205 \<and> (hf_chunked hf \<or> (hf_length hf \<noteq> None \<and> hf_length hf \<noteq> Some 0)) then Inl ''invalidResponse''
      else if status = 204 \<and> (hf_chunked hf \<or> hf_length hf \<noteq> None) then Inl ''invalidResponse''
      else Inr (if meth = ''HEAD'' \<or> status \<in> {204, 205, 304} then FrEmpty
                else if hf_chunked hf then FrChunked 0 False
                else case hf_length hf of Some n \<Rightarrow> FrLength n | None \<Rightarrow> FrEof))"

record web_response =
  wres_status :: u16
  wres_headers :: "(string \<times> string) list"
  wres_body :: bytes

definition no_framing :: head_framing where
  "no_framing = \<lparr>hf_length = None, hf_chunked = False, hf_connection = []\<rparr>"

definition web_head :: "web_api \<Rightarrow> string \<Rightarrow> buf_reader \<Rightarrow> (web_response \<times> web_body, string) outcome" where
  "web_head api meth r =
     out_bind (final_head api 9 MAX_HEAD 0 r) (\<lambda>((status, headers), remaining, r).
       case framing_fields api headers no_framing of
         Inl e \<Rightarrow> Fail e
       | Inr hf \<Rightarrow>
           (case choose_framing meth status hf of
              Inl e \<Rightarrow> Fail e
            | Inr fr \<Rightarrow>
                Done (\<lparr>wres_status = status,
                   wres_headers = filter (\<lambda>(n, _). \<not> hop n \<and> n \<notin> set (hf_connection hf) \<and> n \<noteq> ''content-length'') headers,
                   wres_body = []\<rparr>,
                 \<lparr>wb_reader = r, wb_framing = fr, wb_framing_bytes = 0, wb_trailer_limit = remaining\<rparr>)))"

definition web_read :: "web_api \<Rightarrow> string \<Rightarrow> buf_reader \<Rightarrow> (web_response, string) outcome" where
  "web_read api meth r =
     out_bind (web_head api meth r) (\<lambda>(response, body).
       if (case wb_framing body of FrLength n \<Rightarrow> n > MAX_BODY | _ \<Rightarrow> False) then Fail ''responseLimit''
       else out_bind (read_loop api [] body) (\<lambda>bs. Done (response\<lparr>wres_body := bs\<rparr>)))"

end
