(* ===== verification/Web_Response.thy ===== *)
theory Web_Response
  imports Web_Http
begin

text \<open>
  What the browser client's HTTP code guarantees: the lines, heads and bodies it reads depend on
  the bytes of the stream and not on how they are cut into segments, a well-formed response is
  decoded to exactly its data for each of the framings, a shortened one is reported, and an
  encoded request is read back as the lines and the body it was made of.
\<close>

subsection \<open>Decoding lemmas\<close>

lemma hexdigits_plain:
  assumes "list_all is_ascii_hexdigit s"
  shows "LF \<notin> set s" "utf8_valid s"
proof -
  show "LF \<notin> set s" using assms by (auto simp: list_all_iff LF_def ascii_defs)
  have "is_ascii_hexdigit c \<Longrightarrow> code c < 128" for c by (auto simp: ascii_defs)
  then show "utf8_valid s" using assms by (intro utf8_ascii) (auto simp: list_all_iff)
qed

lemma drain_step_Some:
  "body_next api idle buffered b = Done (Some out, b1) \<Longrightarrow>
   drain_body api idle buffered b = out_bind (drain_body api idle buffered b1) (\<lambda>(outs, b). Done (out # outs, b))"
  by (subst drain_body.simps) simp

lemma drain_step_None:
  "body_next api idle buffered b = Done (None, b1) \<Longrightarrow> drain_body api idle buffered b = Done ([], b1)"
  by (subst drain_body.simps) simp

text \<open>The result of a drain: the bytes it gave and what it left.\<close>

definition drains :: "web_api \<Rightarrow> bool \<Rightarrow> bool \<Rightarrow> web_body \<Rightarrow> bytes \<Rightarrow> bytes \<Rightarrow> bool" where
  "drains api idle buffered b data rest \<longleftrightarrow> (\<exists>outs b'. drain_body api idle buffered b = Done (outs, b') \<and>
     concat outs = data \<and> body_left b' = rest \<and> body_empty b')"

lemma drains_step:
  assumes "body_next api idle buffered b = Done (Some out, b1)" "drains api idle buffered b1 data rest"
  shows "drains api idle buffered b (out @ data) rest"
  using assms drain_step_Some [OF assms(1)] by (auto simp: drains_def)

lemma append_split: "xs @ ys = us @ vs \<Longrightarrow> length us \<le> length xs \<Longrightarrow> \<exists>t. xs = us @ t \<and> vs = t @ ys"
  by (auto simp: append_eq_append_conv2)

lemma drains_length:
  assumes "wb_framing b = FrLength (length data)" "body_left b = data @ rest"
  shows "drains api idle buffered b data rest"
  using assms
proof (induction "length data" arbitrary: data b rule: less_induct)
  case less
  show ?case
  proof (cases "data = []")
    case True
    with less have "body_next api idle buffered b = Done (None, b)" by (simp add: body_next_def)
    from drain_step_None [OF this] True less show ?thesis by (simp add: drains_def body_empty_def)
  next
    case False
    with less have pre: "case wb_framing b of FrLength n \<Rightarrow> 0 < n | FrChunked n _ \<Rightarrow> 0 < n | _ \<Rightarrow> True" "body_left b \<noteq> []" by simp_all
    from next_data_progress [OF pre(2,1)] obtain out b1 where d: "next_data idle b = Done (Some out, b1)" by blast
    note nd = next_data_Some [OF d pre(1)]
    from nd(2,7) less obtain t where t: "data = out @ t" "body_left b1 = t @ rest"
      using append_split [of data rest out "body_left b1"] by auto
    with nd less have "wb_framing b1 = FrLength (length t)" by simp
    from less.hyps [OF _ this t(2)] t nd(1) have "drains api idle buffered b1 t rest" by simp
    moreover have "body_next api idle buffered b = Done (Some out, b1)" using d less False by (simp add: body_next_def)
    ultimately show ?thesis using drains_step t by blast
  qed
qed

text \<open>Inside a chunk: its data, then whatever follows the chunk.\<close>

lemma drains_chunk_data:
  assumes "\<And>b. wb_framing b = FrChunked 0 True \<Longrightarrow> body_left b = CRLF @ tail \<Longrightarrow> wb_trailer_limit b = trailer \<Longrightarrow>
      wb_framing_bytes b = used \<Longrightarrow> drains api idle buffered b more_data rest"
    and "data \<noteq> []" "wb_framing b = FrChunked (length data) ending" "body_left b = data @ CRLF @ tail"
      "wb_trailer_limit b = trailer" "wb_framing_bytes b = used"
  shows "drains api idle buffered b (data @ more_data) rest \<and>
    (\<exists>out b'. next_data idle b = Done (Some out, b') \<and> drains api idle buffered b' (drop (length out) (data @ more_data)) rest \<and>
       out = take (length out) (data @ more_data))"
  using assms(2-)
proof (induction "length data" arbitrary: data b ending rule: less_induct)
  case less
  then have pre: "case wb_framing b of FrLength n \<Rightarrow> 0 < n | FrChunked n _ \<Rightarrow> 0 < n | _ \<Rightarrow> True" "body_left b \<noteq> []" by simp_all
  from next_data_progress [OF pre(2,1)] obtain out b1 where d: "next_data idle b = Done (Some out, b1)" by blast
  note nd = next_data_Some [OF d pre(1)]
  from nd(2,7) less.prems obtain t where t: "data = out @ t" "body_left b1 = t @ CRLF @ tail"
    using append_split [of data "CRLF @ tail" out "body_left b1"] by auto
  have frame: "wb_framing b1 = FrChunked (length t) (t = [])" "wb_trailer_limit b1 = trailer" "wb_framing_bytes b1 = used"
    using nd less.prems t by simp_all
  have "drains api idle buffered b1 (t @ more_data) rest"
  proof (cases "t = []")
    case True
    with assms(1) [of b1] frame t show ?thesis by simp
  next
    case False
    with less.hyps [of t b1 False] t nd(1) frame show ?thesis by simp
  qed
  moreover have "body_next api idle buffered b = Done (Some out, b1)" using d less.prems by (simp add: body_next_def)
  ultimately show ?case using drains_step [of api idle buffered b out b1 "t @ more_data" rest] t d by simp
qed

text \<open>Chunks on the wire: the size in hexadecimal, the data, and the last chunk.\<close>

definition size_text :: "web_api \<Rightarrow> string \<Rightarrow> nat \<Rightarrow> bool" where
  "size_text api text n \<longleftrightarrow> text \<noteq> [] \<and> list_all is_ascii_hexdigit text \<and> length text + 2 \<le> MAX_CHUNK_LINE \<and>
     parse_usize (usize_max api) 16 text = Some n"

definition chunk_wire :: "string \<times> bytes \<Rightarrow> bytes" where
  "chunk_wire c = fst c @ CRLF @ snd c @ CRLF"

lemma next_size_line:
  assumes "body_left b = (if ending then CRLF else []) @ text @ CRLF @ tail" "size_text api text n"
  shows "\<exists>r. flat r = tail \<and> br_end r = br_end (wb_reader b) \<and>
    next_size api idle False ending b =
      (let b = b\<lparr>wb_reader := r, wb_framing_bytes := 0\<rparr> in
       if n = 0
       then out_bind (read_line idle (wb_trailer_limit b) r) (\<lambda>(l, r).
              if l \<noteq> CRLF then Fail ''unsupportedTrailers'' else Done (None, b\<lparr>wb_reader := r, wb_framing := FrEmpty\<rparr>))
       else Done (Some (b\<lparr>wb_framing := FrChunked n False\<rparr>), b\<lparr>wb_framing := FrChunked n False\<rparr>))"
proof -
  have hex: "list_all is_ascii_hexdigit text" "text \<noteq> []" "length text + 2 \<le> MAX_CHUNK_LINE"
    "parse_usize (usize_max api) 16 text = Some n"
    using assms(2) by (simp_all add: size_text_def)
  note plain = hexdigits_plain [OF hex(1)]
  obtain r0 where r0: "(if ending then out_bind (read_line idle 2 (wb_reader b)) (\<lambda>(l, r). if l \<noteq> CRLF then Fail ''invalidResponse'' else Done r)
        else Done (wb_reader b)) = (Done r0 :: (buf_reader, string) outcome)" "flat r0 = text @ CRLF @ tail" "br_end r0 = br_end (wb_reader b)"
  proof (cases ending)
    case True
    then have "flat (wb_reader b) = [] @ CRLF @ (text @ CRLF @ tail)" using assms(1) by (simp add: body_left_def)
    from read_line_text [OF this, of 2 idle] that True show thesis by fastforce
  next
    case False
    with that [of "wb_reader b"] assms(1) show thesis by (simp add: body_left_def)
  qed
  from read_line_text [OF r0(2) plain(1) hex(3), of idle] obtain r where
    r: "read_line idle MAX_CHUNK_LINE r0 = Done (text @ CRLF, r)" "flat r = tail" "br_end r = br_end r0" by blast
  have two: "length CRLF = 2" by (simp add: CRLF_def)
  have "next_size api idle False ending b =
      (let b = b\<lparr>wb_reader := r, wb_framing_bytes := 0\<rparr> in
       if n = 0
       then out_bind (read_line idle (wb_trailer_limit b) r) (\<lambda>(l, r).
              if l \<noteq> CRLF then Fail ''unsupportedTrailers'' else Done (None, b\<lparr>wb_reader := r, wb_framing := FrEmpty\<rparr>))
       else Done (Some (b\<lparr>wb_framing := FrChunked n False\<rparr>), b\<lparr>wb_framing := FrChunked n False\<rparr>))"
    unfolding next_size_def r0(1) using r(1) two hex plain by (cases "n = 0") (simp_all add: Let_def)
  with r r0 show ?thesis by auto
qed

lemma body_next_size:
  "wb_framing b = FrChunked 0 ending \<Longrightarrow> body_next api idle buffered b =
     out_bind (next_size api idle buffered ending b) (\<lambda>(next, b).
                 case next of None \<Rightarrow> Done (None, b) | Some b \<Rightarrow> next_data idle b)"
  by (simp add: body_next_def)

lemma drains_last_chunk:
  assumes "wb_framing b = FrChunked 0 ending" "body_left b = (if ending then CRLF else []) @ text @ CRLF @ CRLF @ rest"
    "size_text api text 0" "2 \<le> wb_trailer_limit b"
  shows "drains api idle False b [] rest"
proof -
  from next_size_line [OF assms(2,3), of idle] obtain r where r: "flat r = [] @ CRLF @ rest"
    "next_size api idle False ending b = out_bind (read_line idle (wb_trailer_limit b) r) (\<lambda>(l, ra).
       if l \<noteq> CRLF then Fail ''unsupportedTrailers''
       else Done (None, b\<lparr>wb_reader := r, wb_framing_bytes := 0, wb_reader := ra, wb_framing := FrEmpty\<rparr>))"
    by (auto simp: Let_def)
  from read_line_text [OF r(1), of "wb_trailer_limit b" idle] assms(4) r(2) obtain b' where
    b': "next_size api idle False ending b = Done (None, b')" "body_left b' = rest" "body_empty b'"
    by (auto simp: body_left_def body_empty_def)
  with body_next_size [OF assms(1), of api idle False]
  have "body_next api idle False b = Done (None, b')" by simp
  from drain_step_None [OF this] b' show ?thesis by (simp add: drains_def)
qed

text \<open>The chunks of a message: the sizes and the data, then the last chunk.\<close>

definition web_chunk_ok :: "web_api \<Rightarrow> string \<times> bytes \<Rightarrow> bool" where
  "web_chunk_ok api c \<longleftrightarrow> snd c \<noteq> [] \<and> size_text api (fst c) (length (snd c))"

definition chunked_wire :: "(string \<times> bytes) list \<Rightarrow> string \<Rightarrow> bytes" where
  "chunked_wire cs last_size = concat (map chunk_wire cs) @ last_size @ CRLF @ CRLF"

lemma drains_chunks:
  assumes "list_all (web_chunk_ok api) cs" "size_text api last_size 0"
    and "wb_framing b = FrChunked 0 ending" "body_left b = (if ending then CRLF else []) @ chunked_wire cs last_size @ rest"
      "2 \<le> wb_trailer_limit b"
  shows "drains api idle False b (concat (map snd cs)) rest"
  using assms
proof (induction cs arbitrary: b ending)
  case Nil
  then show ?case using drains_last_chunk [of b ending last_size rest api idle] by (simp add: chunked_wire_def)
next
  case (Cons c cs)
  obtain size_line data where c: "c = (size_line, data)" by fastforce
  define tail where "tail = chunked_wire cs last_size @ rest"
  from Cons.prems(1) c have ok: "data \<noteq> []" "size_text api size_line (length data)" "list_all (web_chunk_ok api) cs"
    by (simp_all add: web_chunk_ok_def [of api "(size_line, data)"])
  from Cons.prems(4) c have left: "body_left b = (if ending then CRLF else []) @ size_line @ CRLF @ (data @ CRLF @ tail)"
    by (simp add: chunked_wire_def chunk_wire_def tail_def)
  from next_size_line [OF left ok(2), of idle] ok(1) obtain r where r: "flat r = data @ CRLF @ tail"
    and n: "next_size api idle False ending b =
      (let b = b\<lparr>wb_reader := r, wb_framing_bytes := 0, wb_framing := FrChunked (length data) False\<rparr> in Done (Some b, b))"
    by (auto simp: Let_def)
  define b1 where "b1 = b\<lparr>wb_reader := r, wb_framing_bytes := 0, wb_framing := FrChunked (length data) False\<rparr>"
  have after: "drains api idle False b2 (concat (map snd cs)) rest"
    if "wb_framing b2 = FrChunked 0 True" "body_left b2 = CRLF @ tail" "wb_trailer_limit b2 = wb_trailer_limit b" for b2
    using Cons.IH [OF ok(3) Cons.prems(2) that(1)] that Cons.prems(5) by (simp add: tail_def)
  from drains_chunk_data [of tail "wb_trailer_limit b" 0 api idle False "concat (map snd cs)" rest data b1 False] after ok(1) r
  obtain out b2 where d: "next_data idle b1 = Done (Some out, b2)"
    "drains api idle False b2 (drop (length out) (data @ concat (map snd cs))) rest"
    "out = take (length out) (data @ concat (map snd cs))"
    unfolding b1_def body_left_def by auto
  have "body_next api idle False b = Done (Some out, b2)"
    using body_next_size [OF Cons.prems(3)] n d(1) by (simp add: b1_def Let_def)
  from drains_step [OF this d(2)] d(3) c show ?case by (metis append_take_drop_id concat.simps(2) list.simps(9) snd_conv)
qed

text \<open>A response cut short: the drain reports how the stream ended.\<close>

lemma drain_short:
  assumes "wb_framing b = FrLength n" "length (body_left b) < n"
  shows "drain_body api idle buffered b = at_end idle (br_end (wb_reader b)) ''truncatedResponse''"
  using assms
proof (induction "length (body_left b)" arbitrary: n b rule: less_induct)
  case less
  then have pre: "case wb_framing b of FrLength n \<Rightarrow> 0 < n | FrChunked n _ \<Rightarrow> 0 < n | _ \<Rightarrow> True" by simp
  have step: "body_next api idle buffered b = next_data idle b" using less.prems by (simp add: body_next_def)
  show ?case
  proof (cases "body_left b = []")
    case True
    obtain out ss where t: "take_available (min n READ_BYTES) (br_segs (wb_reader b)) = (out, ss)" by fastforce
    with take_available_eq [OF t] True have "out = []" by (simp add: body_left_def flat_def)
    with t less.prems have "next_data idle b = at_end idle (br_end (wb_reader b)) ''truncatedResponse''"
      by (simp add: next_data_def)
    with step show ?thesis by (subst drain_body.simps) (auto simp: at_end_def split: stream_end.splits)
  next
    case False
    from next_data_progress [OF this pre] obtain out b1 where d: "next_data idle b = Done (Some out, b1)" by blast
    note nd = next_data_Some [OF d pre]
    have "drain_body api idle buffered b1 = at_end idle (br_end (wb_reader b)) ''truncatedResponse''"
      using less.hyps [of b1 "n - length out"] nd less.prems by simp
    with drain_step_Some [of api idle buffered b out b1] step d show ?thesis
      by (auto simp: at_end_def split: stream_end.splits)
  qed
qed

lemma drains_eof:
  assumes "wb_framing b = FrEof" "br_end (wb_reader b) = Eof"
  shows "drains api idle buffered b (body_left b) []"
  using assms
proof (induction "length (body_left b)" arbitrary: b rule: less_induct)
  case less
  then have pre: "case wb_framing b of FrLength n \<Rightarrow> 0 < n | FrChunked n _ \<Rightarrow> 0 < n | _ \<Rightarrow> True" by simp
  have step: "body_next api idle buffered b = next_data idle b" using less.prems by (simp add: body_next_def)
  show ?case
  proof (cases "body_left b = []")
    case True
    obtain out ss where t: "take_available READ_BYTES (br_segs (wb_reader b)) = (out, ss)" by fastforce
    with take_available_eq [OF t] True have "out = []" by (simp add: body_left_def flat_def)
    with t less.prems have "next_data idle b = Done (None, b\<lparr>wb_framing := FrEmpty\<rparr>)"
      by (simp add: next_data_def)
    with drain_step_None step True show ?thesis by (simp add: drains_def body_left_def body_empty_def)
  next
    case False
    from next_data_progress [OF this pre] obtain out b1 where d: "next_data idle b = Done (Some out, b1)" by blast
    note nd = next_data_Some [OF d pre]
    have "drains api idle buffered b1 (body_left b1) []" using less.hyps [of b1] nd less.prems by simp
    with drains_step [of api idle buffered b out b1] step d nd(2) show ?thesis by simp
  qed
qed

lemma drains_empty: "wb_framing b = FrEmpty \<Longrightarrow> drains api idle buffered b [] (body_left b)"
  using drain_step_None [of api idle buffered b b] by (simp add: drains_def body_next_def body_empty_def)

subsection \<open>Heads on the wire\<close>

definition plain_line :: "bytes \<Rightarrow> bool" where
  "plain_line l \<longleftrightarrow> l \<noteq> [] \<and> LF \<notin> set l"

definition head_wire :: "bytes list \<Rightarrow> bytes" where
  "head_wire ls = concat (map (\<lambda>l. l @ CRLF) ls) @ CRLF"

lemma length_CRLF [simp]: "length CRLF = 2"
  by (simp add: CRLF_def)

lemma head_lines_text:
  assumes "list_all plain_line ls" "flat r = head_wire ls @ rest" "length (head_wire ls) \<le> remaining"
  shows "\<exists>r'. head_lines remaining head r = Done (head @ head_wire ls, remaining - length (head_wire ls), r') \<and>
    flat r' = rest \<and> br_end r' = br_end r"
  using assms
proof (induction ls arbitrary: remaining head r)
  case Nil
  then have "flat r = [] @ CRLF @ rest" by (simp add: head_wire_def)
  from read_line_text [OF this, of remaining False] Nil show ?case
    by (subst head_lines.simps) (auto simp: head_wire_def)
next
  case (Cons l ls)
  then have l: "plain_line l" "list_all plain_line ls" and "flat r = l @ CRLF @ (head_wire ls @ rest)"
    and len: "length l + 2 \<le> remaining" "length (head_wire ls) \<le> remaining - (length l + 2)"
    by (simp_all add: head_wire_def)
  from read_line_text [OF this(3), of remaining False] l len obtain r1 where
    r1: "read_line False remaining r = Done (l @ CRLF, r1)" "flat r1 = head_wire ls @ rest" "br_end r1 = br_end r"
    by (auto simp: plain_line_def)
  have "l @ CRLF \<noteq> CRLF" using l by (simp add: plain_line_def)
  moreover from Cons.IH [OF l(2) r1(2) len(2), of "head @ l @ CRLF"] obtain r2 where
    "head_lines (remaining - (length l + 2)) (head @ l @ CRLF) r1 =
       Done ((head @ l @ CRLF) @ head_wire ls, remaining - (length l + 2) - length (head_wire ls), r2)"
    "flat r2 = rest" "br_end r2 = br_end r" using r1(3) by auto
  ultimately show ?case using r1(1) by (subst head_lines.simps) (simp add: head_wire_def)
qed

text \<open>
  A response on the wire: interim heads, then the final one. \<open>head_reads\<close> is a head of plain
  lines that parses to a status and fields.
\<close>

definition head_reads :: "web_api \<Rightarrow> bytes list \<Rightarrow> u16 \<Rightarrow> (string \<times> string) list \<Rightarrow> bool" where
  "head_reads api ls st hs \<longleftrightarrow> list_all plain_line ls \<and>
     (case parse_response api (head_wire ls) of
        None \<Rightarrow> False
      | Some p \<Rightarrow> ph_version p = Some 1 \<and> ph_code p = Some st \<and> collect_results field_of (ph_headers p) = Inr hs)"

type_synonym wire_head = "bytes list \<times> u16 \<times> (string \<times> string) list"

definition interim_head :: "web_api \<Rightarrow> wire_head \<Rightarrow> bool" where
  "interim_head api h \<longleftrightarrow>
     (let (ls, st, hs) = h
      in head_reads api ls st hs \<and> 100 \<le> st \<and> st < 200 \<and> st \<noteq> 101 \<and>
         \<not> list_ex (\<lambda>(n, _). n = ''content-length'' \<or> n = ''transfer-encoding'') hs)"

definition heads_wire :: "wire_head list \<Rightarrow> bytes" where
  "heads_wire hds = concat (map (\<lambda>(ls, _). head_wire ls) hds)"

definition heads_fields :: "wire_head list \<Rightarrow> nat" where
  "heads_fields hds = sum_list (map (\<lambda>(_, _, hs). length hs) hds)"

lemma collect_results_length: "collect_results f xs = Inr ys \<Longrightarrow> length ys = length xs"
  by (auto simp: collect_results_Inr_iff dest: list_all2_lengthD)

lemma head_reads_parts:
  assumes "head_reads api ls st hs"
  obtains p where "list_all plain_line ls" "parse_response api (head_wire ls) = Some p" "ph_version p = Some 1"
    "ph_code p = Some st" "collect_results field_of (ph_headers p) = Inr hs" "length (ph_headers p) = length hs"
  using assms collect_results_length by (fastforce simp: head_reads_def split: option.splits)

lemma final_head_exact:
  assumes "list_all (interim_head api) before" "head_reads api ls st hs" "200 \<le> st" "st \<le> 599"
    and "flat r = heads_wire before @ head_wire ls @ rest" "length before < n"
    and "length (heads_wire before @ head_wire ls) \<le> remaining" "count + heads_fields before + length hs \<le> MAX_FIELDS"
  shows "\<exists>r'. final_head api n remaining count r =
      Done ((st, hs), remaining - length (heads_wire before @ head_wire ls), r') \<and> flat r' = rest \<and> br_end r' = br_end r"
  using assms
proof (induction "before" arbitrary: n remaining count r)
  case Nil
  then obtain m where n: "n = Suc m" by (cases n) auto
  from Nil(2) obtain p where p: "list_all plain_line ls" "parse_response api (head_wire ls) = Some p" "ph_version p = Some 1"
    "ph_code p = Some st" "collect_results field_of (ph_headers p) = Inr hs" "length (ph_headers p) = length hs" by (rule head_reads_parts)
  have "st \<noteq> 101" "100 \<le> st" using Nil.prems(3) by (auto simp: word_le_nat_alt)
  moreover obtain r1 where "head_lines remaining [] r = Done (head_wire ls, remaining - length (head_wire ls), r1)"
    "flat r1 = rest" "br_end r1 = br_end r"
    using head_lines_text [OF p(1), of r rest remaining "[]"] Nil.prems by (auto simp: heads_wire_def)
  ultimately show ?case using p Nil.prems by (simp add: n heads_wire_def heads_fields_def)
next
  case (Cons h hds)
  obtain hl hst hhs where h: "h = (hl, hst, hhs)" by (cases h)
  from Cons.prems(6) obtain m where n: "n = Suc m" "length hds < m" by (cases n) auto
  from Cons.prems(1) h have i: "interim_head api (hl, hst, hhs)" "list_all (interim_head api) hds" by simp_all
  from i(1) have "head_reads api hl hst hhs" by (simp add: interim_head_def)
  then obtain p where p: "list_all plain_line hl" "parse_response api (head_wire hl) = Some p" "ph_version p = Some 1"
    "ph_code p = Some hst" "collect_results field_of (ph_headers p) = Inr hhs" "length (ph_headers p) = length hhs" by (rule head_reads_parts)
  define left where "left = remaining - length (head_wire hl)"
  have wire: "heads_wire (h # hds) = head_wire hl @ heads_wire hds" "heads_fields (h # hds) = length hhs + heads_fields hds"
    by (simp_all add: h heads_wire_def heads_fields_def)
  from head_lines_text [OF p(1), of r "heads_wire hds @ head_wire ls @ rest" remaining "[]"] Cons.prems(5,7) wire
  obtain r1 where r1: "head_lines remaining [] r = Done (head_wire hl, left, r1)"
    "flat r1 = heads_wire hds @ head_wire ls @ rest" "br_end r1 = br_end r" by (auto simp: left_def)
  have "length (heads_wire hds @ head_wire ls) \<le> left" "count + length hhs + heads_fields hds + length hs \<le> MAX_FIELDS"
    using Cons.prems(7,8) wire by (simp_all add: left_def)
  from Cons.IH [OF i(2) Cons.prems(2-4) r1(2) n(2) this] r1(3) obtain r2 where
    r2: "final_head api m left (count + length hhs) r1 = Done ((st, hs), left - length (heads_wire hds @ head_wire ls), r2)"
    "flat r2 = rest" "br_end r2 = br_end r" by auto
  have code: "100 \<le> hst" "hst \<le> 599" "hst \<noteq> 101" "\<not> 200 \<le> hst" using i(1) by (auto simp: interim_head_def word_le_nat_alt word_less_nat_alt)
  have ok: "\<not> list_ex (\<lambda>(n, _). n = ''content-length'' \<or> n = ''transfer-encoding'') hhs"
    "\<not> MAX_FIELDS < count + length hhs" using i(1) Cons.prems(8) wire by (auto simp: interim_head_def)
  have "final_head api n remaining count r = final_head api m left (count + length hhs) r1"
    using p r1(1) code ok by (simp add: n)
  then show ?case using r2 wire by (simp add: left_def)
qed

subsection \<open>Responses\<close>

text \<open>The bytes of a body under a framing; for a body that ends with the stream nothing follows.\<close>

definition body_wire :: "web_api \<Rightarrow> framing \<Rightarrow> (string \<times> bytes) list \<times> string \<Rightarrow> bytes \<Rightarrow> bytes" where
  "body_wire api fr chunks data =
     (case fr of FrEmpty \<Rightarrow> [] | FrLength _ \<Rightarrow> data | FrChunked _ _ \<Rightarrow> chunked_wire (fst chunks) (snd chunks) | FrEof \<Rightarrow> data)"

definition body_fits :: "web_api \<Rightarrow> framing \<Rightarrow> (string \<times> bytes) list \<times> string \<Rightarrow> bytes \<Rightarrow> buf_reader \<Rightarrow> bytes \<Rightarrow> bool" where
  "body_fits api fr chunks data r rest \<longleftrightarrow>
     (case fr of
        FrEmpty \<Rightarrow> data = []
      | FrLength n \<Rightarrow> n = length data
      | FrChunked n ending \<Rightarrow> n = 0 \<and> \<not> ending \<and> list_all (web_chunk_ok api) (fst chunks) \<and> size_text api (snd chunks) 0 \<and>
          data = concat (map snd (fst chunks))
      | FrEof \<Rightarrow> rest = [] \<and> br_end r = Eof)"

lemma drains_framing:
  assumes "wb_framing b = fr" "body_fits api fr chunks data (wb_reader b) rest" "body_left b = body_wire api fr chunks data @ rest"
    "2 \<le> wb_trailer_limit b"
  shows "drains api idle False b data rest"
proof (cases fr)
  case FrEmpty
  with assms drains_empty [of b api idle False] show ?thesis by (simp add: body_fits_def body_wire_def)
next
  case (FrLength n)
  with assms drains_length [of b data rest api idle False] show ?thesis by (simp add: body_fits_def body_wire_def)
next
  case (FrChunked n ending)
  with assms drains_chunks [of api "fst chunks" "snd chunks" b False rest idle] show ?thesis
    by (simp add: body_fits_def body_wire_def)
next
  case FrEof
  with assms drains_eof [of b api idle False] show ?thesis by (simp add: body_fits_def body_wire_def)
qed

definition kept_fields :: "head_framing \<Rightarrow> (string \<times> string) list \<Rightarrow> (string \<times> string) list" where
  "kept_fields hf hs = filter (\<lambda>(n, _). \<not> hop n \<and> n \<notin> set (hf_connection hf) \<and> n \<noteq> ''content-length'') hs"

text \<open>
  C11. The browser client decodes a response exactly, however the stream cuts its bytes: after at
  most eight interim heads and a final head within the limits on bytes and fields, the response
  has the status of the final head and its fields without the hop-by-hop ones, and pulling the
  body gives the data that was framed, by length, by chunks or by the end of the stream, and
  leaves what follows the response unread.
\<close>

theorem web_response_streams:
  assumes "list_all (interim_head api) before" "length before \<le> 8" "head_reads api ls st hs" "200 \<le> st" "st \<le> 599"
    and "heads_fields before + length hs \<le> MAX_FIELDS"
    and "length (heads_wire before @ head_wire ls) + 2 \<le> MAX_HEAD"
    and "framing_fields api hs no_framing = Inr hf" "choose_framing meth st hf = Inr fr"
    and "body_fits api fr chunks data r rest"
    and "flat r = heads_wire before @ head_wire ls @ body_wire api fr chunks data @ rest"
  shows "\<exists>b outs b'. web_head api meth r = Done (\<lparr>wres_status = st, wres_headers = kept_fields hf hs, wres_body = []\<rparr>, b) \<and>
    drain_body api idle False b = Done (outs, b') \<and> concat outs = data \<and> body_left b' = rest"
proof -
  from final_head_exact [of api "before" ls st hs r "body_wire api fr chunks data @ rest" 9 MAX_HEAD 0] assms
  obtain r1 where r1: "final_head api 9 MAX_HEAD 0 r = Done ((st, hs), MAX_HEAD - length (heads_wire before @ head_wire ls), r1)"
    "flat r1 = body_wire api fr chunks data @ rest" "br_end r1 = br_end r" by auto
  define b where "b = \<lparr>wb_reader = r1, wb_framing = fr, wb_framing_bytes = 0,
    wb_trailer_limit = MAX_HEAD - length (heads_wire before @ head_wire ls)\<rparr>"
  have "web_head api meth r = Done (\<lparr>wres_status = st, wres_headers = kept_fields hf hs, wres_body = []\<rparr>, b)"
    using r1(1) assms(8,9) by (simp add: web_head_def b_def kept_fields_def)
  moreover have "drains api idle False b data rest"
  proof (rule drains_framing)
    show "wb_framing b = fr" "body_left b = body_wire api fr chunks data @ rest" using r1 by (simp_all add: b_def body_left_def)
    show "body_fits api fr chunks data (wb_reader b) rest" using assms(10) r1(3) by (simp add: b_def body_fits_def split: framing.splits)
    show "2 \<le> wb_trailer_limit b" using assms(7) by (simp add: b_def)
  qed
  ultimately show ?thesis by (auto simp: drains_def)
qed

text \<open>
  A line read by the browser client is a function of the bytes of the stream: the loop over
  the segments that arrive agrees with splitting the whole byte string at its first line feed,
  on success, on every error and on not returning, and leaves exactly the bytes after the line.
\<close>

theorem web_lines_unsegmented:
  "(case read_line idle limit r of
      Done (l, r') \<Rightarrow> line_ref idle limit (flat r) (br_end r) = Done (l, flat r') \<and> br_end r' = br_end r
    | Fail e \<Rightarrow> line_ref idle limit (flat r) (br_end r) = Fail e
    | Hang \<Rightarrow> line_ref idle limit (flat r) (br_end r) = Hang)"
proof -
  from read_line_ref [of idle limit r] show ?thesis
    by (cases "line_ref idle limit (flat r) (br_end r)"; cases "read_line_from idle limit [] (br_segs r) (br_end r)")
      (auto simp: read_line_def same_read_def flat_def split: prod.splits)
qed

text \<open>
  A body with a length is delivered in full or reported short: pulling it gives the first
  \<open>n\<close> bytes and leaves the rest, and when the stream ends, breaks or stalls earlier the result is
  the error for that end, never a body that looks complete.
\<close>

theorem length_body_exact:
  assumes "wb_framing b = FrLength n"
  shows "if n \<le> length (body_left b)
    then \<exists>outs b'. drain_body api idle buffered b = Done (outs, b') \<and> concat outs = take n (body_left b) \<and> body_left b' = drop n (body_left b)
    else drain_body api idle buffered b = at_end idle (br_end (wb_reader b)) ''truncatedResponse''"
proof (cases "n \<le> length (body_left b)")
  case True
  with assms drains_length [of b "take n (body_left b)" "drop n (body_left b)" api idle buffered] show ?thesis
    by (auto simp: drains_def)
next
  case False
  with drain_short [OF assms] show ?thesis by simp
qed

subsection \<open>Requests\<close>

lemma hex_digit_digit_char: "d < 10 \<Longrightarrow> hex_digit (digit_char d) = d" "d < 10 \<Longrightarrow> is_ascii_digit (digit_char d)"
  by (simp_all add: hex_digit_def digit_char_def ascii_defs)

lemma radix_value_snoc: "radix_value base (s @ [c]) = base * radix_value base s + hex_digit c"
  by (simp add: radix_value_def)

lemma decimal_reads: "radix_value 10 (decimal n) = n \<and> list_all is_ascii_digit (decimal n) \<and> decimal n \<noteq> []"
proof (induction n rule: decimal.induct)
  case (1 n)
  show ?case
  proof (cases "n < 10")
    case True
    then show ?thesis by (subst (1 2 3) decimal.simps) (simp add: hex_digit_digit_char radix_value_def)
  next
    case False
    with 1 show ?thesis
      by (subst (1 2 3) decimal.simps) (simp add: hex_digit_digit_char radix_value_snoc)
  qed
qed

definition request_lines :: "web_request \<Rightarrow> nat \<Rightarrow> bytes list" where
  "request_lines req n =
     [wr_method req @ '' '' @ wr_path req @ '' HTTP/1.1'', ''Host: '' @ wr_authority req, ''Connection: close'',
      ''Accept-Encoding: identity'', ''Content-Length: '' @ decimal n] @ map (\<lambda>(n, v). n @ '': '' @ v) (wr_headers req)"

text \<open>\<open>HeaderName::from_bytes\<close> accepts the tokens of RFC 9110.\<close>

definition token_char :: "char \<Rightarrow> bool" where
  "token_char c \<longleftrightarrow> is_ascii_alphanumeric c \<or> c \<in> set ''!#$%&*+-.^_`|~'' \<or> c = CHR 0x27"

definition names_are_tokens :: "web_api \<Rightarrow> bool" where
  "names_are_tokens api \<longleftrightarrow> (\<forall>n. header_name_ok api n \<longrightarrow> n \<noteq> [] \<and> list_all token_char n)"

lemma encode_headers_Inr:
  "encode_headers api out hs = Inr out' \<Longrightarrow>
   out' = out @ concat (map (\<lambda>l. l @ CRLF) (map (\<lambda>(n, v). n @ '': '' @ v) hs)) \<and> list_all (request_header_ok api) hs"
  by (induction api out hs rule: encode_headers.induct) (auto simp: Let_def split: if_splits)

lemma no_LF: "list_all (\<lambda>c. code c \<noteq> 10) s \<Longrightarrow> LF \<notin> set s"
  by (auto simp: list_all_iff LF_def code_def)

lemma guard_Inr: "(if c then Inl e else x) = Inr y \<longleftrightarrow> \<not> c \<and> x = Inr y"
  by simp

lemma header_line_plain:
  assumes "names_are_tokens api" "request_header_ok api (n, v)"
  shows "plain_line (n @ '': '' @ v)"
proof -
  from assms have "list_all token_char n" "field_value_ok v"
    by (auto simp: request_header_ok_def names_are_tokens_def Let_def)
  then have "LF \<notin> set n" "LF \<notin> set v"
    by (auto simp: list_all_iff list_ex_iff field_value_ok_def token_char_def ascii_defs LF_def)
  then show ?thesis by (simp add: plain_line_def LF_def)
qed

lemma encode_Inr:
  assumes "encode api req body = Inr out" "names_are_tokens api"
  shows "out = head_wire (request_lines req (length body)) @ body" "list_all plain_line (request_lines req (length body))"
    "length (head_wire (request_lines req (length body))) \<le> MAX_HEAD" "length body \<le> MAX_REQUEST"
    "list_all (request_header_ok api) (wr_headers req)" "length (wr_headers req) + 4 \<le> MAX_FIELDS"
proof -
  define pre where "pre = wr_method req @ '' '' @ wr_path req @ '' HTTP/1.1'' @ CRLF @ ''Host: '' @ wr_authority req @ CRLF @
              ''Connection: close'' @ CRLF @ ''Accept-Encoding: identity'' @ CRLF @
              ''Content-Length: '' @ decimal (length body) @ CRLF"
  note enc = assms(1) [unfolded encode_def Let_def guard_Inr res_bind_Inr_iff not_less not_not, folded pre_def]
  have ok: "wr_method req \<in> {''GET'', ''HEAD'', ''POST'', ''PUT'', ''PATCH'', ''DELETE'', ''OPTIONS''}" "path_ok api (wr_path req)"
      "authority_ok api (wr_authority req)" "length body \<le> MAX_REQUEST" "length (wr_headers req) + 4 \<le> MAX_FIELDS"
    by (insert enc; elim conjE exE; assumption)+
  from enc obtain hd_out where h: "encode_headers api pre (wr_headers req) = Inr hd_out"
      "length (hd_out @ CRLF) \<le> MAX_HEAD" "Inr ((hd_out @ CRLF) @ body) = (Inr out :: string + bytes)"
    by (elim conjE exE) (rule that; assumption)
  note hs = encode_headers_Inr [OF h(1)]
  have wire: "hd_out @ CRLF = head_wire (request_lines req (length body))"
    using hs by (simp add: pre_def head_wire_def request_lines_def)
  show "out = head_wire (request_lines req (length body)) @ body" using h(3) wire by simp
  show "length (head_wire (request_lines req (length body))) \<le> MAX_HEAD" using h(2) wire by simp
  show "length body \<le> MAX_REQUEST" "length (wr_headers req) + 4 \<le> MAX_FIELDS" by (rule ok)+
  show hok: "list_all (request_header_ok api) (wr_headers req)" using hs by simp
  have lf: "code LF \<le> 32" by (simp add: LF_def code_def)
  have "LF \<notin> set (wr_method req)" using ok(1) by (auto simp: LF_def)
  moreover have "\<not> list_ex (\<lambda>b. code b \<le> 32 \<or> 127 \<le> code b \<or> b = CHR ''#'' \<or> b = CHR 0x5C) (wr_path req)"
    using ok(2) by (simp add: path_ok_def)
  then have "LF \<notin> set (wr_path req)" using lf by (auto simp: list_ex_iff)
  moreover have "\<not> list_ex (\<lambda>b. code b \<le> 32 \<or> code b = 127) (wr_authority req)"
    using ok(3) by (simp add: authority_ok_def split: option.splits)
  then have "LF \<notin> set (wr_authority req)" using lf by (auto simp: list_ex_iff)
  moreover have "LF \<notin> set (decimal (length body))" using decimal_reads [of "length body"] by (auto simp: list_all_iff ascii_defs LF_def)
  ultimately have "list_all plain_line (take 5 (request_lines req (length body)))"
    by (simp add: request_lines_def plain_line_def) (simp add: LF_def)
  moreover have "list_all plain_line (map (\<lambda>(n, v). n @ '': '' @ v) (wr_headers req))"
    using hok header_line_plain [OF assms(2)] by (auto simp: list_all_iff)
  ultimately show "list_all plain_line (request_lines req (length body))" by (simp add: request_lines_def)
qed

text \<open>
  C14. An encoded request cannot be split: whatever method, path, authority and fields the page
  supplies, the bytes read back line by line as the request line, the four fields the client
  sets and the page's fields, one line each, followed by exactly the body; the one
  \<open>Content-Length\<close> has the length of the body, and no page field is a hop-by-hop, host, length,
  expectation or encoding field.
\<close>

theorem encoded_request_unsplit:
  assumes "encode api req body = Inr out" "names_are_tokens api" "flat r = out"
  shows "(\<exists>left r'. head_lines MAX_HEAD [] r = Done (head_wire (request_lines req (length body)), left, r') \<and>
      flat r' = body \<and> list_all plain_line (request_lines req (length body))) \<and>
    radix_value 10 (decimal (length body)) = length body \<and> length body \<le> MAX_REQUEST \<and>
    list_all (\<lambda>(n, v). \<not> hop (to_ascii_lowercase n) \<and>
      to_ascii_lowercase n \<notin> {''host'', ''content-length'', ''expect'', ''accept-encoding''}) (wr_headers req)"
proof (intro conjI)
  note e = encode_Inr [OF assms(1,2)]
  from head_lines_text [OF e(2), of r body MAX_HEAD "[]"] e assms(3)
  show "\<exists>left r'. head_lines MAX_HEAD [] r = Done (head_wire (request_lines req (length body)), left, r') \<and>
      flat r' = body \<and> list_all plain_line (request_lines req (length body))" by auto
  show "radix_value 10 (decimal (length body)) = length body" "length body \<le> MAX_REQUEST"
    using e(4) decimal_reads by simp_all
  show "list_all (\<lambda>(n, v). \<not> hop (to_ascii_lowercase n) \<and>
      to_ascii_lowercase n \<notin> {''host'', ''content-length'', ''expect'', ''accept-encoding''}) (wr_headers req)"
    using e(5) by (auto simp: list_all_iff request_header_ok_def Let_def)
qed

subsection \<open>Bounds\<close>

lemma final_head_bounds:
  assumes "final_head api n remaining count r = Done ((st, hs), left, r')"
  shows "200 \<le> st \<and> st \<le> 599 \<and> length hs \<le> MAX_FIELDS"
  using assms
proof (induction n arbitrary: remaining count r)
  case (Suc n)
  from Suc.prems obtain head rem r1 where l: "head_lines remaining [] r = Done (head, rem, r1)"
    by (auto simp: out_bind_Done_iff)
  with Suc.prems obtain p :: parsed_head and stp hsp where
    p: "100 \<le> stp" "stp \<le> 599" "count + length (ph_headers p) \<le> MAX_FIELDS" "collect_results field_of (ph_headers p) = Inr hsp"
    and r: "if 200 \<le> stp then st = stp \<and> hs = hsp else final_head api n rem (count + length (ph_headers p)) r1 = Done ((st, hs), left, r')"
    by (auto simp: Let_def not_less split: option.split_asm if_split_asm sum.split_asm)
  show ?case
  proof (cases "200 \<le> stp")
    case True
    with r p collect_results_length [OF p(4)] show ?thesis by simp
  next
    case False
    with r Suc.IH show ?thesis by simp
  qed
qed simp

lemma read_loop_bounded: "read_loop api sofar b = Done bs \<Longrightarrow> length sofar \<le> MAX_BODY \<Longrightarrow> length bs \<le> MAX_BODY"
proof (induction api sofar b rule: read_loop.induct)
  case (1 api sofar b)
  from 1(2) consider b1 where "body_next api False True b = Done (None, b1)" "bs = sofar"
    | out b1 where "body_next api False True b = Done (Some out, b1)" "\<not> MAX_BODY - length sofar < length out"
        "read_loop api (sofar @ out) b1 = Done bs"
    by (subst (asm) read_loop.simps) (auto split: outcome.splits option.splits if_splits)
  then show ?case
  proof cases
    case 1
    with \<open>length sofar \<le> MAX_BODY\<close> show ?thesis by simp
  next
    case (2 out b1)
    then have "length (sofar @ out) \<le> MAX_BODY" using \<open>length sofar \<le> MAX_BODY\<close> by simp
    with 1(1) [OF 2(1) refl refl 2(2,3)] show ?thesis by simp
  qed
qed

text \<open>The buffered read returns what a drain within the bound gives.\<close>

lemma read_loop_drains:
  "drain_body api False True b = Done (outs, b') \<Longrightarrow> length sofar + length (concat outs) \<le> MAX_BODY \<Longrightarrow>
   read_loop api sofar b = Done (sofar @ concat outs)"
proof (induction outs arbitrary: b sofar)
  case Nil
  then obtain b1 where "body_next api False True b = Done (None, b1)"
    by (subst (asm) drain_body.simps) (auto simp: out_bind_Done_iff split: outcome.split_asm option.split_asm)
  then show ?case by (subst read_loop.simps) simp
next
  case (Cons out outs)
  then obtain b1 where "body_next api False True b = Done (Some out, b1)" "drain_body api False True b1 = Done (outs, b')"
    by (subst (asm) drain_body.simps) (auto simp: out_bind_Done_iff split: outcome.split_asm option.split_asm)
  with Cons.IH [of b1 "sofar @ out"] Cons.prems(2) show ?case by (subst read_loop.simps) simp
qed

lemma web_read_limits:
  assumes "web_read api meth r = Done resp"
  shows "200 \<le> wres_status resp \<and> wres_status resp \<le> 599 \<and> length (wres_headers resp) \<le> MAX_FIELDS \<and>
    list_all (\<lambda>(n, v). \<not> hop n \<and> n \<noteq> ''content-length'') (wres_headers resp) \<and>
    length (wres_body resp) \<le> MAX_BODY \<and>
    (if meth = ''HEAD'' \<or> wres_status resp \<in> {204, 205, 304} then wres_body resp = [] else True)"
proof -
  from assms obtain resp0 wb bs where h: "web_head api meth r = Done (resp0, wb)"
    and b: "read_loop api [] wb = Done bs" "resp = resp0\<lparr>wres_body := bs\<rparr>"
    unfolding web_read_def by (auto simp: out_bind_Done_iff split: if_splits)
  obtain st hs left r1 where f: "final_head api 9 MAX_HEAD 0 r = Done ((st, hs), left, r1)"
    using h by (auto simp: web_head_def out_bind_Done_iff)
  with h obtain hf fr where c: "choose_framing meth st hf = Inr fr" "wb_framing wb = fr"
    and resp0: "resp0 = \<lparr>wres_status = st, wres_headers = kept_fields hf hs, wres_body = []\<rparr>"
    by (auto simp: web_head_def kept_fields_def split: sum.split_asm)
  have "bs = []" if "meth = ''HEAD'' \<or> st \<in> {204, 205, 304}"
  proof -
    have "fr = FrEmpty" using c(1) that by (auto simp: choose_framing_def split: if_splits)
    with b(1) c(2) show ?thesis by (subst (asm) read_loop.simps) (simp add: body_next_def)
  qed
  moreover have "length (kept_fields hf hs) \<le> MAX_FIELDS"
    using final_head_bounds [OF f] length_filter_le le_trans unfolding kept_fields_def by blast
  ultimately show ?thesis
    using final_head_bounds [OF f] read_loop_bounded [OF b(1)] b(2) resp0 by (auto simp: kept_fields_def list_all_iff)
qed

text \<open>
  A buffered response is within the bounds the client promises the page: a final status, at
  most 100 fields with no hop-by-hop field and no content length, at most 8 MiB of body, and no
  body at all for \<open>HEAD\<close> and the statuses without one.
\<close>

theorem web_read_bounded:
  assumes "web_read api meth r = Done resp"
  shows "200 \<le> wres_status resp \<and> wres_status resp \<le> 599 \<and> length (wres_headers resp) \<le> MAX_FIELDS \<and>
    list_all (\<lambda>(n, v). \<not> hop n \<and> n \<noteq> ''content-length'') (wres_headers resp) \<and>
    length (wres_body resp) \<le> MAX_BODY \<and>
    (if meth = ''HEAD'' \<or> wres_status resp \<in> {204, 205, 304} then wres_body resp = [] else True)"
  by (rule web_read_limits [OF assms])

subsection \<open>Samples\<close>

text \<open>A head parser that knows two heads, and a response after an early hint, cut at odd places.\<close>

definition hint_lines :: "bytes list" where "hint_lines = [''HTTP/1.1 103 Early Hints'']"
definition chunked_lines :: "bytes list" where "chunked_lines = [''HTTP/1.1 200 OK'', ''Transfer-Encoding: chunked'', ''X: y'']"
definition sized_lines :: "bytes list" where "sized_lines = [''HTTP/1.1 200 OK'', ''Content-Length: 4'']"

definition sample_parser :: "bytes \<Rightarrow> parsed_head option" where
  "sample_parser bs =
     (if bs = head_wire hint_lines then Some \<lparr>ph_version = Some 1, ph_code = Some 103, ph_headers = []\<rparr>
      else if bs = head_wire chunked_lines
      then Some \<lparr>ph_version = Some 1, ph_code = Some 200, ph_headers = [(''Transfer-Encoding'', ''chunked''), (''X'', ''y'')]\<rparr>
      else if bs = head_wire sized_lines
      then Some \<lparr>ph_version = Some 1, ph_code = Some 200, ph_headers = [(''Content-Length'', ''4'')]\<rparr>
      else None)"

definition sample_web_api :: web_api where
  "sample_web_api = \<lparr>path_and_query_ok = (\<lambda>_. True),
     authority_parse = (\<lambda>a. Some \<lparr>au_host = a, au_port = None, au_port_u16 = None\<rparr>),
     header_name_ok = (\<lambda>n. n \<noteq> [] \<and> list_all token_char n), parse_response = sample_parser, usize_max = 2 ^ 32 - 1\<rparr>"

definition chunked_reader :: buf_reader where
  "chunked_reader = \<lparr>br_segs = [take 30 (head_wire hint_lines @ head_wire chunked_lines), drop 30 (head_wire hint_lines @ head_wire chunked_lines),
     ''3'', CRLF @ ''ab'', ''c'' @ CRLF @ ''0'' @ [CR], [LF] @ CRLF, ''rest''], br_end = Stalled\<rparr>"

lemmas sample_defs = hint_lines_def chunked_lines_def sized_lines_def sample_parser_def sample_web_api_def head_wire_def
  CRLF_def CR_def LF_def

lemma sample_names:
  "to_ascii_lowercase ''Transfer-Encoding'' = ''transfer-encoding''" "to_ascii_lowercase ''X'' = ''x''"
  "to_ascii_lowercase ''Content-Length'' = ''content-length''" "to_ascii_lowercase ''X-Y'' = ''x-y''"
  by code_simp+

lemmas web_text_defs = sample_names ascii_defs field_value_ok_def trim_def token_char_def eq_ignore_ascii_case_def hop_def

lemma sample_heads:
  "interim_head sample_web_api (hint_lines, 103, [])"
  "head_reads sample_web_api chunked_lines 200 [(''transfer-encoding'', ''chunked''), (''x'', ''y'')]"
  by (simp_all add: interim_head_def head_reads_def sample_defs plain_line_def field_of_def utf8_ascii web_text_defs)

lemma sample_framing:
  "framing_fields sample_web_api [(''transfer-encoding'', ''chunked''), (''x'', ''y'')] no_framing = Inr (no_framing\<lparr>hf_chunked := True\<rparr>)"
  by (simp add: framing_field_def no_framing_def web_text_defs)

lemma sample_wire:
  "length (heads_wire [(hint_lines, 103, [])] @ head_wire chunked_lines) + 2 \<le> MAX_HEAD"
  "body_fits sample_web_api (FrChunked 0 False) ([(''3'', ''abc'')], ''0'') ''abc'' chunked_reader ''rest''"
  "flat chunked_reader = heads_wire [(hint_lines, 103, [])] @ head_wire chunked_lines @
     body_wire sample_web_api (FrChunked 0 False) ([(''3'', ''abc'')], ''0'') ''abc'' @ ''rest''"
proof -
  show "length (heads_wire [(hint_lines, 103, [])] @ head_wire chunked_lines) + 2 \<le> MAX_HEAD"
    by (simp add: heads_wire_def sample_defs MAX_HEAD_def)
  show "body_fits sample_web_api (FrChunked 0 False) ([(''3'', ''abc'')], ''0'') ''abc'' chunked_reader ''rest''"
    by (simp add: body_fits_def web_chunk_ok_def size_text_def MAX_CHUNK_LINE_def parse_usize_def radix_value_def hex_digit_def
        sample_web_api_def ascii_defs)
  show "flat chunked_reader = heads_wire [(hint_lines, 103, [])] @ head_wire chunked_lines @
     body_wire sample_web_api (FrChunked 0 False) ([(''3'', ''abc'')], ''0'') ''abc'' @ ''rest''"
    by (simp add: flat_def chunked_reader_def heads_wire_def sample_defs body_wire_def chunked_wire_def chunk_wire_def)
qed

theorem web_response_streams_witness:
  "\<exists>b outs b'. web_head sample_web_api ''GET'' chunked_reader =
      Done (\<lparr>wres_status = 200, wres_headers = [(''x'', ''y'')], wres_body = []\<rparr>, b) \<and>
    drain_body sample_web_api True False b = Done (outs, b') \<and> concat outs = ''abc'' \<and> body_left b' = ''rest''"
proof -
  have "kept_fields (no_framing\<lparr>hf_chunked := True\<rparr>) [(''transfer-encoding'', ''chunked''), (''x'', ''y'')] = [(''x'', ''y'')]"
    "choose_framing ''GET'' 200 (no_framing\<lparr>hf_chunked := True\<rparr>) = Inr (FrChunked 0 False)"
    "heads_fields [(hint_lines, 103, [])] + length [(''transfer-encoding'', ''chunked''), (''x'', ''y'')] \<le> MAX_FIELDS"
    by (simp_all add: kept_fields_def no_framing_def hop_def choose_framing_def heads_fields_def MAX_FIELDS_def)
  then show ?thesis
    using web_response_streams [OF _ _ sample_heads(2) _ _ _ sample_wire(1) sample_framing _ sample_wire(2,3), of "''GET''" True]
      sample_heads(1) by simp
qed

theorem length_body_exact_witness:
  "drain_body sample_web_api True False
     \<lparr>wb_reader = \<lparr>br_segs = [''ab'', ''c''], br_end = Eof\<rparr>, wb_framing = FrLength 4, wb_framing_bytes = 0, wb_trailer_limit = 2\<rparr> =
   Fail ''truncatedResponse''"
  using length_body_exact [of "\<lparr>wb_reader = \<lparr>br_segs = [''ab'', ''c''], br_end = Eof\<rparr>, wb_framing = FrLength 4,
      wb_framing_bytes = 0, wb_trailer_limit = 2\<rparr>" 4 sample_web_api True False]
  by (simp add: body_left_def flat_def at_end_def)

definition sample_web_request :: web_request where
  "sample_web_request = \<lparr>wr_method = ''POST'', wr_path = ''/a'', wr_authority = ''h'', wr_headers = [(''X-Y'', ''z w'')], wr_timeout_ms = 5\<rparr>"

theorem encoded_request_unsplit_witness:
  "\<exists>out. encode sample_web_api sample_web_request ''hi'' = Inr out \<and>
    (\<exists>left r'. head_lines MAX_HEAD [] \<lparr>br_segs = [out], br_end = Eof\<rparr> = Done (head_wire (request_lines sample_web_request (length ''hi'')), left, r') \<and>
      flat r' = ''hi'')"
proof -
  have "\<not> isl (encode sample_web_api sample_web_request ''hi'')"
    by (simp add: encode_def sample_web_request_def MAX_REQUEST_def MAX_FIELDS_def MAX_HEAD_def path_ok_def authority_ok_def
        starts_with_def ends_with_def strip_suffix_def request_header_ok_def decimal.simps digit_char_def sample_web_api_def CRLF_def
        web_text_defs)
  then obtain out where e: "encode sample_web_api sample_web_request ''hi'' = Inr out"
    by (cases "encode sample_web_api sample_web_request ''hi''") auto
  have "names_are_tokens sample_web_api" by (simp add: names_are_tokens_def sample_web_api_def)
  from encoded_request_unsplit [OF e this, of "\<lparr>br_segs = [out], br_end = Eof\<rparr>"] e show ?thesis by (auto simp: flat_def)
qed

lemma sample_read:
  "web_read sample_web_api ''GET'' \<lparr>br_segs = [head_wire sized_lines, ''data''], br_end = Eof\<rparr> =
     Done \<lparr>wres_status = 200, wres_headers = [], wres_body = ''data''\<rparr>"
proof -
  let ?r = "\<lparr>br_segs = [head_wire sized_lines, ''data''], br_end = Eof\<rparr>"
  have h: "head_reads sample_web_api sized_lines 200 [(''content-length'', ''4'')]"
    by (simp add: head_reads_def sample_defs plain_line_def field_of_def utf8_ascii web_text_defs)
  have len: "length (head_wire sized_lines) \<le> MAX_HEAD" "length [(''content-length'', ''4'')] \<le> MAX_FIELDS"
    by (simp_all add: sample_defs MAX_HEAD_def MAX_FIELDS_def)
  from final_head_exact [OF _ h, of "[]" ?r "''data''" 9 MAX_HEAD 0] len obtain left r1 where
    r1: "final_head sample_web_api 9 MAX_HEAD 0 ?r = Done ((200, [(''content-length'', ''4'')]), left, r1)" "flat r1 = ''data''"
    by (auto simp: heads_wire_def heads_fields_def flat_def)
  have f: "framing_fields sample_web_api [(''content-length'', ''4'')] no_framing = Inr (no_framing\<lparr>hf_length := Some 4\<rparr>)"
    by (simp add: framing_field_def no_framing_def parse_usize_def radix_value_def hex_digit_def sample_web_api_def web_text_defs)
  let ?b = "\<lparr>wb_reader = r1, wb_framing = FrLength 4, wb_framing_bytes = 0, wb_trailer_limit = left\<rparr>"
  obtain outs b' where "drain_body sample_web_api False True ?b = Done (outs, b')" "concat outs = ''data''"
    using drains_length [of ?b "''data''" "[]" sample_web_api False True] r1(2) by (auto simp: drains_def body_left_def)
  with read_loop_drains [of sample_web_api ?b outs b' "[]"] have "read_loop sample_web_api [] ?b = Done ''data''"
    by (simp add: MAX_BODY_def)
  with r1 f show ?thesis
    by (simp add: web_read_def web_head_def choose_framing_def no_framing_def MAX_BODY_def)
qed

theorem web_read_bounded_witness:
  "web_read sample_web_api ''GET'' \<lparr>br_segs = [head_wire sized_lines, ''data''], br_end = Eof\<rparr> =
     Done \<lparr>wres_status = 200, wres_headers = [], wres_body = ''data''\<rparr> \<and>
   length (wres_body \<lparr>wres_status = 200, wres_headers = [], wres_body = ''data''\<rparr>) \<le> MAX_BODY"
  using web_read_bounded [OF sample_read] sample_read by simp

end
