(* ===== verification/Web_Client.thy ===== *)
theory Web_Client
  imports Web_Response Session_Client Tickets
begin

text \<open>
  The browser client, \<open>crates/locho-web/src/lib.rs\<close>: the status observer, the owner task that
  keeps a streaming response, the entry checks and the exchange of \<open>request\<close> and
  \<open>request_stream\<close>, the health request with its response validation, and connecting.

  Every promise rejected to the page carries one of the codes of the source. JSON texts are values
  of records, with \<open>serde_json\<close> as a parameter; a watch channel is its current value with a
  version, and a task that waits is given the value it wakes up to. The page's \<open>next\<close> calls, the
  polls of the owner task and the cancellations interleave in any order.
\<close>

subsection \<open>Error codes and the published status\<close>

fun map_error :: "session_error \<Rightarrow> string" where
  "map_error SessClosed = ''closed''"
| "map_error SessCancelled = ''cancelled''"
| "map_error (SessTimeout _) = ''timeout''"
| "map_error (SessTransport _) = ''transport''"
| "map_error SessProtocol = ''protocol''"
| "map_error (SessServiceRejected _) = ''serviceRejected''"
| "map_error SessUnsupportedService = ''unsupportedService''"
| "map_error SessResourceLimit = ''resourceLimit''"
| "map_error SessDriverStopped = ''driverStopped''"

fun state_name :: "session_state \<Rightarrow> string" where
  "state_name Starting = ''starting''"
| "state_name Connecting = ''connecting''"
| "state_name Connected = ''connected''"
| "state_name Reconnecting = ''reconnecting''"
| "state_name Failed = ''failed''"
| "state_name Closing = ''closing''"
| "state_name Closed = ''closed''"

fun path_name :: "transport_path \<Rightarrow> string" where
  "path_name PathUnknown = ''unknown''"
| "path_name PathDirect = ''direct''"
| "path_name PathRelay = ''relay''"
| "path_name PathMixed = ''mixed''"

record status_report =
  sj_revision :: nat
  sj_state :: string
  sj_path :: string
  sj_connection_error_code :: "string option"
  sj_error_code :: "string option"

definition status_json :: "session_status \<Rightarrow> status_report" where
  "status_json s = \<lparr>sj_revision = revision s, sj_state = state_name (state s), sj_path = path_name (path s),
     sj_connection_error_code = map_option map_error (last_error s),
     sj_error_code = map_option map_error (terminal_error s)\<rparr>"

subsection \<open>The status observer\<close>

record watch =
  w_version :: nat
  w_value :: session_status
  w_gone :: bool

record observer =
  ob_seen :: nat
  ob_first :: bool
  ob_finished :: bool

definition observer_new :: observer where
  "observer_new = \<lparr>ob_seen = 0, ob_first = True, ob_finished = False\<rparr>"

text \<open>\<open>borrow_and_update\<close> with the two assignments around it.\<close>

definition observer_take :: "watch \<Rightarrow> observer \<Rightarrow> observer" where
  "observer_take w ob = ob\<lparr>ob_first := False, ob_seen := w_version w, ob_finished := (state (w_value w) = Closed)\<rparr>"

text \<open>
  \<open>next\<close>, given the watch at the call and what the waiting wakes up to: \<open>None\<close> is the
  cancellation, and \<open>changed\<close> resolves when the version is new or the sender is gone.
\<close>

definition observer_next ::
  "bool \<Rightarrow> watch \<Rightarrow> watch option \<Rightarrow> observer \<Rightarrow> (status_report option, string) outcome \<times> observer" where
  "observer_next cancelled now wake ob =
     (if cancelled then (Done None, ob)
      else if ob_first ob then (Done (Some (status_json (w_value now))), observer_take now ob)
      else if ob_finished ob then (Done None, ob)
      else case wake of
        None \<Rightarrow> (Done None, ob)
      | Some w \<Rightarrow>
          let changed = w_version w \<noteq> ob_seen ob in
          if \<not> changed \<and> \<not> w_gone w then (Hang, ob)
          else if \<not> changed \<and> state (w_value w) \<noteq> Closed then (Fail ''driverStopped'', ob)
          else (Done (Some (status_json (w_value w))), observer_take w ob))"

text \<open>
  The watch of a session: every publication of the driver raises the revision by one, so the
  revision is the version; the sender lives in the driver.
\<close>

definition session_watch :: "session \<Rightarrow> watch" where
  "session_watch s = \<lparr>w_version = revision (status s), w_value = status s, w_gone = (pc s = Completed \<or> pc s = Dropped)\<rparr>"

text \<open>
  A sequence of calls along a run of the session: what happens before the call, whether the call
  finds the token cancelled, and what happens while it waits.
\<close>

type_synonym observe_call = "action list \<times> bool \<times> action list option"

fun observe_calls ::
  "observe_call list \<Rightarrow> session \<Rightarrow> observer \<Rightarrow> (status_report option, string) outcome list" where
  "observe_calls [] s ob = []"
| "observe_calls ((earlier, cancelled, waiting) # calls) s ob =
     (let s1 = run_steps session_step earlier s;
          s2 = (case waiting of None \<Rightarrow> s1 | Some as \<Rightarrow> run_steps session_step as s1);
          (r, ob) = observer_next cancelled (session_watch s1) (map_option (\<lambda>_. session_watch s2) waiting) ob
      in r # observe_calls calls s2 ob)"

subsection \<open>The owner of a streaming response\<close>

type_synonym pull_reply = "string + bytes option"

record web_stream =
  ws_body :: web_body
  ws_shutdown :: bool
  ws_cancelled :: bool
  ws_done :: bool
  ws_error :: "string option"
  ws_finished :: bool
  ws_permit :: bool
  ws_pulls :: nat
  ws_replies :: "pull_reply list"

definition web_stream_new :: "web_body \<Rightarrow> web_stream" where
  "web_stream_new b = \<lparr>ws_body = b, ws_shutdown = False, ws_cancelled = False, ws_done = False, ws_error = None,
     ws_finished = False, ws_permit = True, ws_pulls = 0, ws_replies = []\<rparr>"

text \<open>What \<open>next\<close> falls back to when the owner does not answer.\<close>

definition final_reply :: "string option \<Rightarrow> pull_reply" where
  "final_reply err = (case err of Some c \<Rightarrow> Inl c | None \<Rightarrow> Inr None)"

definition owner_reply :: "pull_reply \<Rightarrow> web_stream \<Rightarrow> web_stream" where
  "owner_reply r s = s\<lparr>ws_pulls := ws_pulls s - 1, ws_replies := ws_replies s @ [r]\<rparr>"

text \<open>The end of the task: the pulls it leaves see their channel closed and the cells set.\<close>

definition owner_finish :: "string option \<Rightarrow> web_stream \<Rightarrow> web_stream" where
  "owner_finish err s = s\<lparr>ws_error := err, ws_done := True, ws_permit := False, ws_finished := True,
     ws_pulls := 0, ws_replies := ws_replies s @ replicate (ws_pulls s) (final_reply err)\<rparr>"

definition owner_run :: "web_api \<Rightarrow> bool \<Rightarrow> web_stream \<Rightarrow> web_stream" where
  "owner_run api ready s =
     (if body_empty (ws_body s) then owner_finish None s
      else if ws_pulls s = 0 \<or> \<not> ready then s
      else case body_next api True False (ws_body s) of
        Hang \<Rightarrow> s
      | Fail e \<Rightarrow> owner_finish (Some e) (owner_reply (Inl e) s)
      | Done (None, b) \<Rightarrow> owner_finish None (owner_reply (Inr None) (s\<lparr>ws_body := b\<rparr>))
      | Done (Some out, b) \<Rightarrow>
          let s = owner_reply (Inr (Some out)) (s\<lparr>ws_body := b\<rparr>)
          in if body_empty b then owner_finish None s else s)"

definition owner_poll :: "web_api \<Rightarrow> bool \<Rightarrow> web_stream \<Rightarrow> web_stream" where
  "owner_poll api ready s =
     (if ws_done s then s
      else if ws_shutdown s then owner_finish (Some ''closed'') s
      else if ws_cancelled s then owner_finish (Some ''cancelled'') s
      else owner_run api ready s)"

definition stream_next :: "web_stream \<Rightarrow> web_stream" where
  "stream_next s =
     (if ws_done s then s\<lparr>ws_replies := ws_replies s @ [final_reply (ws_error s)]\<rparr>
      else s\<lparr>ws_pulls := ws_pulls s + 1\<rparr>)"

definition stream_cancel :: "web_stream \<Rightarrow> web_stream" where
  "stream_cancel s = s\<lparr>ws_cancelled := True\<rparr>"

datatype stream_action = NextCall | OwnerPoll bool | CancelStream | CloseClient

fun stream_step :: "web_api \<Rightarrow> stream_action \<Rightarrow> web_stream \<Rightarrow> web_stream" where
  "stream_step api NextCall s = stream_next s"
| "stream_step api (OwnerPoll ready) s = owner_poll api ready s"
| "stream_step api CancelStream s = stream_cancel s"
| "stream_step api CloseClient s = s\<lparr>ws_shutdown := True\<rparr>"

subsection \<open>Lemmas: the observer\<close>

definition yielded :: "(status_report option, string) outcome list \<Rightarrow> status_report list" where
  "yielded rs = concat (map (\<lambda>r. case r of Done (Some j) \<Rightarrow> [j] | _ \<Rightarrow> []) rs)"

lemma yielded_simps [simp]:
  "yielded [] = []" "yielded (Done (Some j) # rs) = j # yielded rs" "yielded (Done None # rs) = yielded rs"
  "yielded (Hang # rs) = yielded rs" "yielded (Fail e # rs) = yielded rs"
  by (simp_all add: yielded_def)

lemma state_name_closed: "state_name st = ''closed'' \<longleftrightarrow> st = Closed"
  by (cases st) simp_all

text \<open>What the observer remembers: a status published earlier in the run.\<close>

definition saw :: "session \<Rightarrow> observer \<Rightarrow> bool" where
  "saw s ob \<longleftrightarrow> (\<exists>s0 as. s = run_steps session_step as s0 \<and> ob_seen ob = revision (status s0) \<and>
     ob_finished ob = (state (status s0) = Closed))"

lemma saw_run: "saw s ob \<Longrightarrow> saw (run_steps session_step as s) ob"
  unfolding saw_def by (metis run_steps_append)

lemma saw_take: "saw s (observer_take (session_watch s) ob)"
  unfolding saw_def by (rule exI [of _ s], rule exI [of _ "[]"]) (simp add: observer_take_def session_watch_def)

lemma saw_revision:
  assumes "saw s ob"
  shows "ob_seen ob \<le> revision (status s)" "ob_seen ob = revision (status s) \<Longrightarrow> ob_finished ob = (state (status s) = Closed)"
  using assms sess_rev.revision_mono sess_rev.same_revision_same_status unfolding saw_def by metis+

lemma gone_closed:
  assumes "reach session_start session_step s" "w_gone (session_watch s)"
  shows "state (status s) = Closed"
  using sess.reach_inv [OF assms(1)] assms(2)
  by (auto simp: session_watch_def session_inv_def state_ok_def live_pcs_def ending_pcs_def ended_pcs_def)

text \<open>One call: no error, and a status it gives is newer than the one remembered.\<close>

lemma observer_next_result:
  assumes "reach session_start session_step s2" "\<not> ob_first ob" "saw s2 ob"
    and "observer_next cancelled now (map_option (\<lambda>_. session_watch s2) waiting) ob = (r, ob')"
  shows "r = Done None \<and> ob' = ob \<or> r = Hang \<and> ob' = ob \<or>
    (r = Done (Some (status_json (status s2))) \<and> ob' = observer_take (session_watch s2) ob \<and>
     ob_seen ob < revision (status s2) \<and> \<not> ob_finished ob)"
proof -
  have new: "ob_seen ob < revision (status s2)"
    if "w_version (session_watch s2) \<noteq> ob_seen ob"
    using that saw_revision(1) [OF assms(3)] by (simp add: session_watch_def)
  have no_error: "state (status s2) = Closed \<and> ob_finished ob"
    if "w_version (session_watch s2) = ob_seen ob" "w_gone (session_watch s2)"
    using that saw_revision(2) [OF assms(3)] gone_closed [OF assms(1)] by (simp add: session_watch_def)
  from assms(2,4) new no_error show ?thesis
    by (cases waiting) (auto simp: observer_next_def Let_def session_watch_def split: if_splits)
qed

lemma observe_calls_newer:
  assumes "reach session_start session_step s" "\<not> ob_first ob" "saw s ob"
  shows "sorted_wrt (<) (ob_seen ob # map sj_revision (yielded (observe_calls calls s ob))) \<and>
    list_all (\<lambda>r. case r of Fail _ \<Rightarrow> False | _ \<Rightarrow> True) (observe_calls calls s ob) \<and>
    (ob_finished ob \<longrightarrow> yielded (observe_calls calls s ob) = []) \<and>
    list_all (\<lambda>j. sj_state j \<noteq> ''closed'') (butlast (yielded (observe_calls calls s ob)))"
  using assms
proof (induction calls arbitrary: s ob)
  case Nil
  then show ?case by simp
next
  case (Cons c calls)
  obtain earlier cancelled waiting where c: "c = (earlier, cancelled, waiting)" by (cases c)
  define s1 where "s1 = run_steps session_step earlier s"
  define s2 where "s2 = (case waiting of None \<Rightarrow> s1 | Some as \<Rightarrow> run_steps session_step as s1)"
  obtain r ob' where n: "observer_next cancelled (session_watch s1) (map_option (\<lambda>_. session_watch s2) waiting) ob = (r, ob')"
    by fastforce
  have calls: "observe_calls (c # calls) s ob = r # observe_calls calls s2 ob'"
    using n by (simp add: c s1_def [symmetric] s2_def [symmetric] Let_def)
  have s2: "reach session_start session_step s2" "saw s2 ob"
    using Cons.prems by (auto simp: s2_def s1_def intro: reach_run saw_run split: option.splits)
  from observer_next_result [OF s2(1) Cons.prems(2) s2(2) n] consider "r = Done None \<or> r = Hang" "ob' = ob"
    | "r = Done (Some (status_json (status s2)))" "ob' = observer_take (session_watch s2) ob"
      "ob_seen ob < revision (status s2)" "\<not> ob_finished ob" by blast
  then show ?case
  proof cases
    case 1
    with Cons.IH [OF s2(1) Cons.prems(2) s2(2)] calls show ?thesis by auto
  next
    case 2
    then have ob': "\<not> ob_first ob'" "saw s2 ob'" "ob_seen ob' = revision (status s2)"
        "ob_finished ob' = (state (status s2) = Closed)"
      by (simp_all add: saw_take) (simp_all add: observer_take_def session_watch_def)
    from Cons.IH [OF s2(1) ob'(1,2)] calls 2 ob'(3,4) show ?thesis
      by (auto simp: status_json_def state_name_closed)
  qed
qed

lemma observe_calls_new:
  assumes "reach session_start session_step s"
  shows "sorted_wrt (<) (map sj_revision (yielded (observe_calls calls s observer_new))) \<and>
    list_all (\<lambda>r. case r of Fail _ \<Rightarrow> False | _ \<Rightarrow> True) (observe_calls calls s observer_new) \<and>
    list_all (\<lambda>j. sj_state j \<noteq> ''closed'') (butlast (yielded (observe_calls calls s observer_new)))"
  using assms
proof (induction calls arbitrary: s)
  case Nil
  then show ?case by simp
next
  case (Cons c calls)
  obtain earlier cancelled waiting where c: "c = (earlier, cancelled, waiting)" by (cases c)
  define s1 where "s1 = run_steps session_step earlier s"
  define s2 where "s2 = (case waiting of None \<Rightarrow> s1 | Some as \<Rightarrow> run_steps session_step as s1)"
  define ob where "ob = observer_take (session_watch s1) observer_new"
  have s2: "reach session_start session_step s2" "saw s2 ob"
    using Cons.prems saw_take saw_run by (auto simp: s2_def s1_def ob_def intro: reach_run split: option.splits)
  have calls: "observe_calls (c # calls) s observer_new =
      (if cancelled then Done None # observe_calls calls s2 observer_new
       else Done (Some (status_json (status s1))) # observe_calls calls s2 ob)"
    by (simp add: c s1_def [symmetric] s2_def [symmetric] ob_def observer_next_def observer_new_def session_watch_def)
  have ob: "\<not> ob_first ob" "ob_seen ob = revision (status s1)" "ob_finished ob = (state (status s1) = Closed)"
    by (simp_all add: ob_def observer_take_def session_watch_def)
  show ?case
    using calls Cons.IH [OF s2(1)] observe_calls_newer [OF s2(1) ob(1) s2(2), of calls] ob(2,3)
    by (cases cancelled) (auto simp: status_json_def state_name_closed)
qed

text \<open>
  The status observer of the browser never repeats or reorders: along every run of the
  session, interleaved with the calls of \<open>next\<close> in any way, the statuses it gives have strictly
  increasing revisions, the closed state is the last one given, and the error for a stopped
  driver is never reported, because a driver that goes away has published the closed state.
\<close>

theorem observer_newest_once:
  assumes "reach session_start session_step s"
  shows "sorted_wrt (<) (map sj_revision (yielded (observe_calls calls s observer_new))) \<and>
    list_all (\<lambda>r. case r of Fail _ \<Rightarrow> False | _ \<Rightarrow> True) (observe_calls calls s observer_new) \<and>
    list_all (\<lambda>j. sj_state j \<noteq> ''closed'') (butlast (yielded (observe_calls calls s observer_new)))"
  by (rule observe_calls_new [OF assms])

theorem observer_newest_once_witness:
  "map sj_state (yielded (observe_calls [([], False, None), ([], True, None), ([], False, Some [DropDriver]), ([], False, None)]
      session_start observer_new)) = [''starting'', ''closed''] \<and>
   sorted_wrt (<) (map sj_revision (yielded (observe_calls [([], False, None), ([], True, None), ([], False, Some [DropDriver]), ([], False, None)]
      session_start observer_new)))"
proof -
  have "map sj_state (yielded (observe_calls [([], False, None), ([], True, None), ([], False, Some [DropDriver]), ([], False, None)]
      session_start observer_new)) = [''starting'', ''closed'']"
    by (simp add: observer_next_def observer_new_def observer_take_def session_watch_def session_start_def default_status_def
        status_json_def driver_drop_def)
  with observer_newest_once [OF reach_init] show ?thesis by blast
qed

subsection \<open>Lemmas: the owner\<close>

text \<open>
  What the pulls have given so far is what draining the body from the start gives first, and the
  draining ends the way the owner reports.
\<close>

definition chunks_given :: "pull_reply list \<Rightarrow> bytes list" where
  "chunks_given rs = concat (map (\<lambda>r. case r of Inr (Some out) \<Rightarrow> [out] | _ \<Rightarrow> []) rs)"

definition continues :: "bytes list \<Rightarrow> (bytes list \<times> web_body, string) outcome \<Rightarrow> (bytes list \<times> web_body, string) outcome" where
  "continues outs m = out_bind m (\<lambda>(os, b). Done (outs @ os, b))"

definition answered_with :: "bytes list \<Rightarrow> pull_reply \<Rightarrow> pull_reply list \<Rightarrow> bool" where
  "answered_with outs r rs \<longleftrightarrow> (\<exists>k. rs = map (\<lambda>out. Inr (Some out)) outs @ replicate k r)"

definition stream_inv :: "web_api \<Rightarrow> web_body \<Rightarrow> web_stream \<Rightarrow> bool" where
  "stream_inv api b0 s \<longleftrightarrow>
     ws_finished s = ws_done s \<and> ws_permit s = (\<not> ws_done s) \<and>
     (if ws_done s
      then answered_with (chunks_given (ws_replies s)) (final_reply (ws_error s)) (ws_replies s) \<and> ws_pulls s = 0 \<and>
        (case ws_error s of
           None \<Rightarrow> \<exists>b. drain_body api True False b0 = Done (chunks_given (ws_replies s), b)
         | Some e \<Rightarrow> (\<exists>b. drain_body api True False b0 = continues (chunks_given (ws_replies s)) (drain_body api True False b)) \<and>
             (e = ''closed'' \<and> ws_shutdown s \<or> e = ''cancelled'' \<and> ws_cancelled s \<or> drain_body api True False b0 = Fail e))
      else ws_replies s = map (\<lambda>out. Inr (Some out)) (chunks_given (ws_replies s)) \<and>
        drain_body api True False b0 = continues (chunks_given (ws_replies s)) (drain_body api True False (ws_body s)))"

lemma chunks_given_simps [simp]:
  "chunks_given (map (\<lambda>out. Inr (Some out)) outs) = outs"
  "chunks_given (rs @ rs') = chunks_given rs @ chunks_given rs'"
  "chunks_given (replicate k (final_reply err)) = []" "chunks_given [Inr (Some out)] = [out]"
  "chunks_given [final_reply err] = []" "chunks_given [] = []"
proof -
  show "chunks_given (map (\<lambda>out. Inr (Some out)) outs) = outs" by (induction outs) (simp_all add: chunks_given_def)
  show "chunks_given (replicate k (final_reply err)) = []"
    by (induction k) (simp_all add: chunks_given_def final_reply_def split: option.splits)
qed (simp_all add: chunks_given_def final_reply_def split: option.splits)

lemma continues_simps [simp]:
  "continues outs (Done (os, b)) = Done (outs @ os, b)" "continues outs (Fail e) = Fail e" "continues outs Hang = Hang"
  "continues outs (continues os m) = continues (outs @ os) m"
  by (simp_all add: continues_def) (cases m; auto)

lemma drain_unfold:
  "body_next api True False b = Done (Some out, b1) \<Longrightarrow> drain_body api True False b = continues [out] (drain_body api True False b1)"
  "body_next api True False b = Done (None, b1) \<Longrightarrow> drain_body api True False b = Done ([], b1)"
  "body_next api True False b = Fail e \<Longrightarrow> drain_body api True False b = Fail e"
  by (subst drain_body.simps; simp add: continues_def)+

lemma drain_when_empty: "body_empty b \<Longrightarrow> drain_body api True False b = Done ([], b)"
  by (rule drain_unfold) (auto simp: body_next_def body_empty_def)

lemma owner_finish_inv:
  assumes "ws_replies s = map (\<lambda>out. Inr (Some out)) outs @ replicate j (final_reply err)"
    and "drain_body api True False b0 = continues outs (drain_body api True False b)"
    and "case err of None \<Rightarrow> \<exists>b'. drain_body api True False b = Done ([], b')
      | Some e \<Rightarrow> e = ''closed'' \<and> ws_shutdown s \<or> e = ''cancelled'' \<and> ws_cancelled s \<or> drain_body api True False b = Fail e"
  shows "stream_inv api b0 (owner_finish err s)"
proof -
  have "answered_with outs (final_reply err) (ws_replies (owner_finish err s))"
    using assms(1) by (auto simp: owner_finish_def answered_with_def replicate_add [symmetric] intro: exI [of _ "j + ws_pulls s"])
  moreover have "chunks_given (ws_replies (owner_finish err s)) = outs"
    using assms(1) by (simp add: owner_finish_def)
  ultimately show ?thesis using assms(2,3)
    by (auto simp: stream_inv_def owner_finish_def split: option.splits)
qed

lemma owner_run_inv:
  assumes "stream_inv api b0 s" "\<not> ws_done s"
  shows "stream_inv api b0 (owner_run api ready s)"
proof -
  define outs where "outs = chunks_given (ws_replies s)"
  from assms have r: "ws_replies s = map (\<lambda>out. Inr (Some out)) outs"
    and d: "drain_body api True False b0 = continues outs (drain_body api True False (ws_body s))"
    and flags: "\<not> ws_finished s" "ws_permit s"
    by (simp_all add: stream_inv_def outs_def)
  show ?thesis
  proof (cases "body_empty (ws_body s)")
    case True
    with owner_finish_inv [of s outs 0 None api b0 "ws_body s"] r d drain_when_empty [OF True] show ?thesis
      by (simp add: owner_run_def)
  next
    case ne: False
    show ?thesis
    proof (cases "ws_pulls s = 0 \<or> \<not> ready")
      case True
      with ne assms show ?thesis by (simp add: owner_run_def)
    next
      case False
      show ?thesis
      proof (cases "body_next api True False (ws_body s)")
        case Hang
        with ne False assms show ?thesis by (simp add: owner_run_def)
      next
        case (Fail e)
        have "ws_replies (owner_reply (Inl e) s) = map (\<lambda>out. Inr (Some out)) outs @ replicate 1 (final_reply (Some e))"
          using r by (simp add: owner_reply_def final_reply_def)
        from owner_finish_inv [OF this d] drain_unfold(3) [OF Fail] ne False Fail show ?thesis by (simp add: owner_run_def)
      next
        case (Done y)
        obtain x b where y: "y = (x, b)" by fastforce
        show ?thesis
        proof (cases x)
          case None
          have "ws_replies (owner_reply (Inr None) (s\<lparr>ws_body := b\<rparr>)) =
              map (\<lambda>out. Inr (Some out)) outs @ replicate 1 (final_reply None)"
            using r by (simp add: owner_reply_def final_reply_def)
          from owner_finish_inv [OF this d] drain_unfold(2) [OF Done [unfolded y None]] ne False Done y None
          show ?thesis by (simp add: owner_run_def)
        next
          case (Some out)
          define s1 where "s1 = owner_reply (Inr (Some out)) (s\<lparr>ws_body := b\<rparr>)"
          have r1: "ws_replies s1 = map (\<lambda>out. Inr (Some out)) (outs @ [out])" using r by (simp add: s1_def owner_reply_def)
          have d1: "drain_body api True False b0 = continues (outs @ [out]) (drain_body api True False b)"
            using d drain_unfold(1) [OF Done [unfolded y Some]] by simp
          have "stream_inv api b0 s1"
            using r1 d1 flags assms(2) chunks_given_simps(1) [of "outs @ [out]"]
            by (simp add: stream_inv_def) (simp add: s1_def owner_reply_def)
          moreover have "stream_inv api b0 (owner_finish None s1)" if "body_empty b"
            using owner_finish_inv [of s1 "outs @ [out]" 0 None api b0 b] r1 d1 drain_when_empty [OF that] by simp
          ultimately show ?thesis using ne False Done y Some by (simp add: owner_run_def s1_def Let_def)
        qed
      qed
    qed
  qed
qed

lemma stream_inv_step: "stream_inv api b0 s \<Longrightarrow> stream_inv api b0 (stream_step api a s)"
proof (cases a)
  case NextCall
  assume inv: "stream_inv api b0 s"
  show ?thesis
  proof (cases "ws_done s")
    case True
    have "answered_with (chunks_given (ws_replies s)) (final_reply (ws_error s)) (ws_replies s @ [final_reply (ws_error s)])"
      using inv True by (auto simp: stream_inv_def answered_with_def replicate_append_same [symmetric] intro: exI [of _ "Suc _"])
    with inv True NextCall show ?thesis
      by (cases "ws_error s") (simp_all add: stream_inv_def stream_next_def)
  qed (use inv NextCall in \<open>simp add: stream_inv_def stream_next_def\<close>)
next
  case (OwnerPoll ready)
  assume inv: "stream_inv api b0 s"
  have stop: "stream_inv api b0 (owner_finish (Some e) s)"
    if "\<not> ws_done s" "e = ''closed'' \<and> ws_shutdown s \<or> e = ''cancelled'' \<and> ws_cancelled s" for e
    using owner_finish_inv [of s "chunks_given (ws_replies s)" 0 "Some e" api b0 "ws_body s"] inv that
    by (auto simp: stream_inv_def)
  show ?thesis using inv OwnerPoll stop owner_run_inv [OF inv, of ready] by (simp add: owner_poll_def)
next
  case CancelStream
  assume "stream_inv api b0 s"
  with CancelStream show ?thesis by (auto simp: stream_inv_def stream_cancel_def split: option.splits if_splits)
next
  case CloseClient
  assume "stream_inv api b0 s"
  with CloseClient show ?thesis by (auto simp: stream_inv_def split: option.splits if_splits)
qed

lemma stream_inv_new: "stream_inv api b (web_stream_new b)"
  by (simp add: stream_inv_def web_stream_new_def continues_def) (cases "drain_body api True False b"; auto)

interpretation owners: invariant_system "web_stream_new b" "stream_step api" "stream_inv api b" for api b
  by unfold_locales (auto intro: stream_inv_new stream_inv_step)

text \<open>
  C8. A streaming response never looks complete when it is not: whatever the page, the network and
  the cancellations do, the answers to \<open>next\<close> are first the pieces that draining the body gives, in
  order, and then one final answer for ever. If that is the end of the body, the pieces are the
  whole body; if it is an error, it is the body's own error, or the cancellation or the closing
  that was asked for. The request's permit is held exactly until then.
\<close>

theorem stream_answers_exact:
  assumes "s = run_steps (stream_step api) as (web_stream_new b)"
  shows "\<exists>outs k. ws_replies s = map (\<lambda>out. Inr (Some out)) outs @ replicate k (final_reply (ws_error s)) \<and>
    ws_permit s = (\<not> ws_done s) \<and>
    (if ws_done s then ws_pulls s = 0 else k = 0) \<and>
    (if ws_done s \<and> ws_error s = None then \<exists>b'. drain_body api True False b = Done (outs, b') else True) \<and>
    (\<forall>e. ws_done s \<and> ws_error s = Some e \<longrightarrow>
       e = ''closed'' \<and> ws_shutdown s \<or> e = ''cancelled'' \<and> ws_cancelled s \<or> drain_body api True False b = Fail e)"
proof -
  have inv: "stream_inv api b s" using owners.inv_run [OF owners.inv_init] assms by simp
  show ?thesis
  proof (cases "ws_done s")
    case True
    with inv obtain k where "ws_replies s = map (\<lambda>out. Inr (Some out)) (chunks_given (ws_replies s)) @ replicate k (final_reply (ws_error s))"
      by (auto simp: stream_inv_def answered_with_def)
    moreover have "\<forall>e. ws_error s = Some e \<longrightarrow>
       e = ''closed'' \<and> ws_shutdown s \<or> e = ''cancelled'' \<and> ws_cancelled s \<or> drain_body api True False b = Fail e"
      using inv True by (auto simp: stream_inv_def)
    moreover have "\<exists>b'. drain_body api True False b = Done (chunks_given (ws_replies s), b')" if "ws_error s = None"
      using inv True that by (simp add: stream_inv_def)
    ultimately show ?thesis using inv True
      by (intro exI [of _ "chunks_given (ws_replies s)"] exI [of _ k]) (auto simp: stream_inv_def)
  next
    case False
    with inv show ?thesis
      by (intro exI [of _ "chunks_given (ws_replies s)"] exI [of _ 0]) (simp add: stream_inv_def)
  qed
qed

text \<open>
  Cancelling or closing frees a streaming response: at the owner's next poll, even with an
  unread body and a page that never pulls again, the task is over, the permit is back and no pull
  is left waiting.
\<close>

theorem cancelled_stream_released:
  assumes "ws_cancelled s \<or> ws_shutdown s" "s = run_steps (stream_step api) as (web_stream_new b)"
  shows "let s' = stream_step api (OwnerPoll ready) s in
    ws_done s' \<and> ws_finished s' \<and> \<not> ws_permit s' \<and> ws_pulls s' = 0 \<and>
    length (ws_replies s') = length (ws_replies s) + ws_pulls s"
proof -
  have inv: "stream_inv api b s" using owners.inv_run [OF owners.inv_init] assms(2) by simp
  show ?thesis using assms(1) inv by (auto simp: Let_def owner_poll_def owner_finish_def stream_inv_def)
qed

definition sample_stream_body :: web_body where
  "sample_stream_body = \<lparr>wb_reader = \<lparr>br_segs = [''ab'', ''cd''], br_end = Stalled\<rparr>, wb_framing = FrLength 6,
     wb_framing_bytes = 0, wb_trailer_limit = 2\<rparr>"

lemma sample_stream_run:
  "ws_replies (run_steps (stream_step sample_web_api) [NextCall, OwnerPoll True, NextCall, CancelStream, OwnerPoll True, NextCall]
     (web_stream_new sample_stream_body)) = [Inr (Some ''ab''), Inl ''cancelled'', Inl ''cancelled'']"
  by (simp add: web_stream_new_def stream_next_def stream_cancel_def owner_poll_def owner_run_def owner_finish_def owner_reply_def
      final_reply_def sample_stream_body_def body_empty_def body_next_def next_data_def READ_BYTES_def)

theorem stream_answers_exact_witness:
  "\<exists>outs k. [Inr (Some ''ab''), Inl ''cancelled'', Inl ''cancelled''] = map (\<lambda>out. Inr (Some out)) outs @ replicate k
     (final_reply (ws_error (run_steps (stream_step sample_web_api) [NextCall, OwnerPoll True, NextCall, CancelStream, OwnerPoll True, NextCall]
       (web_stream_new sample_stream_body))))"
  using stream_answers_exact [OF refl, of sample_web_api
      "[NextCall, OwnerPoll True, NextCall, CancelStream, OwnerPoll True, NextCall]" sample_stream_body]
  unfolding sample_stream_run by blast

theorem cancelled_stream_released_witness:
  "ws_done (stream_step sample_web_api (OwnerPoll False)
     (run_steps (stream_step sample_web_api) [NextCall, CancelStream] (web_stream_new sample_stream_body)))"
  using cancelled_stream_released [of "run_steps (stream_step sample_web_api) [NextCall, CancelStream] (web_stream_new sample_stream_body)",
      OF _ refl, of False]
  by (simp add: stream_next_def stream_cancel_def web_stream_new_def Let_def)

end
