(* ===== verification/Web_Requests.thy ===== *)
theory Web_Requests
  imports Web_Client
begin

text \<open>
  The requests of the browser client, \<open>crates/locho-web/src/lib.rs\<close>: what \<open>request\<close>,
  \<open>request_stream\<close> and \<open>health\<close> check before they use the network, the exchange on an authorized
  stream, who holds which permit, and connecting; and the address handling of
  \<open>crates/locho-web/src/addressing.rs\<close>.

  The answer of the peer arrives in segments chosen by \<open>we_segment\<close>; \<open>serde_json\<close> is
  \<open>we_options\<close> and \<open>we_metadata\<close>. How opening a stream goes is an \<open>open_env\<close>, as in
  \<open>session_open_tcp\<close>.
\<close>

record web_env =
  we_crypto :: crypto_api
  we_reqc :: "stream_request_head codec"
  we_respc :: "locho_response_head codec"
  we_http :: web_api
  we_options :: "string \<Rightarrow> web_request option"
  we_metadata :: "web_response \<Rightarrow> string option"
  we_segment :: "bytes \<Rightarrow> bytes list"

record open_env =
  oe_same_tick :: bool
  oe_polls :: "(session \<times> bool) list"
  oe_open_bi :: "conn \<Rightarrow> (writer \<times> reader, unit) outcome"
  oe_close_reason :: "conn \<Rightarrow> bool"
  oe_intr :: interruption

record web_client =
  wc_peer :: peer
  wc_shutdown :: bool
  wc_requests :: nat
  wc_observers :: nat

definition WEB_LIMIT :: nat where "WEB_LIMIT = 16"
definition MAX_OPTIONS :: nat where "MAX_OPTIONS = 128 * 1024"

definition web_client_new :: "peer \<Rightarrow> web_client" where
  "web_client_new p = \<lparr>wc_peer = p, wc_shutdown = False, wc_requests = WEB_LIMIT, wc_observers = WEB_LIMIT\<rparr>"

definition observe_status :: "web_client \<Rightarrow> (string + observer) \<times> web_client" where
  "observe_status c =
     (if wc_observers c = 0 then (Inl ''resourceLimit'', c)
      else (Inr observer_new, c\<lparr>wc_observers := wc_observers c - 1\<rparr>))"

definition observer_drop :: "web_client \<Rightarrow> web_client" where
  "observer_drop c = c\<lparr>wc_observers := wc_observers c + 1\<rparr>"

definition web_close :: "web_client \<Rightarrow> web_client" where
  "web_close c = c\<lparr>wc_shutdown := True, wc_peer := (wc_peer c)\<lparr>peer_session := owner_drop (peer_session (wc_peer c))\<rparr>\<rparr>"

subsection \<open>Before the network\<close>

definition web_prepare ::
  "web_env \<Rightarrow> web_client \<Rightarrow> bool \<Rightarrow> nat option \<Rightarrow> string \<Rightarrow> string \<Rightarrow> bytes \<Rightarrow> string + web_request \<times> bytes \<times> capability" where
  "web_prepare env c cancelled idle cap_text options body =
     (if wc_shutdown c then Inl ''closed''
      else if cancelled then Inl ''cancelled''
      else if (case idle of None \<Rightarrow> False | Some ms \<Rightarrow> \<not> (1 \<le> ms \<and> ms \<le> 300000)) then Inl ''invalidTimeout''
      else if length options > MAX_OPTIONS then Inl ''requestLimit''
      else
        res_bind (ok_or ''invalidRequest'' (we_options env options)) (\<lambda>req.
        res_bind (encode (we_http env) req body) (\<lambda>bs.
        res_bind (map_err (\<lambda>_. ''invalidCapability'') (capability_parse cap_text)) (\<lambda>cap.
        Inr (req, bs, cap)))))"

subsection \<open>The exchange\<close>

text \<open>
  Opening, writing and reading, up to the outcome; the stream that was opened, if any, is still
  held.
\<close>

definition web_exchange ::
  "web_env \<Rightarrow> open_env \<Rightarrow> capability \<Rightarrow> bytes \<Rightarrow> (buf_reader \<Rightarrow> ('a, string) outcome) \<Rightarrow> peer \<Rightarrow>
   ('a, string) outcome \<times> service_stream option \<times> peer" where
  "web_exchange env oe cap bs receive p =
     (case session_open_tcp (we_crypto env) (we_reqc env) (we_respc env) cap (oe_same_tick oe) (oe_polls oe)
             (oe_open_bi oe) (oe_close_reason oe) (oe_intr oe) p of
        (Inl e, _, p) \<Rightarrow> (Fail (map_error e), None, p)
      | (Inr st, _, p) \<Rightarrow>
          (case write_all ''transport'' bs (ss_send st) of
             (res, w) \<Rightarrow>
               (out_bind res (\<lambda>_. receive \<lparr>br_segs = we_segment env (r_bytes (ss_recv st)), br_end = r_end (ss_recv st)\<rparr>),
                Some (st\<lparr>ss_send := w\<rparr>), p)))"

definition release :: "service_stream option \<Rightarrow> peer \<Rightarrow> service_stream option \<times> peer" where
  "release st p = (case st of None \<Rightarrow> (None, p) | Some st \<Rightarrow> (case peer_drop_stream st p of (st, p) \<Rightarrow> (Some st, p)))"

text \<open>
  What the biased \<open>select!\<close> around the operation sees first. An operation it drops gives back the
  permits it held and resets the stream it may have opened.
\<close>

datatype page_event = PageClosed | PageCancelled | PageWaits

definition web_buffered :: "web_env \<Rightarrow> string \<Rightarrow> buf_reader \<Rightarrow> (string \<times> bytes, string) outcome" where
  "web_buffered env meth r =
     out_bind (web_read (we_http env) meth r) (\<lambda>response.
       case we_metadata env response of None \<Rightarrow> Fail ''internal'' | Some md \<Rightarrow> Done (md, wres_body response))"

definition web_request_call ::
  "web_env \<Rightarrow> open_env \<Rightarrow> page_event \<Rightarrow> bool \<Rightarrow> string \<Rightarrow> string \<Rightarrow> bytes \<Rightarrow> web_client \<Rightarrow>
   (string + string \<times> bytes) \<times> service_stream option \<times> web_client" where
  "web_request_call env oe ev cancelled cap_text options body c =
     (case web_prepare env c cancelled None cap_text options body of
        Inl e \<Rightarrow> (Inl e, None, c)
      | Inr (req, bs, cap) \<Rightarrow>
          if wc_requests c = 0 then (Inl ''resourceLimit'', None, c)
          else (case ev of
            PageClosed \<Rightarrow> (Inl ''closed'', None, c)
          | PageCancelled \<Rightarrow> (Inl ''cancelled'', None, c)
          | PageWaits \<Rightarrow>
              (case web_exchange env oe cap bs (web_buffered env (wr_method req)) (wc_peer c) of
                 (res, st, p) \<Rightarrow>
                   (case release st p of
                      (st, p) \<Rightarrow> (with_timeout ''timeout'' res, st, c\<lparr>wc_peer := p\<rparr>)))))"

text \<open>
  \<open>request_stream\<close>: on success the permit and the stream stay with the owner task.
\<close>

definition web_request_stream ::
  "web_env \<Rightarrow> open_env \<Rightarrow> page_event \<Rightarrow> bool \<Rightarrow> nat \<Rightarrow> string \<Rightarrow> string \<Rightarrow> bytes \<Rightarrow> web_client \<Rightarrow>
   (string + string \<times> web_stream) \<times> service_stream option \<times> web_client" where
  "web_request_stream env oe ev cancelled idle cap_text options body c =
     (case web_prepare env c cancelled (Some idle) cap_text options body of
        Inl e \<Rightarrow> (Inl e, None, c)
      | Inr (req, bs, cap) \<Rightarrow>
          if wc_requests c = 0 then (Inl ''resourceLimit'', None, c)
          else (case ev of
            PageClosed \<Rightarrow> (Inl ''closed'', None, c)
          | PageCancelled \<Rightarrow> (Inl ''cancelled'', None, c)
          | PageWaits \<Rightarrow>
              (case web_exchange env oe cap bs (web_head (we_http env) (wr_method req)) (wc_peer c) of
                 (res, st, p) \<Rightarrow>
                   (case res_bind (with_timeout ''setupTimeout'' res) (\<lambda>(response, b).
                           ok_or ''internal'' (map_option (\<lambda>md. (md, web_stream_new b)) (we_metadata env response))) of
                      Inl e \<Rightarrow> (case release st p of (st, p) \<Rightarrow> (Inl e, st, c\<lparr>wc_peer := p\<rparr>))
                    | Inr x \<Rightarrow> (Inr x, st, c\<lparr>wc_peer := p, wc_requests := wc_requests c - 1\<rparr>)))))"

subsection \<open>A page and its streaming responses\<close>

text \<open>
  All streaming responses of one client: each owner task has its stream, and the end of the task
  gives the stream and the request permit back.
\<close>

record web_page =
  pg_client :: web_client
  pg_streams :: "(web_stream \<times> service_stream) list"

definition page_release :: "web_stream \<Rightarrow> web_stream \<Rightarrow> service_stream \<Rightarrow> web_client \<Rightarrow> web_client" where
  "page_release s s' st c =
     (if ws_permit s \<and> \<not> ws_permit s'
      then c\<lparr>wc_requests := wc_requests c + 1, wc_peer := snd (peer_drop_stream st (wc_peer c))\<rparr> else c)"

datatype page_action =
    PageStream open_env page_event bool nat string string bytes
  | PageRequest open_env page_event bool string string bytes
  | PageStep nat stream_action
  | PageClose

fun page_step :: "web_env \<Rightarrow> page_action \<Rightarrow> web_page \<Rightarrow> web_page" where
  "page_step env (PageStream oe ev cancelled idle cap_text options body) pg =
     (case web_request_stream env oe ev cancelled idle cap_text options body (pg_client pg) of
        (Inr (_, s), Some st, c) \<Rightarrow> \<lparr>pg_client = c, pg_streams = pg_streams pg @ [(s, st)]\<rparr>
      | (_, _, c) \<Rightarrow> pg\<lparr>pg_client := c\<rparr>)"
| "page_step env (PageRequest oe ev cancelled cap_text options body) pg =
     pg\<lparr>pg_client := snd (snd (web_request_call env oe ev cancelled cap_text options body (pg_client pg)))\<rparr>"
| "page_step env (PageStep i a) pg =
     (if i < length (pg_streams pg)
      then let (s, st) = pg_streams pg ! i; s' = stream_step (we_http env) a s
           in \<lparr>pg_client = page_release s s' st (pg_client pg), pg_streams = (pg_streams pg)[i := (s', st)]\<rparr>
      else pg)"
| "page_step env PageClose pg =
     \<lparr>pg_client = web_close (pg_client pg),
      pg_streams = map (\<lambda>(s, st). (stream_step (we_http env) CloseClient s, st)) (pg_streams pg)\<rparr>"

definition page_start :: web_page where
  "page_start = \<lparr>pg_client = web_client_new peer_start, pg_streams = []\<rparr>"

definition open_streams :: "web_page \<Rightarrow> nat" where
  "open_streams pg = length (filter (\<lambda>(s, _). ws_permit s) (pg_streams pg))"

definition page_inv :: "web_page \<Rightarrow> bool" where
  "page_inv pg \<longleftrightarrow> wc_requests (pg_client pg) + open_streams pg = WEB_LIMIT \<and>
     live_streams (wc_peer (pg_client pg)) = open_streams pg \<and>
     permits (wc_peer (pg_client pg)) + open_streams pg = STREAM_LIMIT"

subsection \<open>Lemmas: permits\<close>

lemma session_open_tcp_permits:
  assumes "session_open_tcp cr reqc respc cap tick polls bi cl intr p = (res, d, p')"
  shows "case res of Inl _ \<Rightarrow> permits p' = permits p \<and> live_streams p' = live_streams p
    | Inr _ \<Rightarrow> permits p = permits p' + 1 \<and> live_streams p' = live_streams p + 1 \<and> cap_service_type cap = Tcp"
proof (cases "acquire_for_open tick polls")
  case (Inl e)
  with assms show ?thesis by (auto simp: session_open_tcp_def split: if_splits)
next
  case (Inr l)
  show ?thesis
  proof (cases "cap_service_type cap = Tcp")
    case True
    with assms Inr have "lease_open_tcp cr reqc respc l cap (bi (lease_connection l)) (cl (lease_connection l)) intr p = (res, d, p')"
      by (simp add: session_open_tcp_def)
    then show ?thesis
      by (cases rule: lease_open_tcp_cases [of cap intr p cr reqc respc "bi (lease_connection l)" l "cl (lease_connection l)"])
        (auto split: if_splits)
  next
    case False
    with assms show ?thesis by (auto simp: session_open_tcp_def)
  qed
qed

lemma web_exchange_permits:
  assumes "web_exchange env oe cap bs receive p = (res, st, p')"
  shows "case st of None \<Rightarrow> permits p' = permits p \<and> live_streams p' = live_streams p \<and> (\<exists>e. res = Fail (map_error e))
    | Some _ \<Rightarrow> permits p = permits p' + 1 \<and> live_streams p' = live_streams p + 1 \<and> cap_service_type cap = Tcp"
proof -
  obtain ro d p1 where o: "session_open_tcp (we_crypto env) (we_reqc env) (we_respc env) cap (oe_same_tick oe) (oe_polls oe)
      (oe_open_bi oe) (oe_close_reason oe) (oe_intr oe) p = (ro, d, p1)" by (metis prod_cases3)
  from session_open_tcp_permits [OF o] assms o show ?thesis
    by (cases ro) (auto simp: web_exchange_def split: prod.splits)
qed

lemma release_permits:
  assumes "release st p = (st', p')"
  shows "permits p' = permits p + (if st = None then 0 else 1)" "live_streams p' = live_streams p - (if st = None then 0 else 1)"
    "peer_session p' = peer_session p" "st' = map_option stream_drop st"
  using assms by (auto simp: release_def peer_drop_stream_def split: option.splits)

text \<open>A call that does not leave a stream behind leaves the permits as they were.\<close>

lemma exchange_release_permits:
  assumes "web_exchange env oe cap bs receive p = (res, st, p1)" "release st p1 = (st', p2)"
  shows "permits p2 = permits p" "live_streams p2 = live_streams p"
  using web_exchange_permits [OF assms(1)] release_permits [OF assms(2)] by (cases st; simp)+

lemma web_request_call_permits:
  assumes "web_request_call env oe ev cancelled cap_text options body c = (res, st, c')"
  shows "wc_requests c' = wc_requests c \<and> permits (wc_peer c') = permits (wc_peer c) \<and>
    live_streams (wc_peer c') = live_streams (wc_peer c)"
proof (cases "c' = c")
  case False
  with assms obtain req :: web_request and bs cap xr xs xp where
    x: "web_exchange env oe cap bs (web_buffered env (wr_method req)) (wc_peer c) = (xr, xs, xp)"
    and c': "c' = c\<lparr>wc_peer := snd (release xs xp)\<rparr>"
    by (auto simp: web_request_call_def split: sum.split_asm if_split_asm page_event.split_asm prod.split_asm)
  obtain st' p' where r: "release xs xp = (st', p')" by fastforce
  from exchange_release_permits [OF x r] c' r show ?thesis by simp
qed simp

lemma web_request_stream_permits:
  assumes "web_request_stream env oe ev cancelled idle cap_text options body c = (res, st, c')"
  shows "case res of
      Inl _ \<Rightarrow> wc_requests c' = wc_requests c \<and> permits (wc_peer c') = permits (wc_peer c) \<and>
        live_streams (wc_peer c') = live_streams (wc_peer c)
    | Inr (_, s) \<Rightarrow> wc_requests c = wc_requests c' + 1 \<and> permits (wc_peer c) = permits (wc_peer c') + 1 \<and>
        live_streams (wc_peer c') = live_streams (wc_peer c) + 1 \<and> st \<noteq> None \<and> (\<exists>b. s = web_stream_new b)"
proof (cases "web_prepare env c cancelled (Some idle) cap_text options body")
  case (Inl e)
  with assms show ?thesis by (auto simp: web_request_stream_def)
next
  case (Inr y)
  obtain req bs cap where y: "y = (req, bs, cap)" by (cases y)
  show ?thesis
  proof (cases "wc_requests c = 0 \<or> ev \<noteq> PageWaits")
    case True
    with assms Inr y show ?thesis by (cases ev) (auto simp: web_request_stream_def split: if_splits)
  next
    case False
    obtain xr xs xp where x: "web_exchange env oe cap bs (web_head (we_http env) (wr_method req)) (wc_peer c) = (xr, xs, xp)"
      by (metis prod_cases3)
    obtain st' p' where r: "release xs xp = (st', p')" by fastforce
    define result where "result = res_bind (with_timeout ''setupTimeout'' xr) (\<lambda>(response, b).
        ok_or ''internal'' (map_option (\<lambda>md. (md, web_stream_new b)) (we_metadata env response)))"
    have eq: "(res, st, c') = (case result of Inl e \<Rightarrow> (Inl e, st', c\<lparr>wc_peer := p'\<rparr>)
        | Inr x \<Rightarrow> (Inr x, xs, c\<lparr>wc_peer := xp, wc_requests := wc_requests c - 1\<rparr>))"
      using assms Inr y False x r unfolding web_request_stream_def
      by (cases result) (auto simp: result_def [symmetric])
    show ?thesis
    proof (cases result)
      case (Inl e)
      with eq exchange_release_permits [OF x r] show ?thesis by simp
    next
      case (Inr z)
      then obtain response b md where z: "xr = Done (response, b)" "z = (md, web_stream_new b)"
        by (cases xr) (auto simp: result_def res_bind_Inr_iff ok_or_Inr_iff)
      with web_exchange_permits [OF x] have "xs \<noteq> None" by (cases xs) auto
      with web_exchange_permits [OF x] eq Inr z False show ?thesis by auto
    qed
  qed
qed

lemma stream_permit_mono: "ws_permit (stream_step api a s) \<Longrightarrow> ws_permit s"
proof (cases a)
  case (OwnerPoll ready)
  assume "ws_permit (stream_step api a s)"
  with OwnerPoll have "ws_permit s \<or> ws_permit (owner_run api ready s)"
    by (auto simp: owner_poll_def owner_finish_def split: if_splits)
  moreover have "ws_permit (owner_run api ready s) \<Longrightarrow> ws_permit s"
    by (auto simp: owner_run_def owner_finish_def owner_reply_def Let_def split: if_splits outcome.splits option.splits prod.splits)
  ultimately show ?thesis by blast
qed (auto simp: stream_next_def stream_cancel_def split: if_splits)

lemma filter_update_length:
  "i < length xs \<Longrightarrow> length (filter P (xs[i := y])) + (if P (xs ! i) then 1 else 0) = length (filter P xs) + (if P y then 1 else 0)"
proof (induction xs arbitrary: i)
  case (Cons x xs)
  then show ?case using Cons.IH [of "i - 1"] by (cases i) auto
qed simp

lemma page_inv_step: "page_inv pg \<Longrightarrow> page_inv (page_step env a pg)"
proof (cases a)
  case (PageStream oe ev cancelled idle cap_text options body)
  assume inv: "page_inv pg"
  obtain res st c' where w: "web_request_stream env oe ev cancelled idle cap_text options body (pg_client pg) = (res, st, c')"
    by (metis prod_cases3)
  show ?thesis
  proof (cases res)
    case (Inl e)
    with web_request_stream_permits [OF w] w inv PageStream show ?thesis
      by (simp add: page_inv_def open_streams_def)
  next
    case (Inr x)
    with web_request_stream_permits [OF w] w inv PageStream show ?thesis
      by (cases x) (auto simp: page_inv_def open_streams_def web_stream_new_def)
  qed
next
  case (PageRequest oe ev cancelled cap_text options body)
  assume inv: "page_inv pg"
  obtain res st c' where w: "web_request_call env oe ev cancelled cap_text options body (pg_client pg) = (res, st, c')"
    by (metis prod_cases3)
  with web_request_call_permits [OF w] inv PageRequest show ?thesis by (simp add: page_inv_def open_streams_def)
next
  case (PageStep i b)
  assume inv: "page_inv pg"
  show ?thesis
  proof (cases "i < length (pg_streams pg)")
    case True
    obtain s st where s: "pg_streams pg ! i = (s, st)" by fastforce
    define s' where "s' = stream_step (we_http env) b s"
    have pg': "page_step env a pg = \<lparr>pg_client = page_release s s' st (pg_client pg), pg_streams = (pg_streams pg)[i := (s', st)]\<rparr>"
      using True s PageStep by (simp add: s'_def Let_def)
    have count: "open_streams (page_step env a pg) + (if ws_permit s then 1 else 0) = open_streams pg + (if ws_permit s' then 1 else 0)"
      using filter_update_length [OF True, of "\<lambda>(s, _). ws_permit s" "(s', st)"] s pg' by (simp add: open_streams_def)
    show ?thesis
      using count inv pg' stream_permit_mono [of "we_http env" b s]
      by (auto simp: page_inv_def page_release_def peer_drop_stream_def s'_def split: if_splits)
  next
    case False
    with inv PageStep show ?thesis by simp
  qed
next
  case PageClose
  assume inv: "page_inv pg"
  have "filter (\<lambda>(s, _). ws_permit s) (map (\<lambda>(s, st). (stream_step (we_http env) CloseClient s, st)) xs) =
      map (\<lambda>(s, st). (stream_step (we_http env) CloseClient s, st)) (filter (\<lambda>(s, _). ws_permit s) xs)" for xs :: "(web_stream \<times> service_stream) list"
    by (induction xs) auto
  with inv PageClose show ?thesis by (simp add: page_inv_def open_streams_def web_close_def)
qed

lemma page_inv_start: "page_inv page_start"
  by (simp add: page_inv_def page_start_def open_streams_def web_client_new_def peer_start_def)

interpretation pages: invariant_system page_start "page_step env" page_inv for env
  by unfold_locales (auto intro: page_inv_start page_inv_step)

subsection \<open>What a request does\<close>

lemma web_prepare_Inr:
  "web_prepare env c cancelled idle cap_text options body = Inr (req, bs, cap) \<Longrightarrow>
   \<not> wc_shutdown c \<and> \<not> cancelled \<and> length options \<le> MAX_OPTIONS \<and> we_options env options = Some req \<and>
   encode (we_http env) req body = Inr bs \<and> capability_parse cap_text = Inr cap"
  unfolding web_prepare_def by (auto simp: guard_Inr res_bind_Inr_iff ok_or_Inr_iff map_err_Inr_iff not_less split: if_split_asm)

lemma write_all_take: "write_all e bs w = (res, w') \<Longrightarrow> \<exists>k. w_sent w' = w_sent w @ take k bs \<and> (res = Done () \<longrightarrow> k = length bs)"
  by (auto simp: write_all_def split: option.splits if_splits) blast+

lemma web_exchange_stream:
  assumes "web_exchange env oe cap bs receive p = (res, Some st, p')"
  obtains st0 d k where "session_open_tcp (we_crypto env) (we_reqc env) (we_respc env) cap (oe_same_tick oe) (oe_polls oe)
      (oe_open_bi oe) (oe_close_reason oe) (oe_intr oe) p = (Inr st0, d, p')"
    "w_sent (ss_send st) = w_sent (ss_send st0) @ take k bs" "\<And>x. res = Done x \<Longrightarrow> k = length bs"
    "res = out_bind (fst (write_all ''transport'' bs (ss_send st0))) (\<lambda>_. receive
       \<lparr>br_segs = we_segment env (r_bytes (ss_recv st0)), br_end = r_end (ss_recv st0)\<rparr>)"
proof -
  obtain ro d p1 where o: "session_open_tcp (we_crypto env) (we_reqc env) (we_respc env) cap (oe_same_tick oe) (oe_polls oe)
      (oe_open_bi oe) (oe_close_reason oe) (oe_intr oe) p = (ro, d, p1)" by (metis prod_cases3)
  with assms obtain st0 where ro: "ro = Inr st0" by (cases ro) (auto simp: web_exchange_def)
  obtain wr w where w: "write_all ''transport'' bs (ss_send st0) = (wr, w)" by fastforce
  from write_all_take [OF w] obtain k where k: "w_sent w = w_sent (ss_send st0) @ take k bs" "wr = Done () \<longrightarrow> k = length bs" by blast
  show thesis
    using that [of st0 d k] assms o ro w k by (cases wr) (auto simp: web_exchange_def)
qed

text \<open>
  A buffered request of a page is contained: whatever happens, the permits of the client and
  of the session are the same afterwards. A stream is opened only for an open client, an
  uncancelled call, options that parse, a request that encodes and a valid TCP capability; what
  is sent on it after the handshake is a prefix of that encoding, all of it if the call succeeds;
  it is dropped at the end; and a response handed to the page has at most 8 MiB.
\<close>

theorem web_request_contained:
  assumes "web_request_call env oe ev cancelled cap_text options body c = (res, st, c')"
  shows "wc_requests c' = wc_requests c \<and> permits (wc_peer c') = permits (wc_peer c) \<and>
    live_streams (wc_peer c') = live_streams (wc_peer c) \<and>
    (case st of
       None \<Rightarrow> \<exists>e. res = Inl e
     | Some stream \<Rightarrow> \<not> wc_shutdown c \<and> \<not> cancelled \<and> recv_stopped stream \<and>
         (\<exists>req bs cap st0 d p' k. we_options env options = Some req \<and> encode (we_http env) req body = Inr bs \<and>
            capability_parse cap_text = Inr cap \<and> cap_service_type cap = Tcp \<and>
            session_open_tcp (we_crypto env) (we_reqc env) (we_respc env) cap (oe_same_tick oe) (oe_polls oe)
              (oe_open_bi oe) (oe_close_reason oe) (oe_intr oe) (wc_peer c) = (Inr st0, d, p') \<and>
            w_sent (ss_send stream) = w_sent (ss_send st0) @ take k bs \<and>
            (case res of Inl _ \<Rightarrow> True | Inr (_, data) \<Rightarrow> k = length bs \<and> length data \<le> MAX_BODY)))"
proof -
  note same = web_request_call_permits [OF assms]
  show ?thesis
  proof (cases "\<exists>y. web_prepare env c cancelled None cap_text options body = Inr y \<and> 0 < wc_requests c \<and> ev = PageWaits")
    case False
    then have "st = None" "\<exists>e. res = Inl e"
      using assms by (auto simp: web_request_call_def split: sum.split_asm if_split_asm page_event.split_asm prod.split_asm)
    with same show ?thesis by simp
  next
    case True
    then obtain req bs cap where y: "web_prepare env c cancelled None cap_text options body = Inr (req, bs, cap)"
      and go: "0 < wc_requests c" "ev = PageWaits" by (metis prod_cases3)
    obtain xr xs xp where x: "web_exchange env oe cap bs (web_buffered env (wr_method req)) (wc_peer c) = (xr, xs, xp)"
      by (metis prod_cases3)
    have res: "res = with_timeout ''timeout'' xr" and st: "st = map_option stream_drop xs"
      using assms y go x by (auto simp: web_request_call_def release_def peer_drop_stream_def split: option.splits)
    show ?thesis
    proof (cases xs)
      case None
      with web_exchange_permits [OF x] have "\<exists>e. xr = Fail (map_error e)" by simp
      with res st same None show ?thesis by auto
    next
      case (Some stream)
      note p = web_prepare_Inr [OF y]
      obtain st0 d k where o: "session_open_tcp (we_crypto env) (we_reqc env) (we_respc env) cap (oe_same_tick oe) (oe_polls oe)
          (oe_open_bi oe) (oe_close_reason oe) (oe_intr oe) (wc_peer c) = (Inr st0, d, xp)"
        "w_sent (ss_send stream) = w_sent (ss_send st0) @ take k bs" "\<And>z. xr = Done z \<Longrightarrow> k = length bs"
        "xr = out_bind (fst (write_all ''transport'' bs (ss_send st0))) (\<lambda>_. web_buffered env (wr_method req)
          \<lparr>br_segs = we_segment env (r_bytes (ss_recv st0)), br_end = r_end (ss_recv st0)\<rparr>)"
        using web_exchange_stream [OF x [unfolded Some]] by metis
      have tcp: "cap_service_type cap = Tcp" using web_exchange_permits [OF x] Some by simp
      have big: "case res of Inl _ \<Rightarrow> True | Inr (_, data) \<Rightarrow> k = length bs \<and> length data \<le> MAX_BODY"
      proof (cases xr)
        case (Done z)
        from Done o(4) obtain resp r where "web_read (we_http env) (wr_method req) r = Done resp" "snd z = wres_body resp"
          by (auto simp: out_bind_Done_iff web_buffered_def split: option.split_asm)
        with web_read_limits res Done o(3) show ?thesis by (auto split: prod.splits)
      qed (use res in simp_all)
      have dropped: "recv_stopped (stream_drop stream)" "ss_send (stream_drop stream) = ss_send stream"
        by (simp_all add: stream_drop_def Let_def)
      show ?thesis using same st Some p o(1,2) tcp big dropped by auto
    qed
  qed
qed

text \<open>
  A page cannot exceed its limits: in every state that its requests, its streaming responses,
  their cancellations and the closing of the client can reach, at most 16 streaming responses are
  open, each holds exactly one of the 16 request permits and one of the 512 stream permits, all
  other permits are free, and with 16 open every further valid request is refused.
\<close>

theorem page_streams_bounded:
  assumes "reach page_start (page_step env) pg"
  shows "open_streams pg \<le> 16 \<and> wc_requests (pg_client pg) = 16 - open_streams pg \<and>
    permits (wc_peer (pg_client pg)) = 512 - open_streams pg \<and> live_streams (wc_peer (pg_client pg)) = open_streams pg \<and>
    (if open_streams pg = 16 \<and> \<not> isl (web_prepare env (pg_client pg) cancelled (Some idle) cap_text options body)
     then fst (web_request_stream env oe ev cancelled idle cap_text options body (pg_client pg)) = Inl ''resourceLimit''
     else True)"
proof -
  from pages.reach_inv [OF assms] have inv: "page_inv pg" .
  then have "fst (web_request_stream env oe ev cancelled idle cap_text options body (pg_client pg)) = Inl ''resourceLimit''"
    if "open_streams pg = 16" "\<not> isl (web_prepare env (pg_client pg) cancelled (Some idle) cap_text options body)"
    using that by (auto simp: page_inv_def WEB_LIMIT_def web_request_stream_def split: sum.splits)
  with inv show ?thesis by (auto simp: page_inv_def WEB_LIMIT_def STREAM_LIMIT_def)
qed

subsection \<open>Health\<close>

definition MAX_HEALTH_RESPONSE :: nat where "MAX_HEALTH_RESPONSE = 8 * 1024 * 1024"
definition MAX_HEALTH_HEADERS :: nat where "MAX_HEALTH_HEADERS = 64 * 1024"

text \<open>\<open>str::parse\<close> for unsigned integers (a plus sign is accepted), \<open>windows(..).position(..)\<close>, \<open>split(CRLF)\<close>.\<close>

definition parse_uint :: "nat \<Rightarrow> string \<Rightarrow> nat option" where
  "parse_uint bound s =
     (let ds = (case s of [] \<Rightarrow> [] | c # cs \<Rightarrow> if c = CHR ''+'' then cs else s)
      in if ds = [] \<or> \<not> list_all is_ascii_digit ds then None else parse_usize bound 10 ds)"

fun window_position :: "bytes \<Rightarrow> bytes \<Rightarrow> nat option" where
  "window_position pat [] = (if pat = [] then Some 0 else None)"
| "window_position pat (c # cs) =
     (if starts_with pat (c # cs) then Some 0 else map_option Suc (window_position pat cs))"

fun split_crlf :: "bytes \<Rightarrow> bytes list" where
  "split_crlf [] = [[]]"
| "split_crlf (c # cs) =
     (case cs of
        d # ds \<Rightarrow> if c = CR \<and> d = LF then [] # split_crlf ds
                   else (case split_crlf cs of [] \<Rightarrow> [[c]] | l # ls \<Rightarrow> (c # l) # ls)
      | [] \<Rightarrow> [[c]])"

definition status_line_ok :: "bytes \<Rightarrow> bool" where
  "status_line_ok l =
     (case split_on CHR '' '' l of
        proto # st # _ \<Rightarrow> proto = ''HTTP/1.1'' \<and>
          (case parse_uint (2 ^ 16 - 1) st of None \<Rightarrow> False | Some n \<Rightarrow> 100 \<le> n \<and> n \<le> 599)
      | _ \<Rightarrow> False)"

definition health_field :: "nat \<Rightarrow> bytes \<Rightarrow> nat option \<Rightarrow> string + nat option" where
  "health_field usize_bound l content_length =
     (case split_once CHR '':'' l of
        None \<Rightarrow> Inl ''invalidResponse''
      | Some (name, v) \<Rightarrow>
          if name = [] \<or> CR \<in> set v \<or> LF \<in> set v then Inl ''invalidResponse''
          else if eq_ignore_ascii_case name ''transfer-encoding'' then Inl ''unsupportedFraming''
          else if eq_ignore_ascii_case name ''content-length''
          then (case parse_uint usize_bound (trim v) of
                  None \<Rightarrow> Inl ''invalidResponse''
                | Some n \<Rightarrow> if content_length \<noteq> None \<and> content_length \<noteq> Some n then Inl ''invalidResponse'' else Inr (Some n))
          else Inr content_length)"

fun health_fields :: "nat \<Rightarrow> bytes list \<Rightarrow> nat option \<Rightarrow> string + nat option" where
  "health_fields usize_bound [] content_length = Inr content_length"
| "health_fields usize_bound (l # ls) content_length =
     res_bind (health_field usize_bound l content_length) (health_fields usize_bound ls)"

definition validate_health_response :: "nat \<Rightarrow> bytes \<Rightarrow> string + unit" where
  "validate_health_response usize_bound response =
     (case window_position (CRLF @ CRLF) response of
        None \<Rightarrow> Inl ''invalidResponse''
      | Some sep \<Rightarrow>
          if sep > MAX_HEALTH_HEADERS then Inl ''responseLimit''
          else if \<not> utf8_valid (take sep response) then Inl ''invalidResponse''
          else
            (case split_crlf (take sep response) of
               [] \<Rightarrow> Inl ''invalidResponse''
             | l # ls \<Rightarrow>
                 if \<not> status_line_ok l then Inl ''invalidResponse''
                 else res_bind (health_fields usize_bound ls None) (\<lambda>n.
                   if n \<noteq> None \<and> n \<noteq> Some (length (drop (sep + 4) response)) then Inl ''truncatedResponse'' else Inr ())))"

text \<open>The reading loop of \<open>health\<close> over the segments, and the whole call.\<close>

fun health_loop :: "bytes \<Rightarrow> bytes list \<Rightarrow> stream_end \<Rightarrow> (bytes, string) outcome" where
  "health_loop response [] fin = (case fin of Eof \<Rightarrow> Done response | Broken \<Rightarrow> Fail ''transport'' | Stalled \<Rightarrow> Hang)"
| "health_loop response (s # ss) fin =
     (if s = [] then health_loop response ss fin
      else if length response + length s > MAX_HEALTH_RESPONSE then Fail ''responseLimit''
      else health_loop (response @ s) ss fin)"

definition health_receive :: "web_env \<Rightarrow> buf_reader \<Rightarrow> (bytes, string) outcome" where
  "health_receive env r =
     out_bind (health_loop [] (br_segs r) (br_end r)) (\<lambda>response.
       case validate_health_response (usize_max (we_http env)) response of
         Inl e \<Rightarrow> Fail e
       | Inr _ \<Rightarrow> if utf8_valid response then Done response else Fail ''invalidResponse'')"

definition health_request :: "string \<Rightarrow> bytes" where
  "health_request authority = ''GET /health HTTP/1.1'' @ CRLF @ ''Host: '' @ authority @ CRLF @ ''Connection: close'' @ CRLF @ CRLF"

definition web_health ::
  "web_env \<Rightarrow> open_env \<Rightarrow> page_event \<Rightarrow> bool \<Rightarrow> string \<Rightarrow> string \<Rightarrow> web_client \<Rightarrow> (string + bytes) \<times> service_stream option \<times> web_client" where
  "web_health env oe ev cancelled cap_text authority c =
     (if wc_shutdown c then (Inl ''closed'', None, c)
      else if cancelled then (Inl ''cancelled'', None, c)
      else if authority_parse (we_http env) authority = None \<or> CR \<in> set authority \<or> LF \<in> set authority
      then (Inl ''invalidAuthority'', None, c)
      else
        (case capability_parse cap_text of
           Inl _ \<Rightarrow> (Inl ''invalidCapability'', None, c)
         | Inr cap \<Rightarrow>
             (case ev of
                PageClosed \<Rightarrow> (Inl ''closed'', None, c)
              | PageCancelled \<Rightarrow> (Inl ''cancelled'', None, c)
              | PageWaits \<Rightarrow>
                  (case web_exchange env oe cap (health_request authority) (health_receive env) (wc_peer c) of
                     (res, st, p) \<Rightarrow>
                       (case release st p of (st, p) \<Rightarrow> (with_timeout ''timeout'' res, st, c\<lparr>wc_peer := p\<rparr>))))))"

lemma window_position_Some:
  "window_position pat s = Some i \<Longrightarrow> i \<le> length s \<and> (\<exists>t. s = take i s @ pat @ t) \<and> (\<forall>j<i. \<not> starts_with pat (drop j s))"
proof (induction s arbitrary: i)
  case Nil
  then show ?case by (auto split: if_splits)
next
  case (Cons c cs)
  show ?case
  proof (cases "starts_with pat (c # cs)")
    case True
    with Cons.prems show ?thesis by (auto simp: starts_with_iff)
  next
    case False
    with Cons.prems obtain k where k: "window_position pat cs = Some k" "i = Suc k" by auto
    have "\<not> starts_with pat (drop j (c # cs))" if "j < i" for j
      using False Cons.IH [OF k(1)] k(2) that by (cases j) auto
    with Cons.IH [OF k(1)] k(2) show ?thesis by auto
  qed
qed

definition health_field_ok :: "nat \<Rightarrow> nat option \<Rightarrow> bytes \<Rightarrow> bool" where
  "health_field_ok usize_bound n l \<longleftrightarrow>
     (case split_once CHR '':'' l of
        None \<Rightarrow> False
      | Some (name, v) \<Rightarrow> name \<noteq> [] \<and> \<not> eq_ignore_ascii_case name ''transfer-encoding'' \<and>
          (if eq_ignore_ascii_case name ''content-length'' then n \<noteq> None \<and> parse_uint usize_bound (trim v) = n else True))"

lemma health_field_Inr:
  "health_field m l n0 = Inr n \<Longrightarrow> health_field_ok m n l \<and> (n0 \<noteq> None \<longrightarrow> n = n0)"
  unfolding health_field_def health_field_ok_def by (auto split: option.split_asm prod.split_asm if_split_asm) metis+

lemma health_field_ok_mono: "health_field_ok m n l \<Longrightarrow> n \<noteq> None \<longrightarrow> n' = n \<Longrightarrow> health_field_ok m n' l"
  unfolding health_field_ok_def by (auto split: option.split_asm prod.split_asm if_split_asm)

lemma health_fields_Inr:
  "health_fields m ls n0 = Inr n \<Longrightarrow> list_all (health_field_ok m n) ls \<and> (n0 \<noteq> None \<longrightarrow> n = n0)"
proof (induction ls arbitrary: n0)
  case Nil
  then show ?case by simp
next
  case (Cons l ls)
  then obtain n1 where n1: "health_field m l n0 = Inr n1" "health_fields m ls n1 = Inr n" by (auto simp: res_bind_Inr_iff)
  from Cons.IH [OF n1(2)] health_field_Inr [OF n1(1)] health_field_ok_mono [of m n1 l n] show ?case by auto
qed

text \<open>
  A health response that is accepted is complete: it splits at its first empty line into a
  head of at most 64 KiB and a body, the head has a status line with a status of 100 to 599 and
  only fields with a name, none of them a transfer encoding, and every content length among them
  is the length of the body.
\<close>

theorem health_response_complete:
  assumes "validate_health_response m response = Inr ()"
  shows "\<exists>head body l ls. response = head @ CRLF @ CRLF @ body \<and> length head \<le> MAX_HEALTH_HEADERS \<and>
    (\<forall>j<length head. \<not> starts_with (CRLF @ CRLF) (drop j response)) \<and>
    split_crlf head = l # ls \<and> status_line_ok l \<and>
    (\<exists>n. list_all (health_field_ok m n) ls \<and> (n = None \<or> n = Some (length body)))"
proof -
  from assms obtain sep where sep: "window_position (CRLF @ CRLF) response = Some sep"
    by (auto simp: validate_health_response_def split: option.splits)
  define head body where "head = take sep response" and "body = drop (sep + 4) response"
  from assms sep obtain l ls n where l: "sep \<le> MAX_HEALTH_HEADERS" "split_crlf head = l # ls" "status_line_ok l"
    "health_fields m ls None = Inr n" "n = None \<or> n = Some (length body)"
    by (auto simp: validate_health_response_def head_def body_def res_bind_Inr_iff split: if_split_asm list.split_asm)
  from window_position_Some [OF sep] obtain t where t: "sep \<le> length response" "response = take sep response @ (CRLF @ CRLF) @ t"
    "\<forall>j < sep. \<not> starts_with (CRLF @ CRLF) (drop j response)" by blast
  from t(2) have "drop sep response = (CRLF @ CRLF) @ t" by (metis append_take_drop_id same_append_eq)
  then have "t = drop 4 (drop sep response)" by simp
  then have "t = body" by (simp add: body_def add.commute)
  with t l health_fields_Inr [OF l(4)] show ?thesis
    by (intro exI [of _ head] exI [of _ body] exI [of _ l] exI [of _ ls]) (auto simp: head_def min_absorb2)
qed

subsection \<open>Samples\<close>

definition sample_get :: web_request where
  "sample_get = \<lparr>wr_method = ''GET'', wr_path = ''/'', wr_authority = ''h'', wr_headers = [], wr_timeout_ms = 5\<rparr>"

definition sample_cap_text :: string where
  "sample_cap_text = capability_format ''db'' Tcp ''k''"

definition sample_web_env :: web_env where
  "sample_web_env = \<lparr>we_crypto = sample_crypto, we_reqc = sample_head_codec (tcp_head_of sample_crypto sample_cap),
     we_respc = sample_head_codec tcp_accept_head, we_http = sample_web_api, we_options = (\<lambda>_. Some sample_get),
     we_metadata = (\<lambda>_. Some ''{}''),
     we_segment = (\<lambda>bs. [take (length (head_wire sized_lines)) bs, drop (length (head_wire sized_lines)) bs])\<rparr>"

definition sample_open_env :: open_env where
  "sample_open_env = \<lparr>oe_same_tick = True, oe_polls = [(session_start\<lparr>connections := Some (1, 7)\<rparr>, False)],
     oe_open_bi = (\<lambda>_. Done (\<lparr>w_sent = [], w_limit = None\<rparr>, \<lparr>r_bytes = json_frame ''{}'' @ head_wire sized_lines @ ''data'', r_end = Eof\<rparr>)),
     oe_close_reason = (\<lambda>_. False), oe_intr = Uninterrupted\<rparr>"

lemma sample_authorized:
  "authorize_tcp sample_crypto (sample_head_codec (tcp_head_of sample_crypto sample_cap))
       (sample_head_codec tcp_accept_head) sample_cap
       \<lparr>w_sent = [], w_limit = None\<rparr> \<lparr>r_bytes = json_frame ''{}'' @ app, r_end = Eof\<rparr> =
     (Done \<lparr>r_bytes = app, r_end = Eof\<rparr>, \<lparr>w_sent = json_frame ''{}'', w_limit = None\<rparr>)"
  using read_json_frame [where c = "sample_head_codec tcp_accept_head" and json = "''{}''"
      and v = tcp_accept_head and max_len = MAX_HEAD_LEN
      and r = "\<lparr>r_bytes = [], r_end = Eof\<rparr>" and bs = app]
  by (simp add: authorize_tcp_def sample_head_codec_def write_json_head_open MAX_HEAD_LEN_def
      check_tcp_response_def tcp_accept_head_def)

lemma sample_opens:
  "session_open_tcp (we_crypto sample_web_env) (we_reqc sample_web_env) (we_respc sample_web_env) sample_cap
     (oe_same_tick sample_open_env) (oe_polls sample_open_env) (oe_open_bi sample_open_env) (oe_close_reason sample_open_env)
     (oe_intr sample_open_env) peer_start =
   (Inr (service_stream_new \<lparr>w_sent = json_frame ''{}'', w_limit = None\<rparr> \<lparr>r_bytes = head_wire sized_lines @ ''data'', r_end = Eof\<rparr>),
    None, peer_start\<lparr>permits := 511, live_streams := 1\<rparr>)"
  using sample_authorized [of "head_wire sized_lines @ ''data''"]
  by (simp add: session_open_tcp_def lease_open_tcp_def open_operation_def sample_web_env_def sample_open_env_def
      sample_cap_def session_start_def peer_start_def STREAM_LIMIT_def)

lemma sample_prepared:
  "\<exists>bs. encode sample_web_api sample_get [] = Inr bs \<and>
     web_prepare sample_web_env (web_client_new peer_start) False idle_none sample_cap_text [] [] =
       (if (case idle_none of None \<Rightarrow> False | Some ms \<Rightarrow> \<not> (1 \<le> ms \<and> ms \<le> 300000)) then Inl ''invalidTimeout'' else Inr (sample_get, bs, sample_cap))"
proof -
  have "\<not> isl (encode sample_web_api sample_get [])"
    by (simp add: encode_def sample_get_def MAX_REQUEST_def MAX_FIELDS_def MAX_HEAD_def path_ok_def authority_ok_def
        starts_with_def ends_with_def strip_suffix_def decimal.simps digit_char_def sample_web_api_def CRLF_def web_text_defs)
  then obtain bs where bs: "encode sample_web_api sample_get [] = Inr bs" by (cases "encode sample_web_api sample_get []") auto
  have "capability_parse sample_cap_text = Inr sample_cap" by code_simp
  with bs show ?thesis
    by (intro exI [of _ bs]) (simp add: web_prepare_def web_client_new_def sample_web_env_def MAX_OPTIONS_def)
qed

lemma sample_exchange:
  "\<exists>w. web_exchange sample_web_env sample_open_env sample_cap bs (web_buffered sample_web_env ''GET'') peer_start =
    (Done (''{}'', ''data''),
     Some (service_stream_new w \<lparr>r_bytes = head_wire sized_lines @ ''data'', r_end = Eof\<rparr>), peer_start\<lparr>permits := 511, live_streams := 1\<rparr>)"
  unfolding web_exchange_def sample_opens
  using sample_read by (simp add: service_stream_new_def write_all_def web_buffered_def sample_web_env_def)

theorem web_request_contained_witness:
  "\<exists>st c'. web_request_call sample_web_env sample_open_env PageWaits False sample_cap_text [] [] (web_client_new peer_start) =
      (Inr (''{}'', ''data''), Some st, c') \<and> recv_stopped st \<and> permits (wc_peer c') = 512"
proof -
  obtain bs where bs: "web_prepare sample_web_env (web_client_new peer_start) False None sample_cap_text [] [] = Inr (sample_get, bs, sample_cap)"
    using sample_prepared [of None] by auto
  obtain w where w: "web_exchange sample_web_env sample_open_env sample_cap bs (web_buffered sample_web_env ''GET'') peer_start =
    (Done (''{}'', ''data''),
     Some (service_stream_new w \<lparr>r_bytes = head_wire sized_lines @ ''data'', r_end = Eof\<rparr>), peer_start\<lparr>permits := 511, live_streams := 1\<rparr>)"
    using sample_exchange by blast
  obtain st c' where r: "web_request_call sample_web_env sample_open_env PageWaits False sample_cap_text [] [] (web_client_new peer_start) =
      (Inr (''{}'', ''data''), Some st, c')"
    using bs w by (simp add: web_request_call_def web_client_new_def WEB_LIMIT_def sample_get_def release_def peer_drop_stream_def)
  from web_request_contained [OF r] r show ?thesis by (auto simp: web_client_new_def peer_start_def STREAM_LIMIT_def)
qed

theorem page_streams_bounded_witness: "open_streams page_start \<le> 16 \<and> permits (wc_peer (pg_client page_start)) = 512"
  using page_streams_bounded [OF reach_init [of page_start "page_step sample_web_env"]]
  by (simp add: open_streams_def page_start_def)

definition sample_health :: bytes where
  "sample_health = ''HTTP/1.1 200 OK'' @ CRLF @ ''Content-Length: 2'' @ CRLF @ CRLF @ ''ok''"

theorem health_response_complete_witness:
  "validate_health_response 65535 sample_health = Inr () \<and> (\<exists>head body. sample_health = head @ CRLF @ CRLF @ body)"
proof -
  have "to_ascii_lowercase ''Content-Length'' = ''content-length''" "to_ascii_lowercase ''content-length'' = ''content-length''"
    "to_ascii_lowercase ''transfer-encoding'' = ''transfer-encoding''" by code_simp+
  then have eq: "validate_health_response 65535 sample_health = Inr ()"
    by (simp add: validate_health_response_def sample_health_def CRLF_def CR_def LF_def starts_with_def MAX_HEALTH_HEADERS_def
        utf8_ascii status_line_ok_def parse_uint_def parse_usize_def radix_value_def hex_digit_def health_field_def
        eq_ignore_ascii_case_def trim_def ascii_defs)
  from health_response_complete [OF eq] eq show ?thesis by blast
qed

end
