(* ===== verification/Web_Connect.thy ===== *)
theory Web_Connect
  imports Web_Requests "HOL-Library.AList"
begin

text \<open>
  Connecting the browser client: \<open>connect_inner\<close> and the ticket handle of
  \<open>crates/locho-web/src/lib.rs\<close>, and the relay addresses and the retried discovery of
  \<open>crates/locho-web/src/addressing.rs\<close>.

  A lookup of the network gives a stream of results, here the list of them; each further call of
  \<open>resolve\<close> is answered by the environment. \<open>iroh\<close>'s records are kept to the fields the code
  reads or writes.
\<close>

subsection \<open>Relay addresses\<close>

text \<open>\<open>None\<close> is the panic of \<open>expect\<close>.\<close>

definition relay_url :: "'u url_api \<Rightarrow> 'u \<Rightarrow> 'u option" where
  "relay_url api u =
     (case Option.bind (url_domain api u) (strip_suffix ''.'') of
        None \<Rightarrow> Some u
      | Some host \<Rightarrow> url_set_host api host u)"

definition those_map :: "('a \<Rightarrow> 'b option) \<Rightarrow> 'a list \<Rightarrow> 'b list option" where
  "those_map f xs = those (map f xs)"

text \<open>
  A relay map is the list of its entries, keyed by URL; collecting configurations into a map
  keeps the last one of each key.
\<close>

datatype 'u relay_mode = ModeDisabled | ModeRelays "('u \<times> 'u relay_config) list"

definition collect_relays :: "'u relay_config list \<Rightarrow> ('u \<times> 'u relay_config) list" where
  "collect_relays rs = foldl (\<lambda>m r. AList.update (rc_url r) r m) [] rs"

definition client_relay_mode :: "'u url_api \<Rightarrow> 'u relay_mode \<Rightarrow> 'u relay_mode option" where
  "client_relay_mode api mode =
     (case mode of
        ModeDisabled \<Rightarrow> Some ModeDisabled
      | ModeRelays m \<Rightarrow>
          map_option (\<lambda>rs. ModeRelays (collect_relays rs))
            (those_map (\<lambda>(_, r). map_option (\<lambda>u. r\<lparr>rc_url := u\<rparr>) (relay_url api (rc_url r))) m))"

datatype ('u, 'a) transport_addr = RelayAddr 'u | OtherAddr 'a

record ('u, 'a) lookup_item =
  li_endpoint_id :: string
  li_addrs :: "('u, 'a) transport_addr list"
  li_user_data :: "string option"
  li_provenance :: string
  li_last_updated :: "nat option"

fun normalize_addr :: "'u url_api \<Rightarrow> ('u, 'a) transport_addr \<Rightarrow> ('u, 'a) transport_addr option" where
  "normalize_addr api (RelayAddr u) = map_option RelayAddr (relay_url api u)"
| "normalize_addr api (OtherAddr a) = Some (OtherAddr a)"

definition normalized_item :: "'u url_api \<Rightarrow> ('u, 'a) lookup_item \<Rightarrow> ('u, 'a) lookup_item option" where
  "normalized_item api item = map_option (\<lambda>addrs. item\<lparr>li_addrs := addrs\<rparr>) (those_map (normalize_addr api) (li_addrs item))"

subsection \<open>Retried discovery\<close>

definition MAX_RETRIES :: nat where "MAX_RETRIES = 2"

text \<open>
  The stream a retrying lookup unfolds to: \<open>retries\<close> so far, what is left of the current stream,
  and the answers to the further \<open>resolve\<close> calls. With the results come the delays slept, in
  milliseconds.
\<close>

function retrying :: "nat \<Rightarrow> ('e + 'i) list \<Rightarrow> ('e + 'i) list option list \<Rightarrow> ('e + 'i) list \<times> nat list" where
  "retrying retries [] answers = ([], [])"
| "retrying retries (Inr x # stream) answers =
     (case retrying retries stream answers of (out, delays) \<Rightarrow> (Inr x # out, delays))"
| "retrying retries (Inl e # stream) answers =
     (if retries < MAX_RETRIES
      then (case answers of
              Some next # answers \<Rightarrow>
                (case retrying (retries + 1) next answers of (out, delays) \<Rightarrow> (out, 250 * (retries + 1) # delays))
            | None # answers \<Rightarrow>
                (case retrying (retries + 1) stream answers of (out, delays) \<Rightarrow> (Inl e # out, 250 * (retries + 1) # delays))
            | [] \<Rightarrow>
                (case retrying (retries + 1) stream [] of (out, delays) \<Rightarrow> (Inl e # out, 250 * (retries + 1) # delays)))
      else (case retrying retries stream answers of (out, delays) \<Rightarrow> (Inl e # out, delays)))"
  by pat_completeness auto

termination
  by (relation "measures [\<lambda>(retries, _, _). MAX_RETRIES - retries, \<lambda>(_, stream, _). length stream]") auto

subsection \<open>Connecting\<close>

datatype bind_outcome = BindCancelled | BindLate | BindFailed | BindOk
datatype connect_outcome = ConnectCancelled | ConnectLate | ConnectWaited "session list"
datatype connect_fault = ConnectCode string | ConnectPanic

definition peer_relay :: "'u url_api \<Rightarrow> string \<Rightarrow> connect_fault + 'u" where
  "peer_relay api relay =
     (case url_parse api relay of
        None \<Rightarrow> Inl (ConnectCode ''invalidPeerRelay'')
      | Some u \<Rightarrow> ok_or ConnectPanic (relay_url api u))"

text \<open>
  \<open>connect_inner\<close>: the client, the relays of the target and what has been told to the session it
  started. A failure after the start closes the session.
\<close>

definition connect_inner ::
  "(string \<Rightarrow> bool) \<Rightarrow> 'u url_api \<Rightarrow> string \<Rightarrow> string list \<Rightarrow> bool \<Rightarrow> bind_outcome \<Rightarrow> connect_outcome \<Rightarrow>
   (connect_fault + web_client) \<times> 'u list \<times> session option" where
  "connect_inner host_id_ok api host_id relays cancelled bound waiting =
     (if cancelled then (Inl (ConnectCode ''cancelled''), [], None)
      else if \<not> host_id_ok host_id then (Inl (ConnectCode ''invalidHostId''), [], None)
      else
        (case collect_results (peer_relay api) relays of
           Inl e \<Rightarrow> (Inl e, [], None)
         | Inr target \<Rightarrow>
             (case bound of
                BindCancelled \<Rightarrow> (Inl (ConnectCode ''cancelled''), [], None)
              | BindLate \<Rightarrow> (Inl (ConnectCode ''startupTimeout''), [], None)
              | BindFailed \<Rightarrow> (Inl (ConnectCode ''endpointBind''), [], None)
              | BindOk \<Rightarrow>
                  (case (case waiting of
                           ConnectCancelled \<Rightarrow> Inl ''cancelled''
                         | ConnectLate \<Rightarrow> Inl ''startupTimeout''
                         | ConnectWaited polls \<Rightarrow> map_err map_error (wait_connected polls)) of
                     Inl e \<Rightarrow> (Inl (ConnectCode e), target, Some (owner_drop session_start))
                   | Inr _ \<Rightarrow> (Inr (web_client_new peer_start), target, Some session_start)))))"

subsection \<open>The ticket handle\<close>

definition web_parse_ticket :: "'u url_api \<Rightarrow> payload codec \<Rightarrow> base64_api \<Rightarrow> string \<Rightarrow> string + ticket" where
  "web_parse_ticket api plc b v = map_err (\<lambda>_. ''invalidTicket'') (ticket_parse api plc b v)"

definition web_ticket_export :: "payload codec \<Rightarrow> base64_api \<Rightarrow> ticket \<Rightarrow> string + string" where
  "web_ticket_export plc b t = map_err (\<lambda>_. ''invalidTicket'') (ticket_encode plc b t)"

record ticket_metadata =
  tm_host_id :: string
  tm_service :: string
  tm_service_type :: string
  tm_peer_relay_urls :: "string list"

definition web_ticket_metadata :: "ticket \<Rightarrow> ticket_metadata" where
  "web_ticket_metadata t = \<lparr>tm_host_id = t_host_id t, tm_service = cap_service (t_capability t),
     tm_service_type = service_type_as_str (cap_service_type (t_capability t)), tm_peer_relay_urls = t_peer_relay_urls t\<rparr>"

definition web_ticket_request ::
  "web_env \<Rightarrow> open_env \<Rightarrow> page_event \<Rightarrow> bool \<Rightarrow> ticket \<Rightarrow> string \<Rightarrow> bytes \<Rightarrow> web_client \<Rightarrow>
   (string + string \<times> bytes) \<times> service_stream option \<times> web_client" where
  "web_ticket_request env oe ev cancelled t options body c =
     (let cap = t_capability t in
      if cap_service_type cap \<noteq> Tcp then (Inl ''unsupportedService'', None, c)
      else web_request_call env oe ev cancelled
             (capability_format (cap_service cap) (cap_service_type cap) (cap_secret cap)) options body c)"

definition web_ticket_request_stream ::
  "web_env \<Rightarrow> open_env \<Rightarrow> page_event \<Rightarrow> bool \<Rightarrow> nat \<Rightarrow> ticket \<Rightarrow> string \<Rightarrow> bytes \<Rightarrow> web_client \<Rightarrow>
   (string + string \<times> web_stream) \<times> service_stream option \<times> web_client" where
  "web_ticket_request_stream env oe ev cancelled idle t options body c =
     (let cap = t_capability t in
      if cap_service_type cap \<noteq> Tcp then (Inl ''unsupportedService'', None, c)
      else web_request_stream env oe ev cancelled idle
             (capability_format (cap_service cap) (cap_service_type cap) (cap_secret cap)) options body c)"

definition web_ticket_connect ::
  "(string \<Rightarrow> bool) \<Rightarrow> 'u url_api \<Rightarrow> ticket \<Rightarrow> bool \<Rightarrow> bind_outcome \<Rightarrow> connect_outcome \<Rightarrow>
   (connect_fault + web_client) \<times> 'u list \<times> session option" where
  "web_ticket_connect host_id_ok api t cancelled bound waiting =
     (if cap_service_type (t_capability t) \<noteq> Tcp then (Inl (ConnectCode ''unsupportedService''), [], None)
      else connect_inner host_id_ok api (t_host_id t) (t_peer_relay_urls t) cancelled bound waiting)"

definition web_ticket_health ::
  "web_env \<Rightarrow> open_env \<Rightarrow> page_event \<Rightarrow> bool \<Rightarrow> ticket \<Rightarrow> string \<Rightarrow> web_client \<Rightarrow>
   (string + bytes) \<times> service_stream option \<times> web_client" where
  "web_ticket_health env oe ev cancelled t authority c =
     (let cap = t_capability t
      in web_health env oe ev cancelled (capability_format (cap_service cap) (cap_service_type cap) (cap_secret cap)) authority c)"

subsection \<open>What a retried lookup gives\<close>

definition until_error :: "('e + 'i) list \<Rightarrow> ('e + 'i) list" where
  "until_error s = takeWhile (\<lambda>r. \<not> isl r) s"

definition error_free :: "('e + 'i) list \<Rightarrow> bool" where
  "error_free s = (\<not> list_ex isl s)"

lemma retrying_items: "retrying n (map Inr xs @ s) answers = (case retrying n s answers of (out, d) \<Rightarrow> (map Inr xs @ out, d))"
  by (induction xs) (auto split: prod.splits)

lemma until_error_split: "\<not> error_free s \<Longrightarrow> \<exists>xs e t. s = map Inr xs @ Inl e # t \<and> until_error s = map Inr xs"
proof (induction s)
  case Nil
  then show ?case by (simp add: error_free_def)
next
  case (Cons r s)
  show ?case
  proof (cases r)
    case (Inl e)
    then show ?thesis by (intro exI [of _ "[]"]) (simp add: until_error_def)
  next
    case (Inr x)
    with Cons obtain xs e t where "s = map Inr xs @ Inl e # t" "until_error s = map Inr xs" by (auto simp: error_free_def)
    with Inr show ?thesis by (intro exI [of _ "x # xs"] exI [of _ e] exI [of _ t]) (simp add: until_error_def)
  qed
qed

lemma error_free_items: "error_free s \<Longrightarrow> \<exists>xs. s = map Inr xs"
proof (induction s)
  case (Cons r s)
  then obtain xs where "s = map Inr xs" by (auto simp: error_free_def)
  with Cons.prems show ?case by (cases r) (auto simp: error_free_def intro: exI [of _ "_ # xs"])
qed simp

lemma retrying_error_free: "error_free s \<Longrightarrow> retrying n s answers = (s, [])"
  using error_free_items [of s] retrying_items [of n _ "[]" answers] by auto

lemma retrying_exhausted: "retrying 2 s answers = (s, [])"
proof (induction s)
  case (Cons r s)
  then show ?case by (cases r) (simp_all add: MAX_RETRIES_def)
qed simp

lemma retrying_retries:
  assumes "\<not> error_free s" "n < 2"
  shows "retrying n s (Some next # answers) =
    (case retrying (n + 1) next answers of (out, d) \<Rightarrow> (until_error s @ out, 250 * (n + 1) # d))"
proof -
  from until_error_split [OF assms(1)] obtain xs e t where s: "s = map Inr xs @ Inl e # t" "until_error s = map Inr xs" by blast
  have "retrying n (Inl e # t) (Some next # answers) =
      (case retrying (n + 1) next answers of (out, d) \<Rightarrow> (out, 250 * (n + 1) # d))"
    using assms(2) by (simp add: MAX_RETRIES_def)
  then show ?thesis unfolding s(1) retrying_items s(2) [unfolded s(1)] by (simp split: prod.splits)
qed

text \<open>
  Retried discovery in the browser: a lookup that fails is replaced at most twice, after 250 and
  500 milliseconds. What the connection sees are the items before each error that was retried, in
  order, and then everything of the stream that was not replaced: no error if one of the three
  lookups succeeds, the last lookup's own results otherwise.
\<close>

theorem retried_lookup_exact:
  "retrying 0 s (Some s1 # Some s2 # answers) =
    (if error_free s then (s, [])
     else if error_free s1 then (until_error s @ s1, [250])
     else (until_error s @ until_error s1 @ s2, [250, 500]))"
proof -
  have "retrying 1 s1 (Some s2 # answers) = (until_error s1 @ s2, [500])" if "\<not> error_free s1"
    using retrying_retries [OF that, of 1 s2 answers] retrying_exhausted [of s2 answers] by (simp add: numeral_2_eq_2)
  then show ?thesis
    using retrying_error_free [of s 0] retrying_error_free [of s1 1] retrying_retries [of s 0 s1 "Some s2 # answers"] by auto
qed

text \<open>A ticket's request uses exactly the ticket's capability.\<close>

lemma ticket_request_capability:
  assumes "ticket_ok t" "cap_service_type (t_capability t) = Tcp"
    and "web_prepare env c cancelled idle (capability_text (t_capability t)) options body = Inr (req, bs, cap)"
  shows "cap = t_capability t"
proof -
  from web_prepare_Inr [OF assms(3)] have "capability_parse (capability_text (t_capability t)) = Inr cap" by simp
  moreover have "capability_parse (capability_text (t_capability t)) = Inr (t_capability t)"
    using assms(1) by (intro capability_parse_text) (simp add: ticket_ok_def)
  ultimately show ?thesis by simp
qed

end
