(* ===== verification/Unix_Socket.thy ===== *)
theory Unix_Socket
  imports Config
begin

text \<open>
  Unix-socket listeners of the native client (\<open>locho-client-native/src/unix.rs\<close> and
  \<open>unix/filesystem.rs\<close>): the checks on the directories above a socket, binding, permissions,
  and the guard that removes the socket again. The operating system is a parameter: what its
  lookups and descriptors answer, and for every call on the socket's directory entry whether the
  call fails and what other processes have done to the entry before it. Paths given to the system
  are their components.
\<close>

subsection \<open>The operating system\<close>

datatype target = Linux | Macos | OtherUnix

datatype errno = ENOENT | EADDRINUSE | EINVAL | OtherErrno nat

datatype denial =
    NoParent | ForeignAncestor | WritableAncestor | UserSymlink | ParentNotPrivate | NotSocket | SocketReplaced
  | SocketChanged | AclAllows

datatype unix_error = UnixDenied denial | UnixInvalid | UnixExists | UnixUnsupported | UnixOs errno

record metadata =
  md_is_dir :: bool
  md_is_link :: bool
  md_uid :: u32
  md_mode :: u32

text \<open>An access control list: the tags of its entries, or the error that reading a tag gives, and the error at the end.\<close>

datatype acl_reply = NoAcl errno | AclEntries "(errno + int) list" errno

record 'd unix_os =
  os_target :: target
  os_euid :: u32
  os_lstat :: "component list \<Rightarrow> errno + metadata"
  os_stat :: "component list \<Rightarrow> errno + metadata"
  os_canonicalize :: "component list \<Rightarrow> errno + component list"
  os_root :: "errno + 'd"
  os_openat :: "'d \<Rightarrow> string \<Rightarrow> errno + 'd"
  os_fstat :: "'d \<Rightarrow> errno + metadata"
  os_acl :: "'d \<Rightarrow> acl_reply"

subsection \<open>Paths and directories\<close>

definition unix_max_path :: "target \<Rightarrow> nat" where
  "unix_max_path tgt = (if tgt = Macos then 103 else 107)"

definition validate_path :: "target \<Rightarrow> string \<Rightarrow> unix_error + unit" where
  "validate_path tgt path =
     (if \<not> is_absolute path \<or> path = [] then Inl UnixInvalid
      else if path_file_name path = None \<or> ParentDir \<in> set (path_components path) then Inl UnixInvalid
      else if ends_with ''/'' path \<or> ends_with ''/.'' path then Inl UnixInvalid
      else if CHR 0x00 \<in> set path \<or> length path > unix_max_path tgt then Inl UnixInvalid
      else Inr ())"

definition trusted_directory :: "metadata \<Rightarrow> u32 \<Rightarrow> unix_error + unit" where
  "trusted_directory md uid =
     (if \<not> md_is_dir md \<or> md_uid md \<noteq> 0 \<and> md_uid md \<noteq> uid then Inl (UnixDenied ForeignAncestor)
      else if and (md_mode md) 0x12 \<noteq> 0 \<and> and (md_mode md) 0x200 = 0 then Inl (UnixDenied WritableAncestor)
      else Inr ())"

fun acl_scan :: "(errno + int) list \<Rightarrow> errno \<Rightarrow> unix_error + unit" where
  "acl_scan [] e = (if e = EINVAL then Inr () else Inl (UnixOs e))"
| "acl_scan (Inl e' # tags) e = Inl (UnixOs e')"
| "acl_scan (Inr tag # tags) e = (if tag = 1 then Inl (UnixDenied AclAllows) else acl_scan tags e)"

definition reject_allow_acl :: "'d unix_os \<Rightarrow> 'd \<Rightarrow> unix_error + unit" where
  "reject_allow_acl os d =
     (if os_target os \<noteq> Macos then Inr ()
      else case os_acl os d of
        NoAcl e \<Rightarrow> if e = ENOENT then Inr () else Inl (UnixOs e)
      | AclEntries tags e \<Rightarrow> acl_scan tags e)"

fun walk_prefixes :: "'d unix_os \<Rightarrow> component list \<Rightarrow> component list \<Rightarrow> unix_error + unit" where
  "walk_prefixes os prefix [] = Inr ()"
| "walk_prefixes os prefix (c # cs) =
     res_bind (map_err UnixOs (os_lstat os (prefix @ [c]))) (\<lambda>entry.
     if md_is_link entry \<and> md_uid entry \<noteq> 0 then Inl (UnixDenied UserSymlink)
     else
       res_bind (map_err UnixOs (os_stat os (prefix @ [c]))) (\<lambda>md.
       res_bind (trusted_directory md (os_euid os)) (\<lambda>_. walk_prefixes os (prefix @ [c]) cs)))"

definition check_directory :: "'d unix_os \<Rightarrow> 'd \<Rightarrow> unix_error + unit" where
  "check_directory os d =
     res_bind (map_err UnixOs (os_fstat os d)) (\<lambda>md.
     res_bind (trusted_directory md (os_euid os)) (\<lambda>_. reject_allow_acl os d))"

fun walk_resolved :: "'d unix_os \<Rightarrow> 'd \<Rightarrow> component list \<Rightarrow> unix_error + 'd" where
  "walk_resolved os d [] = Inr d"
| "walk_resolved os d (Normal name # cs) =
     (if CHR 0x00 \<in> set name then Inl UnixInvalid
      else
        res_bind (map_err UnixOs (os_openat os d name)) (\<lambda>d'.
        res_bind (check_directory os d') (\<lambda>_. walk_resolved os d' cs)))"
| "walk_resolved os d (c # cs) = walk_resolved os d cs"

record 'd parent =
  p_directory :: 'd
  p_name :: string

text \<open>\<open>Path::parent\<close> has the components without the last, and none for the root or an empty path.\<close>

definition path_parent :: "string \<Rightarrow> component list option" where
  "path_parent path =
     (case rev (path_components path) of [] \<Rightarrow> None | RootDir # _ \<Rightarrow> None | c # cs \<Rightarrow> Some (rev cs))"

definition private_directory :: "metadata \<Rightarrow> u32 \<Rightarrow> bool" where
  "private_directory md uid \<longleftrightarrow> md_uid md = uid \<and> and (md_mode md) 0x3F = 0"

text \<open>The \<open>expect\<close> on the name is the error \<open>NoParent\<close> here; \<open>validate_path\<close> excludes it.\<close>

definition parent_open :: "'d unix_os \<Rightarrow> string \<Rightarrow> unix_error + 'd parent" where
  "parent_open os path =
     res_bind (ok_or (UnixDenied NoParent) (path_parent path)) (\<lambda>up.
     res_bind (walk_prefixes os [] up) (\<lambda>_.
     res_bind (map_err UnixOs (os_canonicalize os up)) (\<lambda>resolved.
     res_bind (map_err UnixOs (os_root os)) (\<lambda>root.
     res_bind (check_directory os root) (\<lambda>_.
     res_bind (walk_resolved os root resolved) (\<lambda>d.
     res_bind (map_err UnixOs (os_fstat os d)) (\<lambda>md.
     if \<not> private_directory md (os_euid os) then Inl (UnixDenied ParentNotPrivate)
     else
       res_bind (ok_or (UnixDenied NoParent) (path_file_name path)) (\<lambda>name.
       if CHR 0x00 \<in> set name then Inl UnixInvalid else Inr \<lparr>p_directory = d, p_name = name\<rparr>))))))))"

subsection \<open>The directory entry\<close>

record identity =
  device :: u64
  inode :: u64

record entry =
  en_socket :: bool
  en_identity :: identity
  en_mode :: u32

text \<open>What the calls did to the entry, with the inode they did it to.\<close>

datatype effect = Bound identity | Chmod identity u32 | Unlinked identity

record socket_dir =
  sd_entry :: "entry option"
  sd_calls :: nat
  sd_effects :: "effect list"

text \<open>
  The environment of the calls: what others do to the entry before a call, whether the call fails,
  the inode and mode of a new socket, and the number of the directory's descriptor.
\<close>

record socket_env =
  se_others :: "nat \<Rightarrow> entry option \<Rightarrow> entry option"
  se_fault :: "nat \<Rightarrow> errno option"
  se_inode :: "nat \<Rightarrow> identity"
  se_mode :: u32
  se_fd :: nat

type_synonym 'a socket_op = "socket_dir \<Rightarrow> (unix_error + 'a) \<times> socket_dir"

definition sys ::
  "socket_env \<Rightarrow> (nat \<Rightarrow> entry option \<Rightarrow> (errno + 'a) \<times> entry option \<times> effect list) \<Rightarrow> 'a socket_op" where
  "sys env f s =
     (let n = sd_calls s; e = se_others env n (sd_entry s) in
      case se_fault env n of
        Some err \<Rightarrow> (Inl (UnixOs err), s\<lparr>sd_entry := e, sd_calls := Suc n\<rparr>)
      | None \<Rightarrow>
          (case f n e of (r, e', eff) \<Rightarrow>
             (map_err UnixOs r, \<lparr>sd_entry = e', sd_calls = Suc n, sd_effects = sd_effects s @ eff\<rparr>)))"

definition sock_bind :: "'a socket_op \<Rightarrow> ('a \<Rightarrow> 'b socket_op) \<Rightarrow> 'b socket_op" where
  "sock_bind m k s = (case m s of (Inl e, s) \<Rightarrow> (Inl e, s) | (Inr x, s) \<Rightarrow> k x s)"

definition sock_ret :: "unix_error + 'a \<Rightarrow> 'a socket_op" where
  "sock_ret r s = (r, s)"

definition sys_plain :: "socket_env \<Rightarrow> unit socket_op" where
  "sys_plain env = sys env (\<lambda>_ e. (Inr (), e, []))"

definition sys_lookup :: "socket_env \<Rightarrow> entry socket_op" where
  "sys_lookup env = sys env (\<lambda>_ e. (ok_or ENOENT e, e, []))"

subsection \<open>The operations of the parent\<close>

definition require_absent :: "socket_env \<Rightarrow> unit socket_op" where
  "require_absent env s =
     (case sys_lookup env s of
        (Inl e, s) \<Rightarrow> (if e = UnixOs ENOENT then Inr () else Inl e, s)
      | (Inr _, s) \<Rightarrow> (Inl UnixExists, s))"

definition entry_identity :: "socket_env \<Rightarrow> identity socket_op" where
  "entry_identity env =
     sock_bind (sys_lookup env) (\<lambda>e.
     sock_ret (if en_socket e then Inr (en_identity e) else Inl (UnixDenied NotSocket)))"

text \<open>
  \<open>UnixListener::bind\<close> of the standard library: a socket, the address, which has to be shorter than
  the platform's \<open>sun_path\<close>, \<open>bind\<close>, which makes the entry, and \<open>listen\<close>.
\<close>

definition listener_bind :: "socket_env \<Rightarrow> nat \<Rightarrow> string \<Rightarrow> unit socket_op" where
  "listener_bind env sun_path path =
     sock_bind (sys_plain env) (\<lambda>_.
     sock_bind (sock_ret (if CHR 0x00 \<in> set path \<or> length path \<ge> sun_path then Inl UnixInvalid else Inr ())) (\<lambda>_.
     sock_bind (sys env (\<lambda>n e. case e of
        Some _ \<Rightarrow> (Inl EADDRINUSE, e, [])
      | None \<Rightarrow> (Inr (), Some \<lparr>en_socket = True, en_identity = se_inode env n, en_mode = se_mode env\<rparr>, [Bound (se_inode env n)]))) (\<lambda>_.
     sys_plain env)))"

definition fd_path :: "socket_env \<Rightarrow> string \<Rightarrow> string" where
  "fd_path env name = ''/proc/self/fd/'' @ decimal (se_fd env) @ ''/'' @ name"

definition parent_bind :: "'d unix_os \<Rightarrow> socket_env \<Rightarrow> string \<Rightarrow> unit socket_op" where
  "parent_bind os env name =
     (case os_target os of
        Linux \<Rightarrow> listener_bind env 108 (fd_path env name)
      | Macos \<Rightarrow>
          sock_bind (sys_plain env) (\<lambda>_.
          sock_bind (sys_plain env) (\<lambda>_.
          sock_bind (sys_plain env) (\<lambda>_. listener_bind env 104 name)))
      | OtherUnix \<Rightarrow> sock_ret (Inl UnixUnsupported))"

definition set_mode :: "identity \<Rightarrow> u32 \<Rightarrow> entry option \<Rightarrow> entry option" where
  "set_mode i m = map_option (\<lambda>x. if en_identity x = i then x\<lparr>en_mode := m\<rparr> else x)"

text \<open>On Linux the entry is opened first and the mode changed on what was opened; on macOS by name.\<close>

definition chmod_entry :: "'d unix_os \<Rightarrow> socket_env \<Rightarrow> identity \<Rightarrow> unit socket_op" where
  "chmod_entry os env i =
     (case os_target os of
        Linux \<Rightarrow>
          sock_bind (sys_lookup env) (\<lambda>pinned.
          sock_bind (sys_plain env) (\<lambda>_.
          sock_bind (sock_ret (if \<not> en_socket pinned \<or> en_identity pinned \<noteq> i then Inl (UnixDenied SocketChanged) else Inr ())) (\<lambda>_.
          sys env (\<lambda>_ e. (Inr (), set_mode (en_identity pinned) 0x180 e, [Chmod (en_identity pinned) 0x180])))))
      | Macos \<Rightarrow>
          sys env (\<lambda>_ e. case e of
            None \<Rightarrow> (Inl ENOENT, e, [])
          | Some x \<Rightarrow> (Inr (), Some (x\<lparr>en_mode := 0x180\<rparr>), [Chmod (en_identity x) 0x180]))
      | OtherUnix \<Rightarrow> sock_ret (Inr ()))"

definition chmod_socket :: "'d unix_os \<Rightarrow> socket_env \<Rightarrow> identity \<Rightarrow> unit socket_op" where
  "chmod_socket os env i =
     sock_bind (entry_identity env) (\<lambda>j.
     if j \<noteq> i then sock_ret (Inl (UnixDenied SocketReplaced))
     else
       sock_bind (chmod_entry os env i) (\<lambda>_.
       sock_bind (entry_identity env) (\<lambda>j.
       sock_ret (if j \<noteq> i then Inl (UnixDenied SocketChanged) else Inr ()))))"

definition unlink_owned :: "socket_env \<Rightarrow> identity \<Rightarrow> socket_dir \<Rightarrow> socket_dir" where
  "unlink_owned env i s =
     (case entry_identity env s of
        (Inl _, s) \<Rightarrow> s
      | (Inr j, s) \<Rightarrow>
          if j = i then snd (sys env (\<lambda>_ e. case e of
            None \<Rightarrow> (Inl ENOENT, None, []) | Some x \<Rightarrow> (Inr (), None, [Unlinked (en_identity x)])) s)
          else s)"

subsection \<open>The guard\<close>

record 'd guard =
  g_path :: string
  g_parent :: "'d parent"
  g_identity :: identity

definition guard_drop :: "socket_env \<Rightarrow> 'd guard \<Rightarrow> socket_dir \<Rightarrow> socket_dir" where
  "guard_drop env g = unlink_owned env (g_identity g)"

definition in_use_exists :: "unix_error \<Rightarrow> unix_error" where
  "in_use_exists e = (if e = UnixOs EADDRINUSE then UnixExists else e)"

text \<open>The part with a guard; an error drops it.\<close>

definition finish_bind :: "'d unix_os \<Rightarrow> socket_env \<Rightarrow> 'd guard \<Rightarrow> 'd guard socket_op" where
  "finish_bind os env g s =
     (case sock_bind (chmod_socket os env (g_identity g)) (\<lambda>_. sock_bind (sys_plain env) (\<lambda>_. sys_plain env)) s of
        (Inl e, s) \<Rightarrow> (Inl e, guard_drop env g s)
      | (Inr _, s) \<Rightarrow> (Inr g, s))"

definition bind_entry :: "'d unix_os \<Rightarrow> socket_env \<Rightarrow> string \<Rightarrow> 'd parent \<Rightarrow> 'd guard socket_op" where
  "bind_entry os env path p =
     sock_bind (require_absent env) (\<lambda>_.
     sock_bind (\<lambda>s. case parent_bind os env (p_name p) s of (r, s) \<Rightarrow> (map_err in_use_exists r, s)) (\<lambda>_.
     sock_bind (entry_identity env) (\<lambda>i.
     finish_bind os env \<lparr>g_path = path, g_parent = p, g_identity = i\<rparr>)))"

definition bind_unix :: "'d unix_os \<Rightarrow> socket_env \<Rightarrow> string \<Rightarrow> 'd guard socket_op" where
  "bind_unix os env path s =
     (case res_bind (validate_path (os_target os) path) (\<lambda>_. parent_open os path) of
        Inl e \<Rightarrow> (Inl e, s)
      | Inr p \<Rightarrow> bind_entry os env path p s)"

subsection \<open>The directories above a socket\<close>

text \<open>The directories the walk opens, and what each of them has passed.\<close>

fun opened :: "'d unix_os \<Rightarrow> 'd \<Rightarrow> component list \<Rightarrow> 'd list" where
  "opened os d [] = []"
| "opened os d (Normal name # cs) = (case os_openat os d name of Inl _ \<Rightarrow> [] | Inr d' \<Rightarrow> d' # opened os d' cs)"
| "opened os d (c # cs) = opened os d cs"

definition grants_access :: "acl_reply \<Rightarrow> bool" where
  "grants_access acl = (case acl of NoAcl _ \<Rightarrow> False | AclEntries tags _ \<Rightarrow> Inr 1 \<in> set tags)"

definition directory_ok :: "'d unix_os \<Rightarrow> 'd \<Rightarrow> bool" where
  "directory_ok os d \<longleftrightarrow>
     (\<exists>md. os_fstat os d = Inr md \<and> md_is_dir md \<and> md_uid md \<in> {0, os_euid os} \<and>
        (and (md_mode md) 0x12 = 0 \<or> and (md_mode md) 0x200 \<noteq> 0)) \<and>
     (if os_target os = Macos then \<not> grants_access (os_acl os d) else True)"

lemma acl_scan_Inr: "acl_scan tags e = Inr () \<Longrightarrow> Inr 1 \<notin> set tags"
  by (induction tags e rule: acl_scan.induct) (auto split: if_splits)

lemma check_directory_ok: "check_directory os d = Inr () \<Longrightarrow> directory_ok os d"
  by (auto simp: check_directory_def directory_ok_def trusted_directory_def reject_allow_acl_def grants_access_def result_simps
      split: if_splits acl_reply.splits dest: acl_scan_Inr)

lemma walk_resolved_opened:
  "walk_resolved os d cs = Inr d' \<Longrightarrow> d' = last (d # opened os d cs) \<and> list_all (directory_ok os) (opened os d cs)"
  by (induction os d cs rule: walk_resolved.induct) (auto simp: result_simps split: if_splits dest!: check_directory_ok)

lemma parent_open_ok:
  assumes "parent_open os path = Inr p"
  shows "\<exists>up root resolved md. path_parent path = Some up \<and> os_canonicalize os up = Inr resolved \<and> os_root os = Inr root \<and>
    p_directory p = last (root # opened os root resolved) \<and> list_all (directory_ok os) (root # opened os root resolved) \<and>
    os_fstat os (p_directory p) = Inr md \<and> private_directory md (os_euid os) \<and>
    path_file_name path = Some (p_name p) \<and> CHR 0x00 \<notin> set (p_name p)"
proof -
  from assms obtain up resolved root where up: "path_parent path = Some up" and res: "os_canonicalize os up = Inr resolved"
    and root: "os_root os = Inr root" "check_directory os root = Inr ()"
    and walk: "walk_resolved os root resolved = Inr (p_directory p)"
    and rest: "\<exists>md. os_fstat os (p_directory p) = Inr md \<and> private_directory md (os_euid os)"
      "path_file_name path = Some (p_name p)" "CHR 0x00 \<notin> set (p_name p)"
    by (auto simp: parent_open_def result_simps ok_or_def split: if_splits option.splits)
  from walk_resolved_opened [OF walk] check_directory_ok [OF root(2)]
  have "p_directory p = last (root # opened os root resolved)" "list_all (directory_ok os) (root # opened os root resolved)"
    by (auto simp del: last.simps)
  with up res root(1) rest show ?thesis by blast
qed

subsection \<open>Sequences of calls\<close>

lemma sock_bind_Inr: "sock_bind m k s = (Inr y, s') \<longleftrightarrow> (\<exists>x s1. m s = (Inr x, s1) \<and> k x s1 = (Inr y, s'))"
  by (auto simp: sock_bind_def split: prod.splits sum.splits)

lemma finish_bind_Inr:
  "finish_bind os env g s = (Inr g', s') \<Longrightarrow>
   g' = g \<and> sock_bind (chmod_socket os env (g_identity g)) (\<lambda>_. sock_bind (sys_plain env) (\<lambda>_. sys_plain env)) s = (Inr (), s')"
  unfolding finish_bind_def
  by (cases "sock_bind (chmod_socket os env (g_identity g)) (\<lambda>_. sock_bind (sys_plain env) (\<lambda>_. sys_plain env)) s")
    (auto split: sum.splits)

lemma bind_entry_parent: "bind_entry os env path p s = (Inr g, s') \<Longrightarrow> g_parent g = p \<and> g_path g = path"
  unfolding bind_entry_def by (auto simp only: sock_bind_Inr dest!: finish_bind_Inr) simp_all

lemma bind_unix_open:
  "bind_unix os env path s = (Inr g, s') \<Longrightarrow>
   validate_path (os_target os) path = Inr () \<and> parent_open os path = Inr (g_parent g) \<and>
   bind_entry os env path (g_parent g) s = (Inr g, s')"
  by (auto simp: bind_unix_def result_simps split: sum.splits dest: bind_entry_parent)

text \<open>
  C19. A listening socket stands in a private directory that nobody else can exchange. When
  \<open>bind_unix\<close> succeeds, the directory it is anchored in was reached from the root by opening one
  component of the resolved path after the other; the root and every directory on the way are
  directories of root or of the effective user, not writable by others unless sticky, and on macOS
  without access control entries that grant access, and the last one belongs to the effective user
  with no access for group and others.
\<close>

theorem unix_parent_private:
  assumes "bind_unix os env path s = (Inr g, s')"
  shows "\<exists>up root resolved md. path_parent path = Some up \<and> os_canonicalize os up = Inr resolved \<and> os_root os = Inr root \<and>
    p_directory (g_parent g) = last (root # opened os root resolved) \<and>
    list_all (directory_ok os) (root # opened os root resolved) \<and>
    os_fstat os (p_directory (g_parent g)) = Inr md \<and> md_uid md = os_euid os \<and> and (md_mode md) 0x3F = 0"
  using parent_open_ok [of os path "g_parent g"] bind_unix_open [OF assms] unfolding private_directory_def by blast

subsection \<open>A directory nobody else touches\<close>

definition quiet_others :: "socket_env \<Rightarrow> bool" where
  "quiet_others env \<longleftrightarrow> (\<forall>n e. se_others env n e = e)"

definition owned :: "identity \<Rightarrow> socket_dir \<Rightarrow> bool" where
  "owned i s \<longleftrightarrow> (\<exists>m. sd_entry s = Some \<lparr>en_socket = True, en_identity = i, en_mode = m\<rparr>)"

definition failed_in :: "socket_env \<Rightarrow> socket_dir \<Rightarrow> socket_dir \<Rightarrow> bool" where
  "failed_in env s s' \<longleftrightarrow> (\<exists>k. sd_calls s \<le> k \<and> k < sd_calls s' \<and> se_fault env k \<noteq> None)"

lemma failed_now: "se_fault env (sd_calls s) = Some e \<Longrightarrow> sd_calls s < sd_calls s' \<Longrightarrow> failed_in env s s'"
  by (auto simp: failed_in_def)

text \<open>An operation that keeps an owned socket, makes calls, and fails only when one of them does.\<close>

definition keeps_owned :: "socket_env \<Rightarrow> identity \<Rightarrow> ('a \<Rightarrow> bool) \<Rightarrow> 'a socket_op \<Rightarrow> bool" where
  "keeps_owned env i Q m \<longleftrightarrow>
     (\<forall>s r s'. owned i s \<longrightarrow> m s = (r, s') \<longrightarrow>
        owned i s' \<and> sd_calls s \<le> sd_calls s' \<and> (case r of Inl _ \<Rightarrow> failed_in env s s' | Inr x \<Rightarrow> Q x))"

lemma keeps_owned_bind:
  assumes "keeps_owned env i Q m" "\<And>x. Q x \<Longrightarrow> keeps_owned env i R (k x)"
  shows "keeps_owned env i R (sock_bind m k)"
  unfolding keeps_owned_def
proof (intro allI impI)
  fix s r s' assume own: "owned i s" and run: "sock_bind m k s = (r, s')"
  obtain x s1 where m: "m s = (x, s1)" by fastforce
  with assms(1) own have s1: "owned i s1" "sd_calls s \<le> sd_calls s1" and x: "case x of Inl _ \<Rightarrow> failed_in env s s1 | Inr y \<Rightarrow> Q y"
    by (auto simp: keeps_owned_def)
  show "owned i s' \<and> sd_calls s \<le> sd_calls s' \<and> (case r of Inl _ \<Rightarrow> failed_in env s s' | Inr x \<Rightarrow> R x)"
  proof (cases x)
    case (Inl e)
    with m run s1 x show ?thesis by (auto simp: sock_bind_def)
  next
    case (Inr y)
    with m run x assms(2) have "keeps_owned env i R (k y)" "k y s1 = (r, s')" by (auto simp: sock_bind_def)
    with s1(1) have "owned i s'" "sd_calls s1 \<le> sd_calls s'" "case r of Inl _ \<Rightarrow> failed_in env s1 s' | Inr x \<Rightarrow> R x"
      by (auto simp: keeps_owned_def)
    with s1(2) show ?thesis
      by (cases r) (auto simp: failed_in_def intro: le_trans)
  qed
qed

lemma keeps_owned_ret: "keeps_owned env i Q (sock_ret (Inr x)) \<longleftrightarrow> Q x \<or> (\<forall>s. \<not> owned i s)"
  by (auto simp: keeps_owned_def sock_ret_def)

lemma keeps_owned_sys:
  assumes "quiet_others env"
    and "\<And>n m. \<exists>y m' eff. f n (Some \<lparr>en_socket = True, en_identity = i, en_mode = m\<rparr>) =
      (Inr y, Some \<lparr>en_socket = True, en_identity = i, en_mode = m'\<rparr>, eff) \<and> Q y"
  shows "keeps_owned env i Q (sys env f)"
  unfolding keeps_owned_def
proof (intro allI impI)
  fix s r s' assume own: "owned i s" and run: "sys env f s = (r, s')"
  from own obtain m where m: "sd_entry s = Some \<lparr>en_socket = True, en_identity = i, en_mode = m\<rparr>" by (auto simp: owned_def)
  from assms(2) [of "sd_calls s" m] obtain y m' eff
    where f: "f (sd_calls s) (sd_entry s) = (Inr y, Some \<lparr>en_socket = True, en_identity = i, en_mode = m'\<rparr>, eff)" "Q y"
    using m by auto
  from assms(1) f m run show "owned i s' \<and> sd_calls s \<le> sd_calls s' \<and> (case r of Inl _ \<Rightarrow> failed_in env s s' | Inr x \<Rightarrow> Q x)"
    by (cases "se_fault env (sd_calls s)") (auto simp: sys_def quiet_others_def owned_def Let_def intro!: failed_now)
qed

lemma keeps_owned_plain: "quiet_others env \<Longrightarrow> keeps_owned env i (\<lambda>_. True) (sys_plain env)"
  unfolding sys_plain_def by (rule keeps_owned_sys) auto

lemma keeps_owned_lookup:
  "quiet_others env \<Longrightarrow> keeps_owned env i (\<lambda>e. en_socket e \<and> en_identity e = i) (sys_lookup env)"
  unfolding sys_lookup_def by (rule keeps_owned_sys) (auto simp: ok_or_def)

lemma keeps_owned_identity: "quiet_others env \<Longrightarrow> keeps_owned env i (\<lambda>j. j = i) (entry_identity env)"
  unfolding entry_identity_def by (rule keeps_owned_bind [OF keeps_owned_lookup]) (auto simp: keeps_owned_ret)

lemma keeps_owned_chmod_entry:
  assumes "quiet_others env"
  shows "keeps_owned env i (\<lambda>_. True) (chmod_entry os env i)"
proof (cases "os_target os")
  case Linux
  have "keeps_owned env i (\<lambda>_. True) (sys env (\<lambda>_ e. (Inr (), set_mode i 0x180 e, [Chmod i 0x180])))"
    by (rule keeps_owned_sys [OF assms]) (auto simp: set_mode_def)
  with Linux show ?thesis
    unfolding chmod_entry_def
    by (auto intro!: keeps_owned_bind [OF keeps_owned_lookup [OF assms]] keeps_owned_bind [OF keeps_owned_plain [OF assms]]
        keeps_owned_bind [where Q = "\<lambda>_. True" and m = "sock_ret (Inr ())"] simp: keeps_owned_ret)
next
  case Macos
  have "keeps_owned env i (\<lambda>_. True) (sys env (\<lambda>_ e. case e of
            None \<Rightarrow> (Inl ENOENT, e, [])
          | Some x \<Rightarrow> (Inr (), Some (x\<lparr>en_mode := 0x180\<rparr>), [Chmod (en_identity x) 0x180])))"
    by (rule keeps_owned_sys [OF assms]) auto
  with Macos show ?thesis by (simp add: chmod_entry_def)
qed (simp add: chmod_entry_def keeps_owned_ret)

lemma keeps_owned_chmod_socket: "quiet_others env \<Longrightarrow> keeps_owned env i (\<lambda>_. True) (chmod_socket os env i)"
  unfolding chmod_socket_def
  by (auto intro!: keeps_owned_bind [OF keeps_owned_identity] keeps_owned_bind [OF keeps_owned_chmod_entry] simp: keeps_owned_ret)

lemmas call_defs = sock_bind_def sock_ret_def sys_plain_def sys_lookup_def sys_def Let_def

lemma entry_identity_owned:
  assumes "quiet_others env" "owned i s" "entry_identity env s = (r, s1)"
  shows "owned i s1 \<and> sd_calls s1 = Suc (sd_calls s) \<and>
    (case se_fault env (sd_calls s) of None \<Rightarrow> r = Inr i | Some e \<Rightarrow> r = Inl (UnixOs e))"
  using assms
  by (auto simp: entry_identity_def call_defs quiet_others_def owned_def ok_or_def split: option.splits)

lemma unlink_owned_quiet:
  assumes "quiet_others env" "owned i s"
  shows "sd_entry (unlink_owned env i s) = None \<or>
    owned i (unlink_owned env i s) \<and> (\<exists>k. sd_calls s \<le> k \<and> se_fault env k \<noteq> None)"
proof -
  obtain r s1 where r: "entry_identity env s = (r, s1)" by fastforce
  note one = entry_identity_owned [OF assms r]
  show ?thesis
  proof (cases "se_fault env (sd_calls s)")
    case None
    with one assms(1) r show ?thesis
      by (cases "se_fault env (sd_calls s1)")
        (auto simp: unlink_owned_def sys_def quiet_others_def owned_def Let_def intro!: exI [of _ "Suc (sd_calls s)"])
  next
    case (Some e)
    with one r show ?thesis by (auto simp: unlink_owned_def)
  qed
qed

text \<open>What is left of a socket when the steps after its creation fail.\<close>

definition two_failures :: "socket_env \<Rightarrow> nat \<Rightarrow> bool" where
  "two_failures env n \<longleftrightarrow> (\<exists>j k. n \<le> j \<and> j < k \<and> se_fault env j \<noteq> None \<and> se_fault env k \<noteq> None)"

lemma finish_bind_quiet:
  assumes q: "quiet_others env" and own: "owned (g_identity g) s" and run: "finish_bind os env g s = (r, s')"
  shows "case r of Inr _ \<Rightarrow> owned (g_identity g) s'
    | Inl _ \<Rightarrow> sd_entry s' = None \<or> owned (g_identity g) s' \<and> two_failures env (sd_calls s)"
proof -
  let ?steps = "sock_bind (chmod_socket os env (g_identity g)) (\<lambda>_. sock_bind (sys_plain env) (\<lambda>_. sys_plain env))"
  obtain x s1 where x: "?steps s = (x, s1)" by fastforce
  have "keeps_owned env (g_identity g) (\<lambda>_. True) ?steps"
    by (intro keeps_owned_bind [OF keeps_owned_chmod_socket [OF q]] keeps_owned_bind [OF keeps_owned_plain [OF q]]
        keeps_owned_plain [OF q])
  with own x have s1: "owned (g_identity g) s1" "case x of Inl _ \<Rightarrow> failed_in env s s1 | Inr _ \<Rightarrow> True"
    by (auto simp: keeps_owned_def)
  show ?thesis
  proof (cases x)
    case (Inl e)
    with run x have "r = Inl e" "s' = unlink_owned env (g_identity g) s1" by (auto simp: finish_bind_def guard_drop_def)
    with Inl s1 unlink_owned_quiet [OF q s1(1)] show ?thesis
      by (auto simp: failed_in_def two_failures_def) (meson less_le_trans)
  next
    case (Inr u)
    with run x s1 show ?thesis by (auto simp: finish_bind_def)
  qed
qed

lemma listener_bind_quiet:
  assumes "quiet_others env" "listener_bind env sun_path path s = (r, s')"
  shows "(\<exists>e. r = Inl e) \<and> sd_entry s' = sd_entry s \<or>
    sd_entry s = None \<and> (\<exists>n\<ge>sd_calls s. owned (se_inode env n) s' \<and> sd_calls s' = n + 2 \<and>
      (case r of Inl _ \<Rightarrow> se_fault env (n + 1) \<noteq> None | Inr _ \<Rightarrow> True))"
proof (cases "se_fault env (sd_calls s) \<noteq> None \<or> CHR 0x00 \<in> set path \<or> length path \<ge> sun_path \<or>
    se_fault env (Suc (sd_calls s)) \<noteq> None \<or> sd_entry s \<noteq> None")
  case True
  with assms show ?thesis
    by (auto simp: listener_bind_def call_defs quiet_others_def split: option.splits if_splits)
next
  case False
  with assms show ?thesis
    by (auto simp: listener_bind_def call_defs quiet_others_def owned_def split: option.splits if_splits
        intro!: exI [of _ "Suc (sd_calls s)"])
qed

lemma sys_plain_quiet: "quiet_others env \<Longrightarrow> sys_plain env s = (r, s') \<Longrightarrow> sd_entry s' = sd_entry s \<and> sd_calls s' = Suc (sd_calls s)"
  by (auto simp: sys_plain_def sys_def quiet_others_def Let_def split: option.splits)

text \<open>What binding does to the entry, whatever the platform.\<close>

definition bound_at :: "socket_env \<Rightarrow> socket_dir \<Rightarrow> unix_error + unit \<Rightarrow> socket_dir \<Rightarrow> bool" where
  "bound_at env s r s' \<longleftrightarrow> (\<exists>e. r = Inl e) \<and> sd_entry s' = sd_entry s \<or>
    sd_entry s = None \<and> (\<exists>n\<ge>sd_calls s. owned (se_inode env n) s' \<and> sd_calls s' = n + 2 \<and>
      (case r of Inl _ \<Rightarrow> se_fault env (n + 1) \<noteq> None | Inr _ \<Rightarrow> True))"

lemma bound_at_plain:
  assumes q: "quiet_others env" and "sock_bind (sys_plain env) (\<lambda>_. m) s = (r, s')"
    and m: "\<And>s. m s = (r, s') \<Longrightarrow> bound_at env s r s'"
  shows "bound_at env s r s'"
proof -
  obtain x s1 where x: "sys_plain env s = (x, s1)" by fastforce
  note s1 = sys_plain_quiet [OF q x]
  show ?thesis
  proof (cases x)
    case (Inl e)
    with x assms(2) s1 show ?thesis by (auto simp: sock_bind_def bound_at_def)
  next
    case (Inr u)
    with x assms(2) have "m s1 = (r, s')" by (simp add: sock_bind_def)
    from m [OF this] s1 show ?thesis unfolding bound_at_def by (metis Suc_leD)
  qed
qed

lemma parent_bind_quiet:
  assumes q: "quiet_others env" and run: "parent_bind os env name s = (r, s')"
  shows "bound_at env s r s'"
proof (cases "os_target os")
  case Linux
  with listener_bind_quiet [OF q] run show ?thesis by (simp add: parent_bind_def bound_at_def)
next
  case Macos
  have "bound_at env s r s'" if "listener_bind env 104 name s = (r, s')" for s
    using listener_bind_quiet [OF q that] by (simp add: bound_at_def)
  note last = this
  from Macos run have "sock_bind (sys_plain env) (\<lambda>_. sock_bind (sys_plain env) (\<lambda>_.
      sock_bind (sys_plain env) (\<lambda>_. listener_bind env 104 name))) s = (r, s')"
    by (simp add: parent_bind_def)
  then show ?thesis
    by (rule bound_at_plain [OF q]) (elim bound_at_plain [OF q], rule last)
next
  case OtherUnix
  with run show ?thesis by (auto simp: parent_bind_def sock_ret_def bound_at_def)
qed

lemma require_absent_quiet:
  "quiet_others env \<Longrightarrow> require_absent env s = (r, s') \<Longrightarrow> sd_entry s' = sd_entry s \<and> sd_calls s' = Suc (sd_calls s)"
  by (auto simp: require_absent_def sys_lookup_def sys_def quiet_others_def Let_def ok_or_def split: option.splits sum.splits if_splits)

lemma bind_entry_quiet:
  assumes q: "quiet_others env" and run: "bind_entry os env path p s = (r, s')"
  shows "case r of Inr g \<Rightarrow> sd_entry s = None \<and> owned (g_identity g) s'
    | Inl _ \<Rightarrow> sd_entry s' = sd_entry s \<or> sd_entry s = None \<and>
        (\<exists>n. owned (se_inode env n) s' \<and> (se_fault env (n + 1) \<noteq> None \<or> se_fault env (n + 2) \<noteq> None \<or> two_failures env (n + 3)))"
proof -
  obtain r1 s1 where r1: "require_absent env s = (r1, s1)" by fastforce
  note s1 = require_absent_quiet [OF q r1]
  obtain r2 s2 where r2: "parent_bind os env (p_name p) s1 = (r2, s2)" by fastforce
  note s2 = parent_bind_quiet [OF q r2]
  obtain r3 s3 where r3: "entry_identity env s2 = (r3, s3)" by fastforce
  show ?thesis
  proof (cases "\<exists>e. r1 = Inl e")
    case True
    with run r1 s1 show ?thesis by (auto simp: bind_entry_def sock_bind_def)
  next
    case False
    then have one: "r1 = Inr ()" by (cases r1) auto
    show ?thesis
    proof (cases r2)
      case (Inl e)
      with run r1 one r2 have "\<exists>e. r = Inl e" "s' = s2" by (auto simp: bind_entry_def sock_bind_def)
      with s1 s2 Inl show ?thesis by (auto simp: bound_at_def)
    next
      case (Inr u)
      with s1 s2 obtain n where n: "sd_entry s = None" "owned (se_inode env n) s2" "sd_calls s2 = n + 2"
        by (auto simp: bound_at_def)
      note s3 = entry_identity_owned [OF q n(2) r3]
      show ?thesis
      proof (cases "se_fault env (n + 2)")
        case (Some e)
        with s3 n run r1 one r2 Inr r3 have "r = Inl (UnixOs e)" "s' = s3" by (auto simp: bind_entry_def sock_bind_def)
        with s3 n Some show ?thesis by auto
      next
        case None
        let ?g = "\<lparr>g_path = path, g_parent = p, g_identity = se_inode env n\<rparr>"
        from None s3 n run r1 one r2 Inr r3 have fin: "finish_bind os env ?g s3 = (r, s')"
          by (auto simp: bind_entry_def sock_bind_def)
        from s3 n have s3': "owned (g_identity ?g) s3" "sd_calls s3 = n + 3" by simp_all
        from finish_bind_quiet [OF q s3'(1) fin] s3'(2)
        have "case r of Inr _ \<Rightarrow> owned (se_inode env n) s'
          | Inl _ \<Rightarrow> sd_entry s' = None \<or> owned (se_inode env n) s' \<and> two_failures env (n + 3)"
          by (cases r) simp_all
        with fin n finish_bind_Inr [of os env ?g s3] show ?thesis by (cases r) auto
      qed
    qed
  qed
qed

text \<open>
  C20. Binding a Unix listener is all or nothing for its directory entry, as long as nobody else
  changes the entry meanwhile: a success means that the entry was absent and is now the guard's own
  socket, and after an error the entry is what it was before. A socket is left behind only when
  \<open>listen\<close> or the first lookup after \<open>bind\<close> fails, before there is a guard, or when after that two
  calls fail, one of them the removal.
\<close>

theorem unix_bind_all_or_nothing:
  assumes "quiet_others env" "bind_unix os env path s = (r, s')"
  shows "case r of
      Inr g \<Rightarrow> sd_entry s = None \<and> owned (g_identity g) s'
    | Inl _ \<Rightarrow> sd_entry s' = sd_entry s \<or> sd_entry s = None \<and>
        (\<exists>n. owned (se_inode env n) s' \<and> (se_fault env (n + 1) \<noteq> None \<or> se_fault env (n + 2) \<noteq> None \<or> two_failures env (n + 3)))"
proof (cases "res_bind (validate_path (os_target os) path) (\<lambda>_. parent_open os path)")
  case (Inl e)
  with assms(2) show ?thesis by (auto simp: bind_unix_def)
next
  case (Inr p)
  with assms(2) bind_entry_quiet [OF assms(1), of os path p s r s'] show ?thesis by (simp add: bind_unix_def)
qed

text \<open>
  Dropping a guard removes its own socket and nothing else: provided that nobody exchanges the
  entry in the moment between the check and the removal, the entry found is removed exactly when
  it is a socket with the identity the guard recorded and the calls succeed; any other entry, such
  as a socket another process has put in its place, stays as it is.
\<close>

theorem unix_drop_owned:
  assumes "\<And>e. se_others env (Suc (sd_calls s)) e = e"
  shows "sd_entry (guard_drop env g s) =
    (case se_others env (sd_calls s) (sd_entry s) of
       None \<Rightarrow> None
     | Some x \<Rightarrow> if en_socket x \<and> en_identity x = g_identity g \<and> se_fault env (sd_calls s) = None \<and> se_fault env (Suc (sd_calls s)) = None
         then None else Some x)"
  using assms
  by (auto simp: guard_drop_def unlink_owned_def entry_identity_def call_defs ok_or_def split: option.splits)

text \<open>
  The calls on Linux when none fails and nobody else acts: the address that is bound goes through
  the directory's descriptor, so its length does not depend on the configured path.
\<close>

lemma bind_entry_linux:
  assumes "quiet_others env" "\<And>n. se_fault env n = None" "os_target os = Linux" "CHR 0x00 \<notin> set (fd_path env (p_name p))"
  shows "fst (bind_entry os env path p s) =
    (if sd_entry s \<noteq> None then Inl UnixExists
     else if length (fd_path env (p_name p)) > 107 then Inl UnixInvalid
     else Inr \<lparr>g_path = path, g_parent = p, g_identity = se_inode env (sd_calls s + 2)\<rparr>) \<and>
    sd_entry (snd (bind_entry os env path p s)) =
    (if sd_entry s = None \<and> length (fd_path env (p_name p)) \<le> 107
     then Some \<lparr>en_socket = True, en_identity = se_inode env (sd_calls s + 2), en_mode = 0x180\<rparr> else sd_entry s)"
proof (cases "sd_entry s")
  case None
  with assms show ?thesis
    by (simp add: bind_entry_def require_absent_def parent_bind_def listener_bind_def entry_identity_def finish_bind_def
        chmod_socket_def chmod_entry_def call_defs quiet_others_def ok_or_def set_mode_def in_use_exists_def)
next
  case (Some e)
  with assms show ?thesis
    by (simp add: bind_entry_def require_absent_def call_defs quiet_others_def ok_or_def)
qed

lemma fd_path_no_nul: "CHR 0x00 \<notin> set name \<Longrightarrow> CHR 0x00 \<notin> set (fd_path env name)"
  using decimal_digits [of "se_fd env"] by (auto simp: fd_path_def list_all_iff ascii_defs)

text \<open>
  C38. On Linux, when no call fails and nobody else acts, a valid path whose directory passes the
  checks can be bound exactly when the entry is absent and \<open>/proc/self/fd/\<close>, the descriptor's
  number and the name together have at most 107 bytes, a stricter limit on the name than
  the check of the path makes; the entry then is a socket that only its owner can use, with the
  identity recorded in the guard, and otherwise it is not touched.
\<close>

theorem unix_bind_linux:
  assumes "quiet_others env" "\<And>n. se_fault env n = None" "os_target os = Linux"
    and "validate_path Linux path = Inr ()" "parent_open os path = Inr p"
  shows "fst (bind_unix os env path s) =
      (if sd_entry s \<noteq> None then Inl UnixExists
       else if length (fd_path env (p_name p)) > 107 then Inl UnixInvalid
       else Inr \<lparr>g_path = path, g_parent = p, g_identity = se_inode env (sd_calls s + 2)\<rparr>) \<and>
    sd_entry (snd (bind_unix os env path s)) =
      (if sd_entry s = None \<and> length (fd_path env (p_name p)) \<le> 107
       then Some \<lparr>en_socket = True, en_identity = se_inode env (sd_calls s + 2), en_mode = 0x180\<rparr> else sd_entry s)"
proof -
  from parent_open_ok [OF assms(5)] have "CHR 0x00 \<notin> set (p_name p)" by auto
  from fd_path_no_nul [OF this] have "CHR 0x00 \<notin> set (fd_path env (p_name p))" .
  from bind_entry_linux [OF assms(1-3) this] assms(3-5) show ?thesis by (simp add: bind_unix_def)
qed

subsection \<open>Witnesses\<close>

definition demo_md :: "u32 \<Rightarrow> metadata" where
  "demo_md mode = \<lparr>md_is_dir = True, md_is_link = False, md_uid = 1000, md_mode = mode\<rparr>"

definition demo_os :: "bool unix_os" where
  "demo_os = \<lparr>os_target = Linux, os_euid = 1000, os_lstat = (\<lambda>_. Inr (demo_md 0x1C0)), os_stat = (\<lambda>_. Inr (demo_md 0x1C0)),
     os_canonicalize = Inr, os_root = Inr False, os_openat = (\<lambda>_ _. Inr True),
     os_fstat = (\<lambda>d. Inr (demo_md (if d then 0x1C0 else 0x1ED))), os_acl = (\<lambda>_. NoAcl ENOENT)\<rparr>"

definition demo_socket_env :: socket_env where
  "demo_socket_env = \<lparr>se_others = (\<lambda>_ e. e), se_fault = (\<lambda>_. None), se_inode = (\<lambda>n. \<lparr>device = 1, inode = of_nat n\<rparr>),
     se_mode = 0x1ED, se_fd = 7\<rparr>"

definition demo_socket_dir :: socket_dir where
  "demo_socket_dir = \<lparr>sd_entry = None, sd_calls = 0, sd_effects = []\<rparr>"

definition demo_parent :: "bool parent" where
  "demo_parent = \<lparr>p_directory = True, p_name = ''s''\<rparr>"

definition demo_guard :: "bool guard" where
  "demo_guard = \<lparr>g_path = ''/run/s'', g_parent = demo_parent, g_identity = \<lparr>device = 1, inode = 2\<rparr>\<rparr>"

definition demo_socket :: entry where
  "demo_socket = \<lparr>en_socket = True, en_identity = \<lparr>device = 1, inode = 2\<rparr>, en_mode = 0x180\<rparr>"

lemma demo_quiet: "quiet_others demo_socket_env" "se_fault demo_socket_env n = None"
  by (simp_all add: quiet_others_def demo_socket_env_def)

lemma demo_path_ok: "validate_path Linux ''/run/s'' = Inr ()" "os_target demo_os = Linux"
  by code_simp+

lemma demo_parent_opens: "parent_open demo_os ''/run/s'' = Inr demo_parent"
  by code_simp

lemma demo_fd_path: "length (fd_path demo_socket_env ''s'') = 17"
  by code_simp

theorem unix_bind_linux_witness:
  "fst (bind_unix demo_os demo_socket_env ''/run/s'' demo_socket_dir) = Inr demo_guard \<and>
   sd_entry (snd (bind_unix demo_os demo_socket_env ''/run/s'' demo_socket_dir)) = Some demo_socket"
  using unix_bind_linux [OF demo_quiet demo_path_ok(2,1) demo_parent_opens, of demo_socket_dir] demo_fd_path
  by (simp add: demo_socket_dir_def demo_parent_def demo_guard_def demo_socket_def demo_socket_env_def)

lemma demo_binds: "\<exists>s'. bind_unix demo_os demo_socket_env ''/run/s'' demo_socket_dir = (Inr demo_guard, s')"
  by (rule exI [of _ "snd (bind_unix demo_os demo_socket_env ''/run/s'' demo_socket_dir)"]) code_simp

theorem unix_parent_private_witness:
  "\<exists>md. os_fstat demo_os (p_directory (g_parent demo_guard)) = Inr md \<and> md_uid md = os_euid demo_os \<and> and (md_mode md) 0x3F = 0"
  using demo_binds unix_parent_private by metis

theorem unix_bind_all_or_nothing_witness:
  "owned (g_identity demo_guard) (snd (bind_unix demo_os demo_socket_env ''/run/s'' demo_socket_dir))"
proof -
  obtain s' where run: "bind_unix demo_os demo_socket_env ''/run/s'' demo_socket_dir = (Inr demo_guard, s')"
    using demo_binds by blast
  from unix_bind_all_or_nothing [OF demo_quiet(1) run] run show ?thesis by simp
qed

text \<open>A socket that another process has put in the place of the guard's own is kept.\<close>

theorem unix_drop_owned_witness:
  "sd_entry (guard_drop demo_socket_env demo_guard \<lparr>sd_entry = Some demo_socket, sd_calls = 12, sd_effects = []\<rparr>) = None \<and>
   sd_entry (guard_drop demo_socket_env (demo_guard\<lparr>g_identity := \<lparr>device = 1, inode = 9\<rparr>\<rparr>)
     \<lparr>sd_entry = Some demo_socket, sd_calls = 12, sd_effects = []\<rparr>) = Some demo_socket"
proof -
  have quiet: "se_others demo_socket_env (Suc (sd_calls s)) e = e" for s :: socket_dir and e by (simp add: demo_socket_env_def)
  show ?thesis
    using unix_drop_owned [OF quiet, where g = demo_guard and s = "\<lparr>sd_entry = Some demo_socket, sd_calls = 12, sd_effects = []\<rparr>"]
      unix_drop_owned [OF quiet, where g = "demo_guard\<lparr>g_identity := \<lparr>device = 1, inode = 9\<rparr>\<rparr>"
        and s = "\<lparr>sd_entry = Some demo_socket, sd_calls = 12, sd_effects = []\<rparr>"]
    by (simp add: demo_socket_env_def demo_socket_def demo_guard_def)
qed

end
