(* ===== verification/Dns_Race.thy ===== *)
theory Dns_Race
  imports Config
begin

text \<open>
  The racing name resolver, \<open>src/dns.rs\<close>: two tiers, the system's resolver and a public one, built on
  first use and asked at the same time. The resolvers of \<open>iroh\<close> are parameters: building one, and
  the answer of a lookup with the moment it arrives, \<open>None\<close> when it never does. When both answers
  are there at the same moment, \<open>tokio::select!\<close> may take either, which an argument says.
\<close>

subsection \<open>The race\<close>

type_synonym 'a reply_at = "(nat \<times> 'a) option"

definition has_records :: "'e + 'v list \<Rightarrow> bool" where
  "has_records r = (case r of Inl _ \<Rightarrow> False | Inr values \<Rightarrow> values \<noteq> [])"

definition both_replies :: "'e + 'v list \<Rightarrow> 'e + 'v list \<Rightarrow> 'e + 'v list" where
  "both_replies sys pub =
     (if has_records sys then sys
      else case (sys, pub) of
        (_, Inr values) \<Rightarrow> Inr values
      | (Inr values, Inl _) \<Rightarrow> Inr values
      | (Inl e, Inl _) \<Rightarrow> Inl e)"

definition first_records :: "bool \<Rightarrow> ('e + 'v list) reply_at \<Rightarrow> ('e + 'v list) reply_at \<Rightarrow> ('e + 'v list) reply_at" where
  "first_records tie sys pub =
     (case (sys, pub) of
        (None, None) \<Rightarrow> None
      | (Some (t, a), None) \<Rightarrow> if has_records a then Some (t, a) else None
      | (None, Some (u, b)) \<Rightarrow> if has_records b then Some (u, b) else None
      | (Some (t, a), Some (u, b)) \<Rightarrow>
          if t < u \<or> t = u \<and> tie
          then if has_records a then Some (t, a) else Some (max t u, both_replies a b)
          else if has_records b then Some (u, b) else Some (max t u, both_replies a b))"

subsection \<open>The resolver\<close>

text \<open>The two cells that are filled once, shared by all clones of the resolver.\<close>

record ('b, 'r) racing_resolver =
  rr_system_builder :: 'b
  rr_public_builder :: 'b
  rr_system :: "'r option"
  rr_public :: "'r option"

definition racing_new :: "'b \<Rightarrow> 'b \<Rightarrow> ('b, 'r) racing_resolver" where
  "racing_new sys pub = \<lparr>rr_system_builder = sys, rr_public_builder = pub, rr_system = None, rr_public = None\<rparr>"

definition get_or_init :: "('b \<Rightarrow> 'r) \<Rightarrow> 'b \<Rightarrow> 'r option \<Rightarrow> 'r \<times> 'b list" where
  "get_or_init build b cell = (case cell of Some r \<Rightarrow> (r, []) | None \<Rightarrow> (build b, [b]))"

text \<open>The resolvers, and the builders that had to be run for them.\<close>

definition resolvers :: "('b \<Rightarrow> 'r) \<Rightarrow> ('b, 'r) racing_resolver \<Rightarrow> ('r \<times> 'r) \<times> 'b list \<times> ('b, 'r) racing_resolver" where
  "resolvers build rr =
     (let (s, sb) = get_or_init build (rr_system_builder rr) (rr_system rr);
          (p, pb) = get_or_init build (rr_public_builder rr) (rr_public rr)
      in ((s, p), sb @ pb, rr\<lparr>rr_system := Some s, rr_public := Some p\<rparr>))"

record ('r, 'e) dns_api =
  dns_ipv4 :: "'r \<Rightarrow> string \<Rightarrow> ('e + ip_addr list) reply_at"
  dns_ipv6 :: "'r \<Rightarrow> string \<Rightarrow> ('e + ip_addr list) reply_at"
  dns_txt :: "'r \<Rightarrow> string \<Rightarrow> ('e + string list) reply_at"

fun ipv4_of :: "ip_addr \<Rightarrow> u32 option" where
  "ipv4_of (V4 a) = Some a"
| "ipv4_of (V6 _) = None"

fun ipv6_of :: "ip_addr \<Rightarrow> 128 word option" where
  "ipv6_of (V6 a) = Some a"
| "ipv6_of (V4 _) = None"

definition map_reply :: "('v list \<Rightarrow> 'w list) \<Rightarrow> ('e + 'v list) reply_at \<Rightarrow> ('e + 'w list) reply_at" where
  "map_reply f = map_option (\<lambda>(t, r). (t, case r of Inl e \<Rightarrow> Inl e | Inr values \<Rightarrow> Inr (f values)))"

definition lookup_ipv4 ::
  "('b \<Rightarrow> 'r) \<Rightarrow> ('r, 'e) dns_api \<Rightarrow> bool \<Rightarrow> string \<Rightarrow> ('b, 'r) racing_resolver \<Rightarrow>
   ('e + u32 list) reply_at \<times> 'b list \<times> ('b, 'r) racing_resolver" where
  "lookup_ipv4 build api tie host rr =
     (case resolvers build rr of ((s, p), built, rr) \<Rightarrow>
        (map_reply (List.map_filter ipv4_of) (first_records tie (dns_ipv4 api s host) (dns_ipv4 api p host)), built, rr))"

definition lookup_ipv6 ::
  "('b \<Rightarrow> 'r) \<Rightarrow> ('r, 'e) dns_api \<Rightarrow> bool \<Rightarrow> string \<Rightarrow> ('b, 'r) racing_resolver \<Rightarrow>
   ('e + 128 word list) reply_at \<times> 'b list \<times> ('b, 'r) racing_resolver" where
  "lookup_ipv6 build api tie host rr =
     (case resolvers build rr of ((s, p), built, rr) \<Rightarrow>
        (map_reply (List.map_filter ipv6_of) (first_records tie (dns_ipv6 api s host) (dns_ipv6 api p host)), built, rr))"

definition lookup_txt ::
  "('b \<Rightarrow> 'r) \<Rightarrow> ('r, 'e) dns_api \<Rightarrow> bool \<Rightarrow> string \<Rightarrow> ('b, 'r) racing_resolver \<Rightarrow>
   ('e + string list) reply_at \<times> 'b list \<times> ('b, 'r) racing_resolver" where
  "lookup_txt build api tie host rr =
     (case resolvers build rr of ((s, p), built, rr) \<Rightarrow>
        (first_records tie (dns_txt api s host) (dns_txt api p host), built, rr))"

text \<open>The resolvers whose caches are cleared; a reset starts again without building anything.\<close>

definition clear_cache :: "('b, 'r) racing_resolver \<Rightarrow> 'r list" where
  "clear_cache rr =
     (case rr_system rr of None \<Rightarrow> [] | Some s \<Rightarrow> [s]) @ (case rr_public rr of None \<Rightarrow> [] | Some p \<Rightarrow> [p])"

definition dns_reset :: "('b, 'r) racing_resolver \<Rightarrow> ('b, 'r) racing_resolver" where
  "dns_reset rr = racing_new (rr_system_builder rr) (rr_public_builder rr)"

subsection \<open>The contract of the race\<close>

text \<open>
  The earliest of the tiers that have records answers, at the moment it has them. Without records
  the answer waits for both: an empty answer when a tier gave one, and the system's error otherwise.
\<close>

definition with_records :: "('e + 'v list) reply_at \<Rightarrow> ('e + 'v list) reply_at" where
  "with_records r = (case r of None \<Rightarrow> None | Some (t, a) \<Rightarrow> if has_records a then Some (t, a) else None)"

definition race_contract ::
  "bool \<Rightarrow> ('e + 'v list) reply_at \<Rightarrow> ('e + 'v list) reply_at \<Rightarrow> ('e + 'v list) reply_at" where
  "race_contract tie sys pub =
     (case (with_records sys, with_records pub) of
        (Some (t, a), Some (u, b)) \<Rightarrow> if t < u \<or> t = u \<and> tie then Some (t, a) else Some (u, b)
      | (Some (t, a), None) \<Rightarrow> Some (t, a)
      | (None, Some (u, b)) \<Rightarrow> Some (u, b)
      | (None, None) \<Rightarrow>
          (case (sys, pub) of
             (Some (t, Inl e), Some (u, Inl _)) \<Rightarrow> Some (max t u, Inl e)
           | (Some (t, _), Some (u, _)) \<Rightarrow> Some (max t u, Inr [])
           | _ \<Rightarrow> None))"

lemma has_records_simps [simp]: "has_records (Inl e) = False" "has_records (Inr values) = (values \<noteq> [])"
  by (simp_all add: has_records_def)

lemma both_replies_simps [simp]:
  "has_records a \<Longrightarrow> both_replies a b = a"
  "\<not> has_records a \<Longrightarrow> has_records b \<Longrightarrow> both_replies a b = b"
  "both_replies (Inl e) (Inl e') = Inl e"
  "both_replies (Inl e) (Inr []) = Inr []"
  "both_replies (Inr []) b = (if has_records b then b else Inr [])"
  by (auto simp: both_replies_def has_records_def split: sum.splits)

text \<open>
  C29. The race of the two resolvers keeps its contract, whatever the order and the moments of the
  answers: the first tier that has records decides and is not delayed by the other, an empty answer
  or an error of one tier never hides records of the other, and when no tier has records the
  outcome does not depend on timing, with the system's error reported when both fail.
\<close>

theorem race_keeps_contract: "first_records tie sys pub = race_contract tie sys pub"
proof (cases "sys"; cases "pub")
  fix x y assume s: "sys = Some x" "pub = Some y"
  obtain t a u b where xy: "x = (t, a)" "y = (u, b)" by (cases x, cases y)
  show ?thesis
  proof (cases "has_records a \<or> has_records b")
    case True
    with s xy show ?thesis by (auto simp: first_records_def race_contract_def with_records_def max_def)
  next
    case False
    with s xy show ?thesis
      by (cases a; cases b) (auto simp: first_records_def race_contract_def with_records_def)
  qed
qed (auto simp: first_records_def race_contract_def with_records_def has_records_def split: sum.splits)

subsection \<open>Building on first use\<close>

datatype dns_action = LookupIpv4 string bool | LookupIpv6 string bool | LookupTxt string bool | ClearCache

definition dns_step :: "('b \<Rightarrow> 'r) \<Rightarrow> ('r, 'e) dns_api \<Rightarrow> dns_action \<Rightarrow> ('b, 'r) racing_resolver \<Rightarrow> 'b list \<times> ('b, 'r) racing_resolver" where
  "dns_step build api a rr =
     (case a of
        LookupIpv4 host tie \<Rightarrow> snd (lookup_ipv4 build api tie host rr)
      | LookupIpv6 host tie \<Rightarrow> snd (lookup_ipv6 build api tie host rr)
      | LookupTxt host tie \<Rightarrow> snd (lookup_txt build api tie host rr)
      | ClearCache \<Rightarrow> ([], rr))"

fun dns_run :: "('b \<Rightarrow> 'r) \<Rightarrow> ('r, 'e) dns_api \<Rightarrow> dns_action list \<Rightarrow> ('b, 'r) racing_resolver \<Rightarrow> 'b list \<times> ('b, 'r) racing_resolver" where
  "dns_run build api [] rr = ([], rr)"
| "dns_run build api (a # as) rr =
     (case dns_step build api a rr of (built, rr) \<Rightarrow> case dns_run build api as rr of (more_built, rr) \<Rightarrow> (built @ more_built, rr))"

lemma dns_step_eq:
  "dns_step build api a rr = (if a = ClearCache then ([], rr) else snd (resolvers build rr))"
  by (cases a) (auto simp: dns_step_def lookup_ipv4_def lookup_ipv6_def lookup_txt_def split: prod.splits)

definition dns_built :: "('b \<Rightarrow> 'r) \<Rightarrow> ('b, 'r) racing_resolver \<Rightarrow> ('b, 'r) racing_resolver" where
  "dns_built build rr = rr\<lparr>rr_system := Some (build (rr_system_builder rr)), rr_public := Some (build (rr_public_builder rr))\<rparr>"

lemma resolvers_built: "resolvers build (dns_built build rr) =
    ((build (rr_system_builder rr), build (rr_public_builder rr)), [], dns_built build rr)"
  by (simp add: resolvers_def get_or_init_def dns_built_def)

lemma dns_run_built: "dns_run build api as (dns_built build rr) = ([], dns_built build rr)"
  by (induction as) (auto simp: dns_step_eq resolvers_built)

text \<open>
  A resolver is built on first use and only then: over any sequence of lookups and cache
  clearings nothing is built before the first lookup, that lookup builds each tier once, and
  afterwards every operation uses those two; a reset goes back to the state before.
\<close>

theorem resolvers_built_once:
  "dns_run build api as (dns_reset rr) =
    (if list_all ((=) ClearCache) as then ([], dns_reset rr)
     else ([rr_system_builder rr, rr_public_builder rr], dns_built build (dns_reset rr)))"
proof (induction as)
  case (Cons a as)
  show ?case
  proof (cases "a = ClearCache")
    case True
    with Cons show ?thesis by (auto simp: dns_step_eq split: prod.splits)
  next
    case False
    have "snd (resolvers build (dns_reset rr)) = ([rr_system_builder rr, rr_public_builder rr], dns_built build (dns_reset rr))"
      by (simp add: resolvers_def get_or_init_def dns_reset_def racing_new_def dns_built_def)
    with False show ?thesis by (auto simp: dns_step_eq dns_run_built)
  qed
qed simp

end
