(* ===== verification/Mobile_Api.thy ===== *)
theory Mobile_Api
  imports Native_Client
begin

text \<open>
  The Rust half of the Flutter package, \<open>packages/locho_flutter/rust/src/api/simple.rs\<close>: tickets,
  clients and attachments as a Dart program sees them, with every error reduced to a code. It runs on
  the native client, whose \<open>start\<close> is composed here from its parts. Besides the parameters of those,
  the socket address parser and the outcome of building the shared runtime, which is built once and
  whose result is kept, are parameters. The generated bridge is not modelled.
\<close>

subsection \<open>Starting an attachment of the native client\<close>

text \<open>
  What happens to one attachment: how the setup ends, if it is cut off, the first status of the
  peer, the events, and the end. The caller is answered with the first reply; a start that fails
  waits until the attachment is closed and gone from the registry.
\<close>

record 'u attachment_life =
  al_cut :: "'u setup_outcome option"
  al_first :: session_status
  al_events :: "loop_event list"
  al_close :: "session_error + unit"
  al_in_time :: bool

definition client_start ::
  "bool \<Rightarrow> duration \<Rightarrow> bool \<Rightarrow> (client_error + socket_addr \<times> 'u list \<times> capability) \<Rightarrow> 'u attachment_life \<Rightarrow> registry \<Rightarrow>
   (client_error + nat \<times> socket_addr) \<times> registry" where
  "client_start waits_connected budget runtime setup_result life g =
     (case register_attachment runtime budget g of
        (Inl e, g) \<Rightarrow> (Inl e, g)
      | (Inr key, g) \<Rightarrow>
          (let a = run_attachment waits_connected (case al_cut life of None \<Rightarrow> SetupDone setup_result | Some early \<Rightarrow> early)
                    (al_first life) (al_events life) (al_close life) (al_in_time life)
           in (case ar_replies a of
                 Inr addr # _ \<Rightarrow> (Inr (key, addr), g)
               | Inl e # _ \<Rightarrow> (Inl e, completion_drop key (ar_status a) g)
               | [] \<Rightarrow> (Inl ClTaskFailed, completion_drop key (ar_status a) g))))"

subsection \<open>Codes and texts\<close>

fun mobile_error :: "client_error \<Rightarrow> string" where
  "mobile_error ClClosed = ''closed''"
| "mobile_error ClCancelled = ''cancelled''"
| "mobile_error ClInvalidHostId = ''invalidHostId''"
| "mobile_error (ClInvalidCapability _) = ''invalidCapability''"
| "mobile_error ClUnsupportedService = ''unsupportedService''"
| "mobile_error ClInvalidDirectAddress = ''invalidDirectAddress''"
| "mobile_error ClInvalidPeerRelay = ''invalidPeerRelay''"
| "mobile_error ClInvalidTimeout = ''invalidTimeout''"
| "mobile_error ClStartupTimeout = ''startupTimeout''"
| "mobile_error ClListenerBind = ''listenerBind''"
| "mobile_error ClEndpointBind = ''endpointBind''"
| "mobile_error ClShutdownTimeout = ''shutdownTimeout''"
| "mobile_error (ClPeer _) = ''peer''"
| "mobile_error _ = ''internal''"

fun state_debug :: "session_state \<Rightarrow> string" where
  "state_debug Starting = ''Starting''"
| "state_debug Connecting = ''Connecting''"
| "state_debug Connected = ''Connected''"
| "state_debug Reconnecting = ''Reconnecting''"
| "state_debug Failed = ''Failed''"
| "state_debug Closing = ''Closing''"
| "state_debug Closed = ''Closed''"

fun path_debug :: "transport_path \<Rightarrow> string" where
  "path_debug PathUnknown = ''Unknown''"
| "path_debug PathDirect = ''Direct''"
| "path_debug PathRelay = ''Relay''"
| "path_debug PathMixed = ''Mixed''"

subsection \<open>Tickets\<close>

record mobile_ticket =
  tm_host_id :: string
  tm_service :: string
  tm_service_type :: string
  tm_peer_relay_urls :: "string list"

record 'u mobile_env =
  mb_urls :: "'u url_api"
  mb_payloads :: "payload codec"
  mb_base64 :: base64_api
  mb_parse_addr :: "string \<Rightarrow> socket_addr option"
  mb_runtime :: bool
  mb_android_ready :: bool

definition parse_native_ticket :: "'u mobile_env \<Rightarrow> string \<Rightarrow> string + ticket" where
  "parse_native_ticket env txt =
     map_err (\<lambda>_. ''invalidTicket'') (ticket_parse (mb_urls env) (mb_payloads env) (mb_base64 env) txt)"

definition native_metadata :: "ticket \<Rightarrow> mobile_ticket" where
  "native_metadata t = \<lparr>tm_host_id = t_host_id t, tm_service = cap_service (t_capability t),
     tm_service_type = service_type_as_str (cap_service_type (t_capability t)), tm_peer_relay_urls = t_peer_relay_urls t\<rparr>"

definition native_export :: "'u mobile_env \<Rightarrow> ticket \<Rightarrow> string + string" where
  "native_export env t = map_err (\<lambda>_. ''invalidTicket'') (ticket_encode (mb_payloads env) (mb_base64 env) t)"

subsection \<open>Status\<close>

record native_status =
  ns_revision :: nat
  ns_state :: string
  ns_path :: string
  ns_local_port :: u16
  ns_error_code :: "string option"
  ns_connection_error_code :: "string option"

definition mobile_status :: "socket_addr \<Rightarrow> attachment_status \<Rightarrow> native_status" where
  "mobile_status addr s =
     \<lparr>ns_revision = as_revision s, ns_state = to_ascii_lowercase (state_debug (as_state s)),
      ns_path = to_ascii_lowercase (path_debug (as_path s)), ns_local_port = sa_port addr,
      ns_error_code = map_option mobile_error (as_terminal_error s),
      ns_connection_error_code = map_option (\<lambda>_. ''peer'') (Option.bind (as_peer s) last_error)\<rparr>"

subsection \<open>Clients and attachments\<close>

definition with_runtime :: "'u mobile_env \<Rightarrow> string + unit" where
  "with_runtime env = (if mb_runtime env then Inr () else Inl ''runtime'')"

text \<open>On Android the Java context has to be there first; elsewhere \<open>mb_android_ready\<close> is true.\<close>

definition create_client :: "'u mobile_env \<Rightarrow> string + registry" where
  "create_client env =
     (if \<not> mb_android_ready env then Inl ''androidContext''
      else res_bind (with_runtime env) (\<lambda>_. Inr registry_new))"

definition mobile_options ::
  "'u mobile_env \<Rightarrow> string \<Rightarrow> string \<Rightarrow> u16 \<Rightarrow> string option \<Rightarrow> string option \<Rightarrow> string + 'u tcp_options" where
  "mobile_options env host_id cap local_port direct_address ticket =
     res_bind
       (case ticket of
          Some txt \<Rightarrow>
            if host_id \<noteq> [] \<or> cap \<noteq> [] then Inl ''conflictingOptions''
            else
              res_bind (parse_native_ticket env txt) (\<lambda>t. map_err mobile_error (tcp_options_from_ticket t))
        | None \<Rightarrow> Inr (tcp_options_new host_id cap)) (\<lambda>options.
     res_bind
       (case direct_address of
          None \<Rightarrow> Inr None
        | Some txt \<Rightarrow> res_bind (ok_or ''invalidDirectAddress'' (mb_parse_addr env txt)) (\<lambda>a. Inr (Some a))) (\<lambda>direct.
     Inr (options\<lparr>to_local_port := local_port, to_direct_address := direct\<rparr>)))"

text \<open>The spawned call; \<open>joins\<close> is whether its task ended without a panic.\<close>

definition spawned :: "bool \<Rightarrow> client_error + 'a \<Rightarrow> string + 'a" where
  "spawned joins r = (if joins then map_err mobile_error r else Inl ''internal'')"

definition mobile_start ::
  "'u mobile_env \<Rightarrow> ('u tcp_options \<Rightarrow> client_error + socket_addr \<times> 'u list \<times> capability) \<Rightarrow> 'u attachment_life \<Rightarrow> bool \<Rightarrow>
   string \<Rightarrow> string \<Rightarrow> u16 \<Rightarrow> string option \<Rightarrow> string option \<Rightarrow> registry \<Rightarrow> (string + nat \<times> socket_addr) \<times> registry" where
  "mobile_start env setup_of life joins host_id cap local_port direct_address ticket g =
     (case res_bind (mobile_options env host_id cap local_port direct_address ticket) (\<lambda>options.
             res_bind (with_runtime env) (\<lambda>_. Inr options)) of
        Inl e \<Rightarrow> (Inl e, g)
      | Inr options \<Rightarrow>
          (case client_start False (from_secs 15) True (setup_of options) life g of (r, g) \<Rightarrow> (spawned joins r, g)))"

definition mobile_close :: "'u mobile_env \<Rightarrow> bool \<Rightarrow> (client_error + unit) list \<Rightarrow> bool \<Rightarrow> registry \<Rightarrow> (string + unit) \<times> registry" where
  "mobile_close env joins waited in_time g =
     (case with_runtime env of
        Inl e \<Rightarrow> (Inl e, g)
      | Inr _ \<Rightarrow>
          (case close_end waited in_time (snd (close_begin g)) of (r, g) \<Rightarrow> (spawned joins r, g)))"

definition mobile_wait_connected :: "'u mobile_env \<Rightarrow> bool \<Rightarrow> (bool \<times> attachment_status) list \<Rightarrow> string + unit" where
  "mobile_wait_connected env joins seen =
     res_bind (with_runtime env) (\<lambda>_. spawned joins (attachment_wait_connected seen))"

definition mobile_attachment_close :: "'u mobile_env \<Rightarrow> bool \<Rightarrow> attachment_status list \<Rightarrow> string + unit" where
  "mobile_attachment_close env joins seen =
     res_bind (with_runtime env) (\<lambda>_. spawned joins (wait_closed seen))"

text \<open>
  One long poll: the status at the subscription, the updates of the next second, of which the first
  ends the wait, and those between that and the final look at the status.
\<close>

definition mobile_next_status ::
  "'u mobile_env \<Rightarrow> bool \<Rightarrow> socket_addr \<Rightarrow> nat \<Rightarrow> status_action list \<Rightarrow> status_action list \<Rightarrow> attachment_status \<Rightarrow>
   string + native_status" where
  "mobile_next_status env joins addr seen_revision waited later s =
     res_bind (with_runtime env) (\<lambda>_.
     if \<not> joins then Inl ''internal''
     else if as_revision s = seen_revision then Inr (mobile_status addr (run_steps status_step (waited @ later) s))
     else Inr (mobile_status addr (run_steps status_step later s)))"

subsection \<open>The Android context\<close>

text \<open>
  \<open>initializeContext\<close>, called by the Java side: whether the lock could be taken, the certificate
  verifier accepted the environment, the virtual machine was found, and the new global reference. It
  returns the answer to Java, the reference that was installed for name lookups, and the context kept
  for the life of the process.
\<close>

definition initialize_context :: "bool \<Rightarrow> bool \<Rightarrow> bool \<Rightarrow> nat option \<Rightarrow> nat option \<Rightarrow> u8 \<times> nat list \<times> nat option" where
  "initialize_context lock_ok verified vm_found global ctx =
     (if \<not> lock_ok then (0, [], ctx)
      else if ctx \<noteq> None then (1, [], ctx)
      else if \<not> verified \<or> \<not> vm_found then (0, [], ctx)
      else case global of None \<Rightarrow> (0, [], ctx) | Some r \<Rightarrow> (1, [r], Some r))"

fun initialize_all :: "(bool \<times> bool \<times> bool \<times> nat option) list \<Rightarrow> nat option \<Rightarrow> nat list \<times> nat option" where
  "initialize_all [] ctx = ([], ctx)"
| "initialize_all ((l, v, m, r) # calls) ctx =
     (case initialize_context l v m r ctx of (_, installed, ctx) \<Rightarrow>
        (case initialize_all calls ctx of (others, ctx) \<Rightarrow> (installed @ others, ctx)))"

lemma initialize_all_kept: "initialize_all calls (Some r) = ([], Some r)"
  by (induction calls) (auto simp: initialize_context_def)

lemma initialize_first:
  "initialize_context l v m r None = (0, [], None) \<or> (\<exists>x. initialize_context l v m r None = (1, [x], Some x))"
  by (cases r) (auto simp: initialize_context_def)

lemma initialize_all_installed:
  "case initialize_all calls None of (installed, ctx) \<Rightarrow> installed = (case ctx of None \<Rightarrow> [] | Some r \<Rightarrow> [r])"
proof (induction calls)
  case (Cons c calls)
  obtain l v m r where c: "c = (l, v, m, r)" by (cases c)
  from initialize_first [of l v m r] show ?case
  proof
    assume "initialize_context l v m r None = (0, [], None)"
    with Cons c show ?thesis by (simp split: prod.splits)
  next
    assume "\<exists>x. initialize_context l v m r None = (1, [x], Some x)"
    with c show ?thesis by (auto simp: initialize_all_kept)
  qed
qed simp

lemma initialize_context_answer:
  "case initialize_context l v m r ctx of (answer, _, ctx') \<Rightarrow> if answer = 1 then ctx' \<noteq> None else ctx' = ctx"
  by (cases ctx; cases r) (simp_all add: initialize_context_def)

subsection \<open>Properties\<close>

text \<open>
  A client started from a ticket uses what the ticket says and nothing else: a ticket text that
  parses gives the options of exactly its host, its capability and its relay hints, with the port
  of the call, and is refused only for a service that is not TCP; host or capability beside a
  ticket are always refused, and a text that does not parse never starts anything.
\<close>

theorem mobile_ticket_options:
  "mobile_options env host_id cap port None (Some txt) =
     (if host_id \<noteq> [] \<or> cap \<noteq> [] then Inl ''conflictingOptions''
      else case ticket_parse (mb_urls env) (mb_payloads env) (mb_base64 env) txt of
        Inl _ \<Rightarrow> Inl ''invalidTicket''
      | Inr t \<Rightarrow>
          if cap_service_type (t_capability t) \<noteq> Tcp then Inl ''unsupportedService''
          else Inr \<lparr>to_host_id = t_host_id t, to_capability = capability_text (t_capability t), to_local_port = port,
                    to_direct_address = None, to_peer_relay_urls = t_peer_relay_urls t, to_relay_settings = None\<rparr>)"
  by (cases "ticket_parse (mb_urls env) (mb_payloads env) (mb_base64 env) txt")
    (auto simp: mobile_options_def parse_native_ticket_def tcp_options_from_ticket_def tcp_options_new_def capability_text_def Let_def)

lemma run_replies:
  "\<exists>x. ar_replies (run_attachment waits setup_result first evs close_result in_time) = [x]"
  using run_attachment_outcome [of waits setup_result first evs close_result in_time] by (auto simp: Let_def)

lemma completion_drop_attachments: "reg_attachments (completion_drop key s g) = removeAll key (reg_attachments g)"
  by (auto simp: completion_drop_def Let_def split: option.split)

text \<open>What a start does to the registry.\<close>

lemma client_start_registry:
  assumes inv: "registry_inv g" and run: "client_start waits budget runtime setup_result life g = (r, g')"
  shows "case r of
      Inr (key, addr) \<Rightarrow> reg_attachments g' = key # reg_attachments g \<and> key \<notin> set (reg_attachments g) \<and> \<not> reg_closed g
    | Inl _ \<Rightarrow> reg_attachments g' = reg_attachments g"
proof (cases "fst (register_attachment runtime budget g)")
  case (Inl e)
  with run show ?thesis
    by (auto simp: client_start_def register_attachment_def Let_def split: if_splits)
next
  case (Inr key)
  then have g1: "register_attachment runtime budget g =
      (Inr key, g\<lparr>reg_next := key, reg_attachments := key # reg_attachments g\<rparr>)" "key = reg_next g + 1" "\<not> reg_closed g"
    by (auto simp: register_attachment_def Let_def split: if_splits)
  from inv g1(2) have fresh: "key \<notin> set (reg_attachments g)" by (auto simp: registry_inv_def)
  obtain x where x: "ar_replies (run_attachment waits (case al_cut life of None \<Rightarrow> SetupDone setup_result | Some early \<Rightarrow> early)
      (al_first life) (al_events life) (al_close life) (al_in_time life)) = [x]"
    using run_replies by blast
  from run g1(1) x fresh g1(3) show ?thesis
    by (cases x) (auto simp: client_start_def Let_def completion_drop_attachments)
qed

text \<open>
  Starting from Dart leaves nothing behind on failure: in every reachable state of a client, a
  start whose task ends regularly either returns an attachment that is registered under a new
  identifier, which only an open client does, or an error, and then the registered attachments are
  the ones before.
\<close>

theorem mobile_start_all_or_nothing:
  assumes reach: "reach registry_new registry_step g"
    and run: "mobile_start env setup_of life True host_id cap port direct ticket g = (r, g')"
  shows "case r of
      Inr (key, addr) \<Rightarrow> reg_attachments g' = key # reg_attachments g \<and> key \<notin> set (reg_attachments g) \<and> \<not> reg_closed g
    | Inl _ \<Rightarrow> reg_attachments g' = reg_attachments g"
proof (cases "res_bind (mobile_options env host_id cap port direct ticket) (\<lambda>options. res_bind (with_runtime env) (\<lambda>_. Inr options))")
  case (Inl e)
  with run show ?thesis by (auto simp: mobile_start_def)
next
  case (Inr options)
  obtain r0 g0 where c: "client_start False (from_secs 15) True (setup_of options) life g = (r0, g0)" by fastforce
  have "registry_inv g" by (rule regs.reach_inv) (rule reach)
  from client_start_registry [OF this c] c run Inr show ?thesis
    by (cases r0) (auto simp: mobile_start_def spawned_def)
qed

text \<open>
  A Dart program that polls with the last revision it has seen misses nothing: when a poll
  returns that same revision, the attachment has not changed in between, and any other answer
  carries a later revision.
\<close>

theorem mobile_poll_misses_nothing:
  assumes "mobile_next_status env joins addr (as_revision s) waited later (run_steps status_step before s) = Inr n"
  shows "if ns_revision n = as_revision s then n = mobile_status addr s else as_revision s < ns_revision n"
proof -
  obtain as where n: "n = mobile_status addr (run_steps status_step as s)"
  proof (cases "as_revision (run_steps status_step before s) = as_revision s")
    case True
    with assms that [of "before @ waited @ later"] show thesis
      by (auto simp: mobile_next_status_def with_runtime_def run_steps_append split: if_splits)
  next
    case False
    with assms that [of "before @ later"] show thesis
      by (auto simp: mobile_next_status_def with_runtime_def run_steps_append split: if_splits)
  qed
  from att_rev.run_revision [of as s] n show ?thesis by (auto simp: mobile_status_def)
qed

text \<open>
  The Android context is installed at most once: over any calls of the initializer, exactly the
  reference that is kept has been installed, and a call that answers 1 leaves a context behind.
\<close>

theorem android_context_once:
  "(case initialize_all calls None of (installed, ctx) \<Rightarrow> installed = (case ctx of None \<Rightarrow> [] | Some r \<Rightarrow> [r])) \<and>
   (case initialize_context l v m r ctx of (answer, _, ctx') \<Rightarrow> if answer = 1 then ctx' \<noteq> None else ctx' = ctx)"
  by (rule conjI [OF initialize_all_installed initialize_context_answer])

subsection \<open>Witnesses\<close>

definition demo_mobile :: "simple_url mobile_env" where
  "demo_mobile = \<lparr>mb_urls = simple_urls, mb_payloads = sample_payloads, mb_base64 = plain_base64, mb_parse_addr = (\<lambda>_. None),
     mb_runtime = True, mb_android_ready = True\<rparr>"

definition demo_addr :: socket_addr where
  "demo_addr = \<lparr>sa_ip = V4 0x7F000001, sa_port = 8765\<rparr>"

definition demo_life :: "simple_url attachment_life" where
  "demo_life = \<lparr>al_cut = None, al_first = default_status, al_events = [], al_close = Inr (), al_in_time = True\<rparr>"

theorem mobile_start_all_or_nothing_witness:
  "case mobile_start demo_mobile (\<lambda>_. Inr (demo_addr, [], \<lparr>cap_service = ''db'', cap_service_type = Tcp, cap_secret = ''k''\<rparr>)) demo_life True
      ''h'' ''db:tcp:k'' 8765 None None registry_new of
     (r, g') \<Rightarrow> r = Inr (1, demo_addr) \<and> reg_attachments g' = [1]"
proof -
  obtain r g' where run: "mobile_start demo_mobile (\<lambda>_. Inr (demo_addr, [], \<lparr>cap_service = ''db'', cap_service_type = Tcp, cap_secret = ''k''\<rparr>))
      demo_life True ''h'' ''db:tcp:k'' 8765 None None registry_new = (r, g')" by fastforce
  then have "r = Inr (1, demo_addr)"
    by (auto simp: mobile_start_def mobile_options_def with_runtime_def demo_mobile_def client_start_def register_attachment_def
        registry_new_def from_secs_def demo_life_def run_attachment_def attach_loop_def turn_def attach_finish_def default_status_def
        spawned_def Let_def)
  with mobile_start_all_or_nothing [OF reach.reach_init run] run show ?thesis by (simp add: registry_new_def)
qed

theorem mobile_poll_misses_nothing_witness:
  "mobile_next_status demo_mobile True demo_addr 0 [BoundAction demo_addr] [] control_new = Inr (mobile_status demo_addr (publish_bound demo_addr control_new)) \<and>
   0 < ns_revision (mobile_status demo_addr (publish_bound demo_addr control_new))"
proof -
  have run: "mobile_next_status demo_mobile True demo_addr (as_revision control_new) [BoundAction demo_addr] [] (run_steps status_step [] control_new) =
      Inr (mobile_status demo_addr (publish_bound demo_addr control_new))"
    by (simp add: mobile_next_status_def with_runtime_def demo_mobile_def)
  from mobile_poll_misses_nothing [OF run] run show ?thesis
    by (simp add: mobile_status_def publish_bound_def control_new_def split: if_splits)
qed

end
