(* ===== verification/Tasks.thy ===== *)
theory Tasks
  imports Prelude
begin

text \<open>
  Reaping of finished tasks, \<open>src/task.rs\<close>. A \<open>JoinSet\<close> is the results of the tasks that have
  finished and not been joined, in the order they are handed out, and the number of running ones;
  a task ends with its value or with a panic. What is logged are the errors, in order.
\<close>

datatype 'a task_end = TaskReturned 'a | TaskPanicked string

datatype task_log = LogFailed string | LogPanicked string

record 'a join_set =
  js_finished :: "'a task_end list"
  js_running :: nat

definition try_join_next :: "'a join_set \<Rightarrow> ('a task_end \<times> 'a join_set) option" where
  "try_join_next js = (case js_finished js of [] \<Rightarrow> None | r # rs \<Rightarrow> Some (r, js\<lparr>js_finished := rs\<rparr>))"

definition log_panic :: "'a task_end \<Rightarrow> task_log list" where
  "log_panic r = (case r of TaskReturned _ \<Rightarrow> [] | TaskPanicked e \<Rightarrow> [LogFailed e])"

definition log_result :: "(string + unit) task_end \<Rightarrow> task_log list" where
  "log_result r =
     (case r of
        TaskReturned (Inr _) \<Rightarrow> []
      | TaskReturned (Inl e) \<Rightarrow> [LogFailed e]
      | TaskPanicked e \<Rightarrow> [LogPanicked e])"

text \<open>The loop of both reapers, with what each logs of a result.\<close>

function reap :: "('a task_end \<Rightarrow> task_log list) \<Rightarrow> nat \<Rightarrow> 'a join_set \<Rightarrow> nat \<times> task_log list \<times> 'a join_set" where
  "reap log reaped js =
     (case try_join_next js of
        None \<Rightarrow> (reaped, [], js)
      | Some (r, js') \<Rightarrow> (case reap log (reaped + 1) js' of (n, logged, js'') \<Rightarrow> (n, log r @ logged, js'')))"
  by pat_completeness auto

termination
  by (relation "measure (\<lambda>(_, _, js). length (js_finished js))") (auto simp: try_join_next_def split: list.splits)

declare reap.simps [simp del]

definition reap_finished :: "'a join_set \<Rightarrow> nat \<times> task_log list \<times> 'a join_set" where
  "reap_finished js = reap log_panic 0 js"

definition reap_finished_results :: "(string + unit) join_set \<Rightarrow> nat \<times> task_log list \<times> (string + unit) join_set" where
  "reap_finished_results js = reap log_result 0 js"

lemma reap_exact: "reap log n js = (n + length (js_finished js), concat (map log (js_finished js)), js\<lparr>js_finished := []\<rparr>)"
proof (induction "js_finished js" arbitrary: n js)
  case Nil
  then have "js_finished js = []" by simp
  then have "js\<lparr>js_finished := []\<rparr> = js" by (cases js) simp
  with Nil show ?case by (subst reap.simps) (simp add: try_join_next_def)
next
  case (Cons r rs)
  let ?js = "js\<lparr>js_finished := rs\<rparr>"
  from Cons(2) [symmetric] have "try_join_next js = Some (r, ?js)" by (simp add: try_join_next_def)
  moreover from Cons(1) [of ?js "n + 1"] have "reap log (n + 1) ?js = (n + 1 + length rs, concat (map log rs), ?js\<lparr>js_finished := []\<rparr>)"
    by simp
  ultimately show ?case using Cons(2) [symmetric] by (subst reap.simps) simp
qed

text \<open>
  Reaping joins exactly the finished tasks: the count is their number, every failure among them
  is logged once and in order, none is left behind, and the running tasks are not waited for.
\<close>

theorem reap_finished_exact:
  "reap_finished_results js =
     (length (js_finished js), concat (map log_result (js_finished js)), \<lparr>js_finished = [], js_running = js_running js\<rparr>) \<and>
   fst (reap_finished js) = length (js_finished js)"
  by (cases js) (simp add: reap_finished_results_def reap_finished_def reap_exact)

end
