(* ===== verification/Listeners.thy ===== *)
theory Listeners
  imports Session_Client Idle_Relay
begin

text \<open>
  Local listeners: the retry of \<open>accept\<close> (\<open>crates/locho-client-native/src/listener.rs\<close>), the
  admission of local connections under the per-listener and the global limit and the forwarding
  of one connection (\<open>crates/locho-client-native/src/forward.rs\<close>, and \<open>run_http_listener\<close> of
  \<open>src/attach.rs\<close>, which admits the same way).
\<close>

subsection \<open>Accepting\<close>

datatype io_kind = Interrupted | ConnectionAborted | ConnectionReset | WouldBlock | OtherKind

record io_error =
  io_kind_of :: io_kind
  raw_os_error :: "nat option"

definition EMFILE :: nat where "EMFILE = 24"
definition ENFILE :: nat where "ENFILE = 23"
definition ENOBUFS :: nat where "ENOBUFS = 105"
definition ENOMEM :: nat where "ENOMEM = 12"

definition retryable :: "io_error \<Rightarrow> bool" where
  "retryable e =
     (if io_kind_of e \<in> {Interrupted, ConnectionAborted, ConnectionReset, WouldBlock} then True
      else raw_os_error e \<in> {Some EMFILE, Some ENFILE, Some ENOBUFS, Some ENOMEM})"

record accept_retry =
  retry_delay :: duration
  next_attempt :: "nat option"

definition accept_retry_default :: accept_retry where
  "accept_retry_default = \<lparr>retry_delay = from_millis 100, next_attempt = None\<rparr>"

text \<open>
  What the loop meets, in order: the shutdown token (while it waits for the next attempt or for a
  connection), or a result of \<open>accept\<close> at a time.
\<close>

datatype accept_event = AcceptCancelled | Accepted nat | AcceptFailed io_error nat

datatype accept_result = AcceptPending | AcceptNone | AcceptSome nat | AcceptError io_error

fun accept_loop :: "accept_event list \<Rightarrow> accept_retry \<Rightarrow> accept_result \<times> accept_retry" where
  "accept_loop [] a = (AcceptPending, a)"
| "accept_loop (AcceptCancelled # evs) a = (AcceptNone, a)"
| "accept_loop (Accepted v # evs) a = (AcceptSome v, accept_retry_default)"
| "accept_loop (AcceptFailed e now # evs) a =
     (if retryable e
      then accept_loop evs \<lparr>retry_delay = min (retry_delay a * 2) (from_secs 1),
             next_attempt = Some (now + retry_delay a)\<rparr>
      else (AcceptError e, a))"

subsection \<open>Admission\<close>

text \<open>
  The listeners of one attachment share a semaphore of 512 and have one of 128 each; a local
  connection holds a permit of both until its task ends.
\<close>

definition MAX_TOTAL_CONNECTIONS :: nat where "MAX_TOTAL_CONNECTIONS = 512"

record admission =
  total_free :: nat
  local_used :: "nat list"

datatype admit_result = Admitted | LocalLimit | GlobalLimit

text \<open>The limit of one listener, for forwarded streams and for HTTP connections.\<close>

definition listener_limit :: "service_type \<Rightarrow> nat" where
  "listener_limit kind = (case kind of Tcp \<Rightarrow> MAX_TCP_CONNECTIONS | Http \<Rightarrow> MAX_HTTP_CONNECTIONS)"

definition admit :: "service_type \<Rightarrow> nat \<Rightarrow> admission \<Rightarrow> admit_result \<times> admission" where
  "admit kind i a =
     (if local_used a ! i \<ge> listener_limit kind then (LocalLimit, a)
      else if total_free a = 0 then (GlobalLimit, a)
      else (Admitted, a\<lparr>total_free := total_free a - 1, local_used := (local_used a)[i := local_used a ! i + 1]\<rparr>))"

definition connection_done :: "nat \<Rightarrow> admission \<Rightarrow> admission" where
  "connection_done i a =
     (if local_used a ! i = 0 then a
      else a\<lparr>total_free := total_free a + 1, local_used := (local_used a)[i := local_used a ! i - 1]\<rparr>)"

text \<open>The end of a listener: its remaining tasks are joined or aborted.\<close>

definition listener_stopped :: "nat \<Rightarrow> admission \<Rightarrow> admission" where
  "listener_stopped i a =
     a\<lparr>total_free := total_free a + local_used a ! i, local_used := (local_used a)[i := 0]\<rparr>"

datatype admission_action = Incoming service_type nat | ConnectionDone nat | ListenerStopped nat

fun admission_step :: "admission_action \<Rightarrow> admission \<Rightarrow> admission" where
  "admission_step (Incoming kind i) a = (if i < length (local_used a) then snd (admit kind i a) else a)"
| "admission_step (ConnectionDone i) a = (if i < length (local_used a) then connection_done i a else a)"
| "admission_step (ListenerStopped i) a = (if i < length (local_used a) then listener_stopped i a else a)"

definition admission_start :: "nat \<Rightarrow> admission" where
  "admission_start n = \<lparr>total_free = MAX_TOTAL_CONNECTIONS, local_used = replicate n 0\<rparr>"

subsection \<open>Forwarding one connection\<close>

text \<open>
  Waiting for a lease while watching the listener's shutdown token: each poll sees the session
  and whether the token is cancelled, which is looked at first.
\<close>

fun acquire_or_shutdown :: "(session \<times> bool) list \<Rightarrow> (session_error + lease) option" where
  "acquire_or_shutdown [] = Some (Inl (SessTimeout StageAcquire))"
| "acquire_or_shutdown ((s, cancelled) # polls) =
     (if cancelled then None
      else if shutdown s then Some (Inl SessClosed)
      else case connections s of
        Some (g, c) \<Rightarrow> Some (Inr \<lparr>lease_generation = g, lease_connection = c\<rparr>)
      | None \<Rightarrow> acquire_or_shutdown polls)"

datatype forward_result = ForwardStopped | ForwardUnavailable session_error | ForwardRefused session_error | Forwarded relay_result

definition forward_connection ::
  "crypto_api \<Rightarrow> stream_request_head codec \<Rightarrow> locho_response_head codec \<Rightarrow> capability \<Rightarrow>
   (session \<times> bool) list \<Rightarrow> (conn \<Rightarrow> (writer \<times> reader, unit) outcome) \<Rightarrow> (conn \<Rightarrow> bool) \<Rightarrow> interruption \<Rightarrow>
   relay_result \<Rightarrow> peer \<Rightarrow> forward_result \<times> peer" where
  "forward_connection cr reqc respc cap polls open_bi close_reason intr relayed p =
     (case acquire_or_shutdown polls of
        None \<Rightarrow> (ForwardStopped, p)
      | Some (Inl e) \<Rightarrow> (ForwardUnavailable e, p)
      | Some (Inr l) \<Rightarrow>
          (case lease_open_tcp cr reqc respc l cap (open_bi (lease_connection l))
                  (close_reason (lease_connection l)) intr p of
             (Inl e, _, p) \<Rightarrow> (ForwardRefused e, p)
           | (Inr st, _, p) \<Rightarrow>
               let p = snd (peer_drop_stream st p)
               in (Forwarded relayed,
                   if relayed = RelayStreams \<and> close_reason (lease_connection l)
                   then p\<lparr>peer_session := lease_invalidate l (peer_session p)\<rparr> else p)))"

subsection \<open>Lemmas\<close>

definition retry_ok :: "accept_retry \<Rightarrow> bool" where
  "retry_ok a \<longleftrightarrow> from_millis 100 \<le> retry_delay a \<and> retry_delay a \<le> from_secs 1"

lemma min_scaled: "0 < k \<Longrightarrow> min (min x c * k) c = min (x * k) (c :: nat)"
proof (cases "x \<le> c")
  case False
  assume k: "0 < k"
  then have "c \<le> c * k" "x \<le> x * k" by simp_all
  with False have "c \<le> c * k" "c \<le> x * k" by linarith+
  with False show ?thesis by simp
qed simp

lemma accept_loop_failures:
  "list_all (\<lambda>(e, _). retryable e) fs \<Longrightarrow> retry_delay a \<le> from_secs 1 \<Longrightarrow>
   accept_loop (map (\<lambda>(e, now). AcceptFailed e now) fs @ evs) a =
   accept_loop evs
     (if fs = [] then a
      else \<lparr>retry_delay = min (retry_delay a * 2 ^ length fs) (from_secs 1),
        next_attempt = Some (snd (last fs) + min (retry_delay a * 2 ^ (length fs - 1)) (from_secs 1))\<rparr>)"
proof (induction fs arbitrary: a)
  case Nil
  then show ?case by simp
next
  case (Cons f fs)
  obtain e now where f: "f = (e, now)" by force
  let ?a = "\<lparr>retry_delay = min (retry_delay a * 2) (from_secs 1), next_attempt = Some (now + retry_delay a)\<rparr>"
  have min2: "min (min (retry_delay a * 2) (from_secs 1) * k) (from_secs 1) = min (retry_delay a * 2 * k) (from_secs 1)"
    if "0 < k" for k :: nat
    using that by (rule min_scaled)
  have eq: "accept_loop (map (\<lambda>(e, now). AcceptFailed e now) (f # fs) @ evs) a =
      accept_loop (map (\<lambda>(e, now). AcceptFailed e now) fs @ evs) ?a"
    using Cons.prems f by simp
  show ?case
  proof (cases fs)
    case Nil
    then show ?thesis using eq f Cons.prems by (simp add: min_absorb1)
  next
    case (Cons g gs)
    then show ?thesis
      using eq Cons.IH [of ?a] Cons.prems(1) min2 [of "2 ^ length fs"] min2 [of "2 ^ (length fs - 1)"]
      by (simp add: mult.assoc)
  qed
qed

definition admission_inv :: "admission \<Rightarrow> bool" where
  "admission_inv a \<longleftrightarrow> total_free a + sum_list (local_used a) = MAX_TOTAL_CONNECTIONS \<and>
     (\<forall>n\<in>set (local_used a). n \<le> MAX_TCP_CONNECTIONS)"

lemma sum_list_le_elem: "i < length xs \<Longrightarrow> xs ! i \<le> sum_list (xs :: nat list)"
  by (simp add: elem_le_sum_list)

lemma admission_inv_update:
  assumes "admission_inv a" "i < length (local_used a)" "n \<le> MAX_TCP_CONNECTIONS"
    "free + n = total_free a + local_used a ! i"
  shows "admission_inv (a\<lparr>total_free := free, local_used := (local_used a)[i := n]\<rparr>)"
proof -
  have "sum_list ((local_used a)[i := n]) = sum_list (local_used a) + n - local_used a ! i"
    using assms(2) by (rule sum_list_update)
  moreover have "local_used a ! i \<le> sum_list (local_used a)" using assms(2) by (rule sum_list_le_elem)
  moreover have "\<forall>m\<in>set ((local_used a)[i := n]). m \<le> MAX_TCP_CONNECTIONS"
    using assms(1,3) set_update_subset_insert [of "local_used a" i n] by (auto simp: admission_inv_def)
  moreover from assms(1) have "total_free a + sum_list (local_used a) = MAX_TOTAL_CONNECTIONS"
    by (simp add: admission_inv_def)
  ultimately have "free + sum_list ((local_used a)[i := n]) = MAX_TOTAL_CONNECTIONS"
    using assms(4) by linarith
  then show ?thesis using \<open>\<forall>m\<in>set ((local_used a)[i := n]). m \<le> MAX_TCP_CONNECTIONS\<close>
    by (simp add: admission_inv_def)
qed

lemma listener_limit_128: "listener_limit kind = 128"
  by (cases kind) (simp_all add: listener_limit_def MAX_TCP_CONNECTIONS_def MAX_HTTP_CONNECTIONS_def)

lemma admission_inv_step: "admission_inv a \<Longrightarrow> admission_inv (admission_step act a)"
proof (cases act)
  case (Incoming kind i)
  assume "admission_inv a"
  with Incoming show ?thesis by (auto simp: admit_def listener_limit_128 MAX_TCP_CONNECTIONS_def intro!: admission_inv_update)
next
  case (ConnectionDone i)
  assume "admission_inv a"
  moreover from this have "i < length (local_used a) \<Longrightarrow> local_used a ! i \<le> MAX_TCP_CONNECTIONS"
    by (simp add: admission_inv_def)
  ultimately show ?thesis using ConnectionDone by (auto simp: connection_done_def intro!: admission_inv_update)
next
  case (ListenerStopped i)
  assume "admission_inv a"
  with ListenerStopped show ?thesis by (auto simp: listener_stopped_def intro!: admission_inv_update)
qed

lemma admission_inv_start: "admission_inv (admission_start n)"
  by (simp add: admission_inv_def admission_start_def sum_list_replicate)

interpretation listeners: invariant_system "admission_start n" admission_step admission_inv for n
  by unfold_locales (auto simp: admission_inv_step admission_inv_start)

lemma acquire_or_shutdown_Inr:
  "acquire_or_shutdown polls = Some (Inr l) \<Longrightarrow>
   \<exists>s. (s, False) \<in> set polls \<and> \<not> shutdown s \<and> connections s = Some (lease_generation l, lease_connection l)"
  by (induction polls rule: acquire_or_shutdown.induct) (auto split: if_splits option.splits)

subsection \<open>Properties\<close>

text \<open>
  Accept retries back off: after \<open>n\<close> transient failures in a row from a fresh state, the next
  attempt waits until 100 ms times \<open>2^(n-1)\<close>, capped at one second, after the last failure, and the
  delay of the following one is likewise capped; the listener keeps going through all of them, a
  success gives the connection and resets the state, a permanent error is returned at once, and
  a cancellation ends the wait without an error.
\<close>

theorem accept_backoff_schedule:
  assumes "list_all (\<lambda>(e, _). retryable e) fs" "fs \<noteq> []"
  shows "let a = \<lparr>retry_delay = min (from_millis 100 * 2 ^ length fs) (from_secs 1),
           next_attempt = Some (snd (last fs) + min (from_millis 100 * 2 ^ (length fs - 1)) (from_secs 1))\<rparr> in
    accept_loop (map (\<lambda>(e, now). AcceptFailed e now) fs @ evs) accept_retry_default = accept_loop evs a \<and>
    accept_loop [Accepted v] a = (AcceptSome v, accept_retry_default) \<and>
    accept_loop [AcceptCancelled] a = (AcceptNone, a) \<and>
    (if retryable e then True else accept_loop [AcceptFailed e now] a = (AcceptError e, a))"
  using accept_loop_failures [OF assms(1), of accept_retry_default evs] assms(2)
  by (simp add: accept_retry_default_def duration_defs Let_def)

theorem accept_backoff_schedule_witness:
  "accept_loop [AcceptFailed \<lparr>io_kind_of = OtherKind, raw_os_error = Some 24\<rparr> 5,
      AcceptFailed \<lparr>io_kind_of = WouldBlock, raw_os_error = None\<rparr> 9] accept_retry_default =
   (AcceptPending, \<lparr>retry_delay = 400000000, next_attempt = Some 200000009\<rparr>)"
proof -
  let ?fs = "[(\<lparr>io_kind_of = OtherKind, raw_os_error = Some 24\<rparr>, 5), (\<lparr>io_kind_of = WouldBlock, raw_os_error = None\<rparr>, 9)]"
  have "list_all (\<lambda>(e, _). retryable e) ?fs" by (simp add: retryable_def EMFILE_def)
  from accept_backoff_schedule [OF this, of "[]"] show ?thesis by (simp add: duration_defs Let_def)
qed

text \<open>
  Connection limits of the listeners: whatever the order of incoming connections, finished
  connections and stopped listeners, no listener ever has more than 128 connections and all of
  them together never more than 512, and every permit not held is free; a connection is turned
  away exactly when one of the two limits is reached.
\<close>

theorem admission_bounded:
  assumes "reach (admission_start n) admission_step a" "i < length (local_used a)"
  shows "local_used a ! i \<le> 128 \<and> sum_list (local_used a) \<le> 512 \<and> total_free a = 512 - sum_list (local_used a) \<and>
    (fst (admit kind i a) = Admitted \<longleftrightarrow> local_used a ! i < 128 \<and> sum_list (local_used a) < 512)"
proof -
  have inv: "admission_inv a" by (rule listeners.reach_inv) (rule assms(1))
  then have "total_free a + sum_list (local_used a) = 512" "local_used a ! i \<le> 128"
    using assms(2) by (simp_all add: admission_inv_def MAX_TOTAL_CONNECTIONS_def MAX_TCP_CONNECTIONS_def)
  then show ?thesis by (auto simp: admit_def listener_limit_128)
qed

theorem admission_bounded_witness:
  "local_used (admission_step (Incoming Http 1) (admission_start 2)) ! 1 = 1 \<and>
   total_free (admission_step (Incoming Http 1) (admission_start 2)) = 511"
proof -
  have "reach (admission_start 2) admission_step (admission_step (Incoming Http 1) (admission_start 2))"
    by (intro reach_step reach_init)
  moreover have used: "local_used (admission_step (Incoming Http 1) (admission_start 2)) = [0, 1]"
    by (simp add: admission_start_def admit_def listener_limit_128 MAX_TOTAL_CONNECTIONS_def numeral_2_eq_2)
  ultimately show ?thesis using admission_bounded [of 2 _ 1] by simp
qed

text \<open>
  A forwarded connection gives everything back: whatever happens, the session's stream
  permits are the same before and after, the session is changed at most by invalidating the lease
  the connection used, and that only if the connection of that lease is known to be closed.
\<close>

theorem forward_connection_neutral:
  assumes "forward_connection cr reqc respc cap polls open_bi close_reason intr relayed p = (res, p')"
  shows "permits p' = permits p \<and> live_streams p' = live_streams p \<and>
    (peer_session p' = peer_session p \<or>
     (\<exists>l. acquire_or_shutdown polls = Some (Inr l) \<and> close_reason (lease_connection l) \<and>
        peer_session p' = lease_invalidate l (peer_session p)))"
proof (cases "\<exists>l. acquire_or_shutdown polls = Some (Inr l)")
  case False
  then show ?thesis using assms
    by (cases "acquire_or_shutdown polls"; cases "the (acquire_or_shutdown polls)") (auto simp: forward_connection_def)
next
  case True
  then obtain l where l: "acquire_or_shutdown polls = Some (Inr l)" by blast
  show ?thesis
    using assms l
    by (cases rule: lease_open_tcp_cases [of cap intr p cr reqc respc "open_bi (lease_connection l)" l
          "close_reason (lease_connection l)"])
      (auto simp: forward_connection_def peer_drop_stream_def split: if_splits)
qed

theorem forward_connection_neutral_witness:
  "permits (snd (forward_connection sample_crypto (sample_head_codec (tcp_head_of sample_crypto sample_cap))
     (sample_head_codec tcp_accept_head) sample_cap [(session_start, False), (session_start, True)]
     (\<lambda>_. Hang) (\<lambda>_. False) Uninterrupted RelayOk peer_start)) = 512"
proof -
  obtain res p' where r: "forward_connection sample_crypto (sample_head_codec (tcp_head_of sample_crypto sample_cap))
     (sample_head_codec tcp_accept_head) sample_cap [(session_start, False), (session_start, True)]
     (\<lambda>_. Hang) (\<lambda>_. False) Uninterrupted RelayOk peer_start = (res, p')" by fastforce
  from forward_connection_neutral [OF r] r show ?thesis by (simp add: peer_start_def STREAM_LIMIT_def)
qed

end
