(* ===== verification/Serve.thy ===== *)
theory Serve
  imports Listeners
begin

text \<open>
  The serving loops of the local listeners: \<open>serve_listener\<close> for streams
  (\<open>locho-client-native/src/forward.rs\<close>) and \<open>run_http_listener\<close> for HTTP (\<open>src/attach.rs\<close>), as a
  state machine. A step is what the loop's \<open>select!\<close> sees next, or a task of it ending, or another
  listener taking or giving back one of the connection permits they all share. While a listener
  drains, it waits for its tasks; the deadline aborts them. Dropping a task's permits is part of
  its end.
\<close>

subsection \<open>The loop\<close>

datatype serve_phase = Serving | Draining "io_error option" | Ended "io_error option"

record serve_state =
  sv_phase :: serve_phase
  sv_tasks :: "nat list"
  sv_local :: nat
  sv_total :: nat
  sv_others :: nat
  sv_refused :: "(nat \<times> admit_result) list"

definition serve_start :: "service_type \<Rightarrow> serve_state" where
  "serve_start kind = \<lparr>sv_phase = Serving, sv_tasks = [], sv_local = listener_limit kind, sv_total = MAX_TOTAL_CONNECTIONS,
     sv_others = 0, sv_refused = []\<rparr>"

definition serve_spawn :: "nat \<Rightarrow> serve_state \<Rightarrow> serve_state" where
  "serve_spawn c s =
     (if sv_local s = 0 then s\<lparr>sv_refused := sv_refused s @ [(c, LocalLimit)]\<rparr>
      else if sv_total s = 0 then s\<lparr>sv_refused := sv_refused s @ [(c, GlobalLimit)]\<rparr>
      else s\<lparr>sv_tasks := sv_tasks s @ [c], sv_local := sv_local s - 1, sv_total := sv_total s - 1\<rparr>)"

text \<open>The end of one task and, when the listener is gone, of all of them.\<close>

definition serve_joined :: "nat \<Rightarrow> serve_state \<Rightarrow> serve_state" where
  "serve_joined i s =
     (if i < length (sv_tasks s)
      then s\<lparr>sv_tasks := take i (sv_tasks s) @ drop (Suc i) (sv_tasks s), sv_local := sv_local s + 1, sv_total := sv_total s + 1\<rparr>
      else s)"

definition serve_aborted :: "serve_state \<Rightarrow> serve_state" where
  "serve_aborted s =
     s\<lparr>sv_tasks := [], sv_local := sv_local s + length (sv_tasks s), sv_total := sv_total s + length (sv_tasks s)\<rparr>"

text \<open>Draining is over as soon as no task is left.\<close>

definition serve_drained :: "serve_state \<Rightarrow> serve_state" where
  "serve_drained s =
     (case sv_phase s of Draining r \<Rightarrow> if sv_tasks s = [] then s\<lparr>sv_phase := Ended r\<rparr> else s | _ \<Rightarrow> s)"

datatype serve_action =
    ShutdownSeen | ConnectionAccepted nat | AcceptStopped | AcceptBroken io_error | TaskJoined nat | DrainDeadline
  | OthersTake | OthersGive

definition serve_leave :: "service_type \<Rightarrow> io_error option \<Rightarrow> serve_state \<Rightarrow> serve_state" where
  "serve_leave kind r s =
     (case (kind, r) of
        (Http, Some e) \<Rightarrow> (serve_aborted s)\<lparr>sv_phase := Ended r\<rparr>
      | _ \<Rightarrow> serve_drained (s\<lparr>sv_phase := Draining r\<rparr>))"

definition serve_step :: "service_type \<Rightarrow> serve_action \<Rightarrow> serve_state \<Rightarrow> serve_state" where
  "serve_step kind a s =
     (case a of
        OthersTake \<Rightarrow> if sv_total s = 0 then s else s\<lparr>sv_total := sv_total s - 1, sv_others := sv_others s + 1\<rparr>
      | OthersGive \<Rightarrow> if sv_others s = 0 then s else s\<lparr>sv_total := sv_total s + 1, sv_others := sv_others s - 1\<rparr>
      | TaskJoined i \<Rightarrow> serve_drained (serve_joined i s)
      | ShutdownSeen \<Rightarrow> if sv_phase s = Serving then serve_leave kind None s else s
      | AcceptStopped \<Rightarrow> if sv_phase s = Serving then serve_leave kind None s else s
      | AcceptBroken e \<Rightarrow> if sv_phase s = Serving then serve_leave kind (Some e) s else s
      | ConnectionAccepted c \<Rightarrow> if sv_phase s = Serving then serve_spawn c s else s
      | DrainDeadline \<Rightarrow>
          (case sv_phase s of Draining r \<Rightarrow> (serve_aborted s)\<lparr>sv_phase := Ended r\<rparr> | _ \<Rightarrow> s))"

text \<open>The two loops.\<close>

definition serve_listener :: "serve_action \<Rightarrow> serve_state \<Rightarrow> serve_state" where
  "serve_listener = serve_step Tcp"

definition run_http_listener :: "serve_action \<Rightarrow> serve_state \<Rightarrow> serve_state" where
  "run_http_listener = serve_step Http"

subsection \<open>Invariant\<close>

definition serve_inv :: "service_type \<Rightarrow> serve_state \<Rightarrow> bool" where
  "serve_inv kind s \<longleftrightarrow>
     sv_local s + length (sv_tasks s) = listener_limit kind \<and>
     sv_total s + length (sv_tasks s) + sv_others s = MAX_TOTAL_CONNECTIONS \<and>
     (case sv_phase s of Serving \<Rightarrow> True | Draining _ \<Rightarrow> sv_tasks s \<noteq> [] | Ended _ \<Rightarrow> sv_tasks s = [])"

lemma serve_inv_drained:
  "sv_local s + length (sv_tasks s) = listener_limit kind \<Longrightarrow>
   sv_total s + length (sv_tasks s) + sv_others s = MAX_TOTAL_CONNECTIONS \<Longrightarrow>
   (case sv_phase s of Ended _ \<Rightarrow> sv_tasks s = [] | _ \<Rightarrow> True) \<Longrightarrow> serve_inv kind (serve_drained s)"
  by (auto simp: serve_inv_def serve_drained_def split: serve_phase.splits)

lemma serve_inv_leave: "serve_inv kind s \<Longrightarrow> serve_inv kind (serve_leave kind r s)"
  by (cases kind; cases r)
    (auto simp: serve_leave_def intro!: serve_inv_drained, auto simp: serve_inv_def serve_aborted_def)

lemma serve_inv_joined: "serve_inv kind s \<Longrightarrow> serve_inv kind (serve_drained (serve_joined i s))"
  by (intro serve_inv_drained) (auto simp: serve_joined_def serve_inv_def split: serve_phase.splits)

lemma serve_inv_step: "serve_inv kind s \<Longrightarrow> serve_inv kind (serve_step kind a s)"
proof (cases a)
  case (ConnectionAccepted c)
  assume "serve_inv kind s"
  with ConnectionAccepted show ?thesis
    by (auto simp: serve_step_def serve_spawn_def serve_inv_def split: serve_phase.splits)
next
  case DrainDeadline
  assume "serve_inv kind s"
  with DrainDeadline show ?thesis
    by (auto simp: serve_step_def serve_aborted_def serve_inv_def split: serve_phase.splits)
next
  case OthersTake
  assume "serve_inv kind s"
  with OthersTake show ?thesis by (auto simp: serve_step_def serve_inv_def split: serve_phase.splits)
next
  case OthersGive
  assume "serve_inv kind s"
  with OthersGive show ?thesis by (auto simp: serve_step_def serve_inv_def split: serve_phase.splits)
qed (simp_all add: serve_step_def serve_inv_leave serve_inv_joined)

lemma serve_inv_start: "serve_inv kind (serve_start kind)"
  by (simp add: serve_inv_def serve_start_def)

interpretation serving: invariant_system "serve_start kind" "serve_step kind" "serve_inv kind" for kind
  by unfold_locales (simp_all add: serve_inv_start serve_inv_step)

subsection \<open>The end\<close>

lemma ended_kept: "sv_phase s = Ended r \<Longrightarrow> sv_phase (serve_step kind a s) = Ended r"
  by (cases a) (auto simp: serve_step_def serve_drained_def serve_joined_def)

lemma leaving_kept:
  "sv_phase s \<in> {Draining r, Ended r} \<Longrightarrow> sv_phase (serve_step kind a s) \<in> {Draining r, Ended r} \<and>
    set (sv_tasks (serve_step kind a s)) \<subseteq> set (sv_tasks s)"
  by (cases a) (auto simp: serve_step_def serve_drained_def serve_joined_def serve_aborted_def split: if_splits dest: in_set_takeD in_set_dropD)

lemma leaving_run:
  "sv_phase s \<in> {Draining r, Ended r} \<Longrightarrow> sv_phase (run_steps (serve_step kind) as s) \<in> {Draining r, Ended r} \<and>
    set (sv_tasks (run_steps (serve_step kind) as s)) \<subseteq> set (sv_tasks s)"
proof (induction as arbitrary: s)
  case (Cons a as)
  from leaving_kept [OF Cons.prems] Cons.IH [of "serve_step kind a s"] show ?case by auto
qed simp

lemma shutdown_leaves: "sv_phase s = Serving \<Longrightarrow> sv_phase (serve_step kind ShutdownSeen s) \<in> {Draining None, Ended None}"
  by (cases kind) (auto simp: serve_step_def serve_leave_def serve_drained_def)

lemma deadline_ends: "sv_phase s \<in> {Draining r, Ended r} \<Longrightarrow> sv_phase (serve_step kind DrainDeadline s) = Ended r"
  by (auto simp: serve_step_def)

subsection \<open>Properties\<close>

text \<open>
  A serving listener never runs more connections than its own limit and gives every permit
  back: in every reachable state, with the other listeners taking and returning shared permits at
  will, its tasks and free permits add up to the limit of its kind, all listeners together stay
  within 512, a listener that has ended runs no task, and a connection is refused only when a limit
  is reached.
\<close>

theorem serving_bounded:
  assumes "reach (serve_start kind) (serve_step kind) s"
  shows "sv_local s + length (sv_tasks s) = listener_limit kind \<and>
    sv_total s + length (sv_tasks s) + sv_others s = 512 \<and>
    (case sv_phase s of Ended _ \<Rightarrow> sv_tasks s = [] \<and> sv_local s = listener_limit kind | _ \<Rightarrow> True) \<and>
    (sv_refused (serve_step kind (ConnectionAccepted c) s) \<noteq> sv_refused s \<longrightarrow>
      length (sv_tasks s) = listener_limit kind \<or> length (sv_tasks s) + sv_others s = 512)"
proof -
  have inv: "serve_inv kind s" by (rule serving.reach_inv) (rule assms)
  then have counts: "sv_local s + length (sv_tasks s) = listener_limit kind" "sv_total s + length (sv_tasks s) + sv_others s = 512"
    and ended: "case sv_phase s of Ended _ \<Rightarrow> sv_tasks s = [] \<and> sv_local s = listener_limit kind | _ \<Rightarrow> True"
    by (auto simp: serve_inv_def MAX_TOTAL_CONNECTIONS_def split: serve_phase.splits)
  have "sv_local s = 0 \<or> sv_total s = 0" if "sv_refused (serve_step kind (ConnectionAccepted c) s) \<noteq> sv_refused s"
    using that by (auto simp: serve_step_def serve_spawn_def split: if_splits)
  with counts ended show ?thesis by auto
qed


theorem serving_bounded_witness:
  "let s = run_steps serve_listener [ConnectionAccepted 7, OthersTake, ConnectionAccepted 8] (serve_start Tcp) in
   sv_local s + length (sv_tasks s) = listener_limit Tcp \<and> sv_tasks s = [7, 8]"
proof -
  have "reach (serve_start Tcp) (serve_step Tcp) (run_steps (serve_step Tcp) [ConnectionAccepted 7, OthersTake, ConnectionAccepted 8] (serve_start Tcp))"
    by (intro reach_run reach_init)
  from serving_bounded [OF this, of 9] show ?thesis
    by (simp add: serve_listener_def serve_step_def serve_spawn_def serve_start_def listener_limit_def MAX_TCP_CONNECTIONS_def MAX_TOTAL_CONNECTIONS_def)
qed


end
