(* ===== verification/Listener_Group.thy ===== *)
theory Listener_Group
  imports Serve
begin

text \<open>
  All listeners of one attachment process together (\<open>run_attachments\<close> of \<open>src/attach.rs\<close>, which gives every
  listener task the same semaphore): the serving loops of \<open>Serve\<close>, interleaved in any order, over
  one shared count of connection permits. The group implements the admission contract of
  \<open>Listeners\<close>.
\<close>

subsection \<open>The group\<close>

record listener_group =
  lg_total :: nat
  lg_loops :: "(service_type \<times> serve_state) list"

definition group_start :: "service_type list \<Rightarrow> listener_group" where
  "group_start kinds = \<lparr>lg_total = MAX_TOTAL_CONNECTIONS, lg_loops = map (\<lambda>k. (k, serve_start k)) kinds\<rparr>"

text \<open>
  One step of one loop. It sees the shared count; what the other listeners do to the count are
  their own steps here, so the steps that stand for them in a single loop are not taken.
\<close>

definition group_step :: "nat \<times> serve_action \<Rightarrow> listener_group \<Rightarrow> listener_group" where
  "group_step act g =
     (case act of (i, a) \<Rightarrow>
        if length (lg_loops g) \<le> i \<or> a = OthersTake \<or> a = OthersGive then g
        else
          (case lg_loops g ! i of (k, s) \<Rightarrow>
             let s' = serve_step k a (s\<lparr>sv_total := lg_total g\<rparr>)
             in g\<lparr>lg_total := sv_total s', lg_loops := (lg_loops g)[i := (k, s')]\<rparr>))"

subsection \<open>The abstraction\<close>

definition loop_used :: "service_type \<times> serve_state \<Rightarrow> nat" where
  "loop_used l = length (sv_tasks (snd l))"

definition group_admission :: "listener_group \<Rightarrow> admission" where
  "group_admission g = \<lparr>total_free = lg_total g, local_used = map loop_used (lg_loops g)\<rparr>"

definition loop_ok :: "service_type \<times> serve_state \<Rightarrow> bool" where
  "loop_ok l \<longleftrightarrow> sv_local (snd l) + loop_used l = listener_limit (fst l)"

definition group_inv :: "listener_group \<Rightarrow> bool" where
  "group_inv g \<longleftrightarrow> list_all loop_ok (lg_loops g)"

text \<open>The steps of the contract that a step of a loop amounts to.\<close>

definition loop_acts :: "nat \<Rightarrow> service_type \<Rightarrow> serve_action \<Rightarrow> serve_state \<Rightarrow> admission_action list" where
  "loop_acts i k a s =
     (case a of
        ConnectionAccepted _ \<Rightarrow> if sv_phase s = Serving then [Incoming k i] else []
      | TaskJoined j \<Rightarrow> if j < length (sv_tasks s) then [ConnectionDone i] else []
      | AcceptBroken _ \<Rightarrow> if sv_phase s = Serving \<and> k = Http then [ListenerStopped i] else []
      | DrainDeadline \<Rightarrow> (case sv_phase s of Draining _ \<Rightarrow> [ListenerStopped i] | _ \<Rightarrow> [])
      | _ \<Rightarrow> [])"

definition group_acts :: "nat \<times> serve_action \<Rightarrow> listener_group \<Rightarrow> admission_action list" where
  "group_acts act g =
     (case act of (i, a) \<Rightarrow>
        if length (lg_loops g) \<le> i \<or> a = OthersTake \<or> a = OthersGive then []
        else case lg_loops g ! i of (k, s) \<Rightarrow> loop_acts i k a s)"

subsection \<open>One loop\<close>

lemma drained_counts:
  "sv_tasks (serve_drained s) = sv_tasks s" "sv_total (serve_drained s) = sv_total s" "sv_local (serve_drained s) = sv_local s"
  by (simp_all add: serve_drained_def split: serve_phase.split)

lemma loop_ok_step:
  assumes "loop_ok (k, s)" "a \<noteq> OthersTake" "a \<noteq> OthersGive"
  shows "loop_ok (k, serve_step k a (s\<lparr>sv_total := t\<rparr>))"
  using assms
  by (cases a; cases k)
    (auto simp: loop_ok_def loop_used_def serve_step_def serve_spawn_def serve_joined_def serve_leave_def serve_aborted_def drained_counts
      split: serve_phase.splits)

text \<open>What a step of the loop \<open>i\<close> does to the counts is what the contract does.\<close>

lemma loop_step_counts:
  assumes ok: "loop_ok (k, s)" and a: "a \<noteq> OthersTake" "a \<noteq> OthersGive"
    and i: "i < length us" "us ! i = length (sv_tasks s)"
    and s': "s' = serve_step k a (s\<lparr>sv_total := t\<rparr>)"
  shows "run_steps admission_step (loop_acts i k a s) \<lparr>total_free = t, local_used = us\<rparr> =
    \<lparr>total_free = sv_total s', local_used = us[i := length (sv_tasks s')]\<rparr>"
proof -
  have same: "us[i := length (sv_tasks s)] = us" using i(2) by (metis list_update_id)
  show ?thesis
  proof (cases a)
    case (ConnectionAccepted c)
    with ok i s' show ?thesis
      by (auto simp: loop_ok_def loop_used_def loop_acts_def serve_step_def serve_spawn_def admit_def same)
  next
    case (TaskJoined j)
    with i s' show ?thesis
      by (auto simp: loop_acts_def serve_step_def serve_joined_def drained_counts connection_done_def same)
  next
    case DrainDeadline
    with i s' show ?thesis
      by (auto simp: loop_acts_def serve_step_def serve_aborted_def listener_stopped_def same split: serve_phase.splits)
  next
    case (AcceptBroken e)
    with i s' show ?thesis
      by (cases k) (auto simp: loop_acts_def serve_step_def serve_leave_def serve_aborted_def drained_counts listener_stopped_def
          same)
  next
    case ShutdownSeen
    with i s' show ?thesis
      by (cases k) (auto simp: loop_acts_def serve_step_def serve_leave_def drained_counts same)
  next
    case AcceptStopped
    with i s' show ?thesis
      by (cases k) (auto simp: loop_acts_def serve_step_def serve_leave_def drained_counts same)
  qed (use a in auto)
qed

subsection \<open>The refinement\<close>

lemma group_inv_step:
  assumes "group_inv g"
  shows "group_inv (group_step act g)"
proof -
  obtain i a where act: "act = (i, a)" by (cases act)
  show ?thesis
  proof (cases "length (lg_loops g) \<le> i \<or> a = OthersTake \<or> a = OthersGive")
    case True
    with assms act show ?thesis by (auto simp: group_step_def)
  next
    case False
    obtain k s where ks: "lg_loops g ! i = (k, s)" by fastforce
    with False assms have "loop_ok (k, s)" unfolding group_inv_def list_all_length by (metis not_le)
    with False have "loop_ok (k, serve_step k a (s\<lparr>sv_total := lg_total g\<rparr>))" by (intro loop_ok_step) auto
    with False assms act ks show ?thesis
      by (auto simp: group_step_def group_inv_def list_all_iff Let_def dest!: set_update_subset_insert [THEN subsetD])
  qed
qed

lemma group_inv_start: "group_inv (group_start kinds)"
  by (simp add: group_inv_def group_start_def loop_ok_def loop_used_def serve_start_def list_all_iff)

lemma group_admission_step:
  assumes "group_inv g"
  shows "group_admission (group_step act g) = run_steps admission_step (group_acts act g) (group_admission g)"
proof -
  obtain i a where act: "act = (i, a)" by (cases act)
  show ?thesis
  proof (cases "length (lg_loops g) \<le> i \<or> a = OthersTake \<or> a = OthersGive")
    case True
    with act show ?thesis by (auto simp: group_step_def group_acts_def)
  next
    case False
    obtain k s where ks: "lg_loops g ! i = (k, s)" by fastforce
    with False assms have ok: "loop_ok (k, s)" unfolding group_inv_def list_all_length by (metis not_le)
    from False ks have us: "i < length (map loop_used (lg_loops g))" "map loop_used (lg_loops g) ! i = length (sv_tasks s)"
      by (auto simp: loop_used_def)
    from False loop_step_counts [OF ok _ _ us refl, of a "lg_total g"] act ks show ?thesis
      by (simp add: group_admission_def group_step_def group_acts_def map_update loop_used_def Let_def)
  qed
qed

interpretation groups: simulation "group_start kinds" group_step group_inv group_admission
    "admission_start (length kinds)" admission_step group_acts for kinds
proof unfold_locales
  show "group_admission (group_start kinds) = admission_start (length kinds)"
    by (simp add: group_admission_def group_start_def admission_start_def loop_used_def serve_start_def comp_def map_replicate_const)
qed (simp_all add: group_inv_start group_inv_step group_admission_step)



end
