(* ===== verification/Attach_Run.thy ===== *)
theory Attach_Run
  imports Config Host_State Listeners
begin

text \<open>
  The attach command, \<open>src/attach.rs\<close>: the checks of \<open>run\<close> on the options of the command line,
  loading an attachment file (\<open>AttachConfig::load\<close> of \<open>src/attach_config.rs\<close>), and
  \<open>run_attachments\<close>, which binds every listener, starts one task per listener, waits for the first
  reason to stop and ends everything; and what its status reporter prints.

  \<open>iroh\<close>, signals and sockets are the environment: each waiting point is given what it sees
  first, the shutdown signal (looked at first) or the result it waits for.
\<close>

subsection \<open>Options\<close>

datatype run_error =
    RunCapability capability_error | RunHttpUnix | RunUnixPath path_error | RunHttpTimeout attach_error
  | RunTcpHttpTimeout | RunHttpIdle | RunTcpIdle config_error | RunRelay
  | RunConfigFile state_error | RunConfigParse | RunConfig attach_error
  | RunHostId | RunSignal | RunEndpoint | RunBind string | RunDescription
  | RunDriverStopped | RunDriverPanic | RunListener | RunListenerPanic | RunClose session_error

definition run_http_timeout :: "service_type \<Rightarrow> nat option \<Rightarrow> run_error + duration" where
  "run_http_timeout ty secs =
     (case ty of
        Http \<Rightarrow> map_err RunHttpTimeout (resolve_http_timeout secs)
      | Tcp \<Rightarrow> if secs \<noteq> None then Inl RunTcpHttpTimeout else Inr HTTP_REQUEST_TIMEOUT)"

definition run_idle_timeout :: "service_type \<Rightarrow> nat option \<Rightarrow> run_error + duration option" where
  "run_idle_timeout ty secs =
     (case ty of
        Http \<Rightarrow> if secs \<noteq> None then Inl RunHttpIdle else Inr None
      | Tcp \<Rightarrow> map_err RunTcpIdle (resolve_tcp_idle_timeout secs))"

definition run_options ::
  "string \<Rightarrow> listener_address \<Rightarrow> nat option \<Rightarrow> nat option \<Rightarrow> run_error + attachment_config" where
  "run_options cap_text listen idle_secs http_secs =
     res_bind (map_err RunCapability (capability_parse cap_text)) (\<lambda>cap.
     res_bind (bail_if (cap_service_type cap = Http \<and> (case listen of TcpListen _ \<Rightarrow> False | UnixListen _ \<Rightarrow> True)) RunHttpUnix) (\<lambda>_.
     res_bind (case listen of UnixListen p \<Rightarrow> map_err RunUnixPath (validate_unix_socket_path p) | TcpListen _ \<Rightarrow> Inr ()) (\<lambda>_.
     res_bind (run_http_timeout (cap_service_type cap) http_secs) (\<lambda>http_timeout.
     res_bind (run_idle_timeout (cap_service_type cap) idle_secs) (\<lambda>idle.
     Inr \<lparr>at_capability = cap, at_listen = listen, at_http_timeout = http_timeout, at_tcp_idle_timeout = idle\<rparr>)))))"

text \<open>\<open>AttachConfig::load\<close>, and the choice of the direct address in \<open>run_config\<close>.\<close>

definition attach_load :: "io_env \<Rightarrow> (bytes \<Rightarrow> attach_config option) \<Rightarrow> string \<Rightarrow> state_dir \<Rightarrow> (run_error + attach_config) \<times> state_dir" where
  "attach_load io from_toml name d =
     (case op_bind (ensure_private_file io name) (\<lambda>_. read_file io name) d of
        (Inl e, d) \<Rightarrow> (Inl (RunConfigFile e), d)
      | (Inr contents, d) \<Rightarrow>
          (res_bind (ok_or RunConfigParse (from_toml contents)) (\<lambda>cfg.
           res_bind (map_err RunConfig (attach_validate cfg)) (\<lambda>_. Inr cfg)), d))"

definition run_config ::
  "io_env \<Rightarrow> (bytes \<Rightarrow> attach_config option) \<Rightarrow> string \<Rightarrow> socket_addr option \<Rightarrow> state_dir \<Rightarrow>
   (run_error + string \<times> attachment_config list \<times> socket_addr option) \<times> state_dir" where
  "run_config io from_toml name direct d =
     (case attach_load io from_toml name d of
        (Inl e, d) \<Rightarrow> (Inl e, d)
      | (Inr cfg, d) \<Rightarrow>
          (res_bind (map_err RunConfig (attachments cfg)) (\<lambda>as.
             Inr (ac_host_id cfg, as, case direct of Some a \<Rightarrow> Some a | None \<Rightarrow> ac_direct_address cfg)), d))"

subsection \<open>Binding the listeners\<close>

datatype bound_listener = BoundTcp socket_addr | BoundUnix string

definition bind_listener :: "(listener_address \<Rightarrow> bool) \<Rightarrow> listener_address \<Rightarrow> run_error + bound_listener" where
  "bind_listener binds address =
     (if \<not> binds address then Inl RunListener
      else case address of TcpListen a \<Rightarrow> Inr (BoundTcp a) | UnixListen p \<Rightarrow> Inr (BoundUnix p))"

text \<open>
  The startup up to the first task: how it ends, and the listeners that are bound then. Dropping
  the list of listeners closes them.
\<close>

datatype start_end = StartStopped | StartFailed run_error | StartReady

record run_env =
  re_host_id_ok :: bool
  re_signal_installs :: bool
  re_endpoint_binds :: bool
  re_binds :: "listener_address \<Rightarrow> bool"
  re_described :: "bound_listener \<Rightarrow> bool"
  re_signal_at :: "nat \<Rightarrow> bool"

fun bind_all ::
  "run_env \<Rightarrow> nat \<Rightarrow> attachment_config list \<Rightarrow> (bound_listener \<times> attachment_config) list \<Rightarrow>
   start_end \<times> (bound_listener \<times> attachment_config) list" where
  "bind_all env i [] bound =
     (if re_signal_at env i then (StartStopped, [])
      else if list_ex (\<lambda>(l, _). \<not> re_described env l) bound then (StartFailed RunDescription, [])
      else (StartReady, bound))"
| "bind_all env i (a # as) bound =
     (if re_signal_at env i then (StartStopped, [])
      else case bind_listener (re_binds env) (at_listen a) of
        Inl _ \<Rightarrow> (StartFailed (RunBind (cap_service (at_capability a))), [])
      | Inr l \<Rightarrow> bind_all env (i + 1) as (bound @ [(l, a)]))"

definition run_start ::
  "run_env \<Rightarrow> attachment_config list \<Rightarrow> start_end \<times> (bound_listener \<times> attachment_config) list" where
  "run_start env as =
     (if \<not> re_host_id_ok env then (StartFailed RunHostId, [])
      else if \<not> re_signal_installs env then (StartFailed RunSignal, [])
      else if re_signal_at env 0 then (StartStopped, [])
      else if \<not> re_endpoint_binds env then (StartFailed RunEndpoint, [])
      else bind_all env 1 as [])"

subsection \<open>The listener tasks\<close>

datatype listener_task = TcpTask capability | UnixTask capability | HttpTask capability duration | TaskUnreachable

fun task_of :: "bound_listener \<times> attachment_config \<Rightarrow> listener_task" where
  "task_of (BoundTcp _, a) =
     (case cap_service_type (at_capability a) of
        Tcp \<Rightarrow> TcpTask (at_capability a) | Http \<Rightarrow> HttpTask (at_capability a) (at_http_timeout a))"
| "task_of (BoundUnix _, a) =
     (case cap_service_type (at_capability a) of Tcp \<Rightarrow> UnixTask (at_capability a) | Http \<Rightarrow> TaskUnreachable)"

subsection \<open>Waiting and ending\<close>

datatype run_event = SupervisorEnded bool | SignalSeen | ListenerEnded "run_error + unit" | ListenerPanicked

text \<open>The result, and whether the supervisor has already been joined; \<open>None\<close> while it runs.\<close>

fun run_wait :: "nat \<Rightarrow> run_event list \<Rightarrow> ((run_error + unit) \<times> bool) option" where
  "run_wait tasks [] = None"
| "run_wait tasks (SupervisorEnded ok # evs) = Some (Inl (if ok then RunDriverStopped else RunDriverPanic), True)"
| "run_wait tasks (SignalSeen # evs) = Some (Inr (), False)"
| "run_wait tasks (ListenerEnded r # evs) =
     (if tasks = 0 then run_wait tasks evs
      else case r of
        Inr _ \<Rightarrow> if tasks = 1 then Some (Inr (), False) else run_wait (tasks - 1) evs
      | Inl e \<Rightarrow> Some (Inl e, False))"
| "run_wait tasks (ListenerPanicked # evs) =
     (if tasks = 0 then run_wait tasks evs else Some (Inl RunListenerPanic, False))"

text \<open>The end: every task is cancelled, the session closed, and the two results combined.\<close>

definition run_end :: "(run_error + unit) \<Rightarrow> (session_error + unit) \<Rightarrow> run_error + unit" where
  "run_end result closed = res_bind result (\<lambda>_. map_err RunClose closed)"

definition run_attachments ::
  "run_env \<Rightarrow> attachment_config list \<Rightarrow> run_event list \<Rightarrow> (session_error + unit) \<Rightarrow> (run_error + unit) option" where
  "run_attachments env as evs closed =
     (case run_start env as of
        (StartStopped, _) \<Rightarrow> Some (Inr ())
      | (StartFailed e, _) \<Rightarrow> Some (Inl e)
      | (StartReady, bound) \<Rightarrow> map_option (\<lambda>(result, _). run_end result closed) (run_wait (length bound) evs))"

subsection \<open>The reporter\<close>

datatype report = ReportRecovering session_error | ReportPath string

record reporter =
  rep_path :: string
  rep_error :: "session_error option"

definition reporter_new :: reporter where
  "reporter_new = \<lparr>rep_path = ''none'', rep_error = None\<rparr>"

definition report_one :: "session_status \<Rightarrow> reporter \<Rightarrow> report list \<times> reporter" where
  "report_one s r =
     (let (warned, r) =
        (if last_error s \<noteq> rep_error r
         then ((case last_error s of Some e \<Rightarrow> [ReportRecovering e] | None \<Rightarrow> []), r\<lparr>rep_error := last_error s\<rparr>)
         else ([], r));
        (moved, r) =
        (if path_description s \<noteq> rep_path r then ([ReportPath (path_description s)], r\<lparr>rep_path := path_description s\<rparr>) else ([], r))
      in (warned @ moved, r))"

text \<open>The statuses the task sees, in order; it stops after the closed one.\<close>

fun report_all :: "session_status list \<Rightarrow> reporter \<Rightarrow> report list" where
  "report_all [] r = []"
| "report_all (s # ss) r =
     (case report_one s r of (out, r) \<Rightarrow> out @ (if state s = Closed then [] else report_all ss r))"

subsection \<open>Lemmas\<close>

definition listens_on :: "bound_listener \<Rightarrow> attachment_config \<Rightarrow> bool" where
  "listens_on l a \<longleftrightarrow> (case at_listen a of TcpListen addr \<Rightarrow> l = BoundTcp addr | UnixListen p \<Rightarrow> l = BoundUnix p)"

definition all_listen :: "(bound_listener \<times> attachment_config) list \<Rightarrow> bool" where
  "all_listen bound \<longleftrightarrow> (\<forall>(l, a) \<in> set bound. listens_on l a)"

lemma all_listen_append [simp]: "all_listen (xs @ [(l, a)]) \<longleftrightarrow> all_listen xs \<and> listens_on l a" "all_listen []"
  by (auto simp: all_listen_def)

lemma bind_all_cases:
  assumes "all_listen bound"
  shows "case bind_all env i as bound of
      (StartReady, out) \<Rightarrow> map snd out = map snd bound @ as \<and> all_listen out
    | (_, out) \<Rightarrow> out = []"
  using assms
proof (induction env i as bound rule: bind_all.induct)
  case (1 env i bound)
  then show ?case by auto
next
  case (2 env i a as bound)
  show ?case
  proof (cases "bind_listener (re_binds env) (at_listen a)")
    case (Inl e)
    then show ?thesis by simp
  next
    case (Inr l)
    then have "listens_on l a" by (auto simp: bind_listener_def listens_on_def split: if_splits listener_address.splits)
    with 2 Inr show ?thesis by (cases "re_signal_at env i") (simp_all split: prod.splits start_end.splits)
  qed
qed

lemma run_start_cases:
  "case run_start env as of
      (StartReady, out) \<Rightarrow> map snd out = as \<and> all_listen out
    | (_, out) \<Rightarrow> out = []"
  using bind_all_cases [where env = env and i = 1 and as = as and bound = "[]"]
  by (auto simp: run_start_def split: prod.splits start_end.splits)

definition http_on_tcp :: "attachment_config \<Rightarrow> bool" where
  "http_on_tcp a \<longleftrightarrow> (cap_service_type (at_capability a) = Http \<longrightarrow> (\<exists>addr. at_listen a = TcpListen addr))"

lemma run_options_http_on_tcp: "run_options cap_text listen idle http = Inr a \<Longrightarrow> http_on_tcp a"
  by (cases listen) (auto simp: run_options_def http_on_tcp_def res_bind_Inr_iff bail_if_Inr_iff)

lemma attachment_step_http: "attachment_step host k service seen = Inr (a, seen') \<Longrightarrow> http_on_tcp a"
  by (auto simp: attachment_step_def attachment_settings_def http_on_tcp_def res_bind_Inr_iff split: if_splits)

lemma attachments_http_on_tcp: "attachments_from host k seen ss = Inr as \<Longrightarrow> list_all http_on_tcp as"
proof (induction ss arbitrary: k seen as)
  case (Cons s ss)
  then obtain a seen' bs where "attachment_step host k s seen = Inr (a, seen')"
    "attachments_from host (k + 1) seen' ss = Inr bs" "as = a # bs" by (auto simp: res_bind_Inr_iff)
  with Cons.IH attachment_step_http show ?case by auto
qed simp

lemma task_reachable: "listens_on l a \<Longrightarrow> http_on_tcp a \<Longrightarrow> task_of (l, a) \<noteq> TaskUnreachable"
  by (cases l; cases "cap_service_type (at_capability a)") (auto simp: listens_on_def http_on_tcp_def)

lemma run_wait_success:
  "run_wait n evs = Some (Inr (), joined) \<Longrightarrow> \<not> joined \<and> (SignalSeen \<in> set evs \<or> n \<le> length (filter (\<lambda>e. e = ListenerEnded (Inr ())) evs))"
  by (induction n evs rule: run_wait.induct) (auto split: if_splits sum.splits)

text \<open>The path lines of the reporter.\<close>

definition path_lines :: "report list \<Rightarrow> string list" where
  "path_lines rs = concat (map (\<lambda>r. case r of ReportPath p \<Rightarrow> [p] | _ \<Rightarrow> []) rs)"

fun until_closed :: "session_status list \<Rightarrow> session_status list" where
  "until_closed [] = []"
| "until_closed (s # ss) = s # (if state s = Closed then [] else until_closed ss)"

lemma report_one_path:
  assumes "report_one s r = (out, r')"
  shows "rep_path r' = path_description s \<and> path_lines out = (if path_description s = rep_path r then [] else [path_description s])"
  using assms by (auto simp: report_one_def path_lines_def Let_def split: if_splits option.splits)

lemma path_lines_append [simp]: "path_lines (a @ b) = path_lines a @ path_lines b"
  by (simp add: path_lines_def)

lemma remdups_adj_tl: "remdups_adj (x # y # xs) = (if x = y then remdups_adj (y # xs) else x # remdups_adj (y # xs))"
  by simp

lemma report_all_paths:
  "rep_path r # path_lines (report_all ss r) = remdups_adj (rep_path r # map path_description (until_closed ss))"
proof (induction ss arbitrary: r)
  case Nil
  then show ?case by (simp add: path_lines_def)
next
  case (Cons s ss)
  obtain out r' where o: "report_one s r = (out, r')" by fastforce
  from report_one_path [OF o] have r': "rep_path r' = path_description s"
    "path_lines out = (if path_description s = rep_path r then [] else [path_description s])" by simp_all
  show ?case using Cons.IH [of r'] o r' by (cases "state s = Closed") (auto simp: path_lines_def)
qed

subsection \<open>Properties\<close>

text \<open>
  C21. Starting attachments is all or nothing: for attachments that come from the command line's
  options or from a validated file, either every attachment has exactly its own listener, in
  order, and every listener gets a task of its kind, the branch marked unreachable never being
  taken, or the start ends, by the signal or an error, with no listener left bound.
\<close>

theorem attach_start_all_or_nothing:
  assumes "(\<exists>cap_text listen idle http a. run_options cap_text listen idle http = Inr a \<and> as = [a]) \<or>
    (\<exists>cfg. attachments cfg = Inr as)"
  shows "case run_start env as of
      (StartReady, bound) \<Rightarrow> map snd bound = as \<and> all_listen bound \<and> TaskUnreachable \<notin> set (map task_of bound)
    | (_, bound) \<Rightarrow> bound = []"
proof -
  have ok: "list_all http_on_tcp as"
    using assms run_options_http_on_tcp attachments_http_on_tcp by (fastforce simp: attachments_def)
  have "TaskUnreachable \<notin> set (map task_of out)" if "map snd out = as" "all_listen out" for out
    using that ok task_reachable by (fastforce simp: list_all_iff all_listen_def)
  with run_start_cases [where env = env and as = as] show ?thesis by (auto split: prod.splits start_end.splits)
qed

text \<open>
  The path lines that attach prints are exactly the changes of the transport path: the
  descriptions of the statuses up to the closed one, starting from none, without repetitions.
\<close>

theorem reported_paths_exact:
  "''none'' # path_lines (report_all ss reporter_new) = remdups_adj (''none'' # map path_description (until_closed ss))"
  using report_all_paths [of reporter_new ss] by (simp add: reporter_new_def)

definition quiet_run :: run_env where
  "quiet_run = \<lparr>re_host_id_ok = True, re_signal_installs = True, re_endpoint_binds = True, re_binds = (\<lambda>_. True),
     re_described = (\<lambda>_. True), re_signal_at = (\<lambda>_. False)\<rparr>"

theorem attach_start_all_or_nothing_witness:
  "\<exists>a. run_options ''db:tcp:k'' (UnixListen ''/run/db'') (Some 0) None = Inr a \<and>
     run_start quiet_run [a] = (StartReady, [(BoundUnix ''/run/db'', a)]) \<and> TaskUnreachable \<notin> set (map task_of [(BoundUnix ''/run/db'', a)])"
proof -
  have "capability_parse ''db:tcp:k'' = Inr \<lparr>cap_service = ''db'', cap_service_type = Tcp, cap_secret = ''k''\<rparr>"
    "validate_unix_socket_path ''/run/db'' = Inr ()" by code_simp+
  then obtain a where a: "run_options ''db:tcp:k'' (UnixListen ''/run/db'') (Some 0) None = Inr a" "at_listen a = UnixListen ''/run/db''"
    by (simp add: run_options_def run_http_timeout_def run_idle_timeout_def resolve_tcp_idle_timeout_def)
  have st: "run_start quiet_run [a] = (StartReady, [(BoundUnix ''/run/db'', a)])"
    using a(2) by (simp add: run_start_def quiet_run_def bind_listener_def)
  from a st attach_start_all_or_nothing [of "[a]" quiet_run] show ?thesis by auto
qed

end
