(* ===== verification/Cli.thy ===== *)
theory Cli
  imports Attach_Run Tickets
begin

text \<open>
  The command line, \<open>src/main.rs\<close>: what \<open>rotate-secret\<close>, \<open>secret\<close> and
  \<open>share\<close> print, the checks of \<open>attach\<close> on the combination of its arguments and the two syntaxes
  of a capability. \<open>clap\<close> has parsed the arguments; paths are texts.

  To state what a printed command does, the words of a POSIX shell are modelled as far as the
  characters that \<open>shell_quote\<close> lets through need it.
\<close>

subsection \<open>Socket addresses as text\<close>

definition v4_text :: "u32 \<Rightarrow> string" where
  "v4_text a = join_with ''.'' (map (\<lambda>i. decimal (unat (drop_bit (8 * i) a) mod 256)) [3, 2, 1, 0])"

definition v6_segments :: "128 word \<Rightarrow> nat list" where
  "v6_segments a = map (\<lambda>i. unat (drop_bit (16 * i) a) mod 65536) [7, 6, 5, 4, 3, 2, 1, 0]"

definition lower_digit :: "nat \<Rightarrow> char" where
  "lower_digit d = (if d < 10 then digit_char d else char_of (87 + d))"

fun lower_hex :: "nat \<Rightarrow> string" where
  "lower_hex n = (if n < 16 then [lower_digit n] else lower_hex (n div 16) @ [lower_digit (n mod 16)])"

declare lower_hex.simps [simp del]

text \<open>The first longest run of zero segments: its start and length.\<close>

fun zero_span :: "nat \<Rightarrow> nat \<times> nat \<Rightarrow> nat \<times> nat \<Rightarrow> nat list \<Rightarrow> nat \<times> nat" where
  "zero_span i current longest [] = longest"
| "zero_span i current longest (s # ss) =
     (if s = 0
      then let current = (if snd current = 0 then (i, 1) else (fst current, snd current + 1))
           in zero_span (i + 1) current (if snd current > snd longest then current else longest) ss
      else zero_span (i + 1) (0, 0) longest ss)"

definition v6_text :: "128 word \<Rightarrow> string" where
  "v6_text a =
     (let ss = v6_segments a; hex = (\<lambda>ss. join_with '':'' (map lower_hex ss)) in
      if take 6 ss = [0, 0, 0, 0, 0, 65535] then ''::ffff:'' @ v4_text (ucast a)
      else let (start, len) = zero_span 0 (0, 0) (0, 0) ss
           in if len > 1 then hex (take start ss) @ ''::'' @ hex (drop (start + len) ss) else hex ss)"

definition socket_text :: "socket_addr \<Rightarrow> string" where
  "socket_text a =
     (case sa_ip a of
        V4 ip \<Rightarrow> v4_text ip @ '':'' @ decimal (unat (sa_port a))
      | V6 ip \<Rightarrow> ''['' @ v6_text ip @ '']:'' @ decimal (unat (sa_port a)))"

subsection \<open>Helpers of main\<close>

definition DEFAULT_ATTACH_LISTEN :: socket_addr where
  "DEFAULT_ATTACH_LISTEN = \<lparr>sa_ip = V4 0x7F000001, sa_port = 8765\<rparr>"

definition ansi_logs_enabled_for :: "bool \<Rightarrow> string option \<Rightarrow> bool" where
  "ansi_logs_enabled_for is_terminal no_color = (is_terminal \<and> (case no_color of None \<Rightarrow> True | Some v \<Rightarrow> v = []))"

definition plain_shell_byte :: "char \<Rightarrow> bool" where
  "plain_shell_byte b = (is_ascii_alphanumeric b \<or> b \<in> {CHR ''/'', CHR 0x5C, CHR ''.'', CHR ''_'', CHR ''-'', CHR '':''})"

definition quote_char :: char where "quote_char = CHR 0x27"

definition shell_quote :: "string \<Rightarrow> string" where
  "shell_quote v =
     (if list_all plain_shell_byte v then v
      else [quote_char] @ concat (map (\<lambda>c. if c = quote_char then [quote_char, CHR 0x5C, quote_char, quote_char] else [c]) v) @ [quote_char])"

definition format_attach_options :: "socket_addr option \<Rightarrow> string option \<Rightarrow> string" where
  "format_attach_options direct_address relay_config =
     (case direct_address of None \<Rightarrow> [] | Some a \<Rightarrow> '' --direct-address '' @ socket_text a) @
     (case relay_config of None \<Rightarrow> [] | Some p \<Rightarrow> '' --relay-config '' @ shell_quote p)"

datatype cli_error =
    CliConfig config_error | CliUnknownService string | CliState state_error | CliTicket ticket_error
  | CliCombined | CliTcpFlag | CliCapability capability_error | CliConfigArguments | CliNoHostId | CliNoCapability
  | CliRun run_error

definition service_type_of :: "'u service_config list \<Rightarrow> string \<Rightarrow> cli_error + service_type" where
  "service_type_of services service =
     (case find (\<lambda>s. svc_name s = service) services of
        None \<Rightarrow> Inl (CliUnknownService service) | Some s \<Rightarrow> Inr (svc_type s))"

definition normalize_capability :: "string \<Rightarrow> string option \<Rightarrow> bool \<Rightarrow> cli_error + string" where
  "normalize_capability v legacy_secret legacy_tcp =
     (case legacy_secret of
        Some secret \<Rightarrow>
          if is_ok (capability_parse v) then Inl CliCombined
          else Inr (capability_format v (if legacy_tcp then Tcp else Http) secret)
      | None \<Rightarrow>
          if legacy_tcp then Inl CliTcpFlag
          else res_bind (map_err CliCapability (capability_parse v)) (\<lambda>_. Inr v))"

subsection \<open>Commands\<close>

text \<open>The attach command's arguments, and what it goes on to run.\<close>

record attach_args =
  aa_host_id :: "string option"
  aa_capability :: "string option"
  aa_legacy_secret :: "string option"
  aa_config :: "string option"
  aa_tcp :: bool
  aa_listen :: "socket_addr option"
  aa_listen_unix :: "string option"
  aa_tcp_idle_timeout_secs :: "nat option"
  aa_http_timeout_secs :: "nat option"

datatype attach_start = AttachFile string | AttachOne string attachment_config

definition attach_command :: "attach_args \<Rightarrow> cli_error + attach_start" where
  "attach_command a =
     (case aa_config a of
        Some config \<Rightarrow>
          if aa_host_id a \<noteq> None \<or> aa_capability a \<noteq> None \<or> aa_legacy_secret a \<noteq> None \<or> aa_tcp a \<or> aa_listen_unix a \<noteq> None \<or>
             aa_tcp_idle_timeout_secs a \<noteq> None \<or> aa_http_timeout_secs a \<noteq> None \<or> aa_listen a \<noteq> None
          then Inl CliConfigArguments else Inr (AttachFile config)
      | None \<Rightarrow>
          res_bind (ok_or CliNoHostId (aa_host_id a)) (\<lambda>host_id.
          res_bind (ok_or CliNoCapability (aa_capability a)) (\<lambda>v.
          res_bind (normalize_capability v (aa_legacy_secret a) (aa_tcp a)) (\<lambda>cap.
          let listen = (case aa_listen_unix a of
                Some p \<Rightarrow> UnixListen p
              | None \<Rightarrow> TcpListen (case aa_listen a of Some l \<Rightarrow> l | None \<Rightarrow> DEFAULT_ATTACH_LISTEN)) in
          res_bind (map_err CliRun (run_options cap listen (aa_tcp_idle_timeout_secs a) (aa_http_timeout_secs a))) (\<lambda>att.
          Inr (AttachOne host_id att))))))"

text \<open>The printed commands. The state operations are those of the host's state directory.\<close>

definition attach_line :: "string \<Rightarrow> string list \<Rightarrow> string \<Rightarrow> string" where
  "attach_line host_id args options = ''locho attach '' @ host_id @ concat (map (\<lambda>a. '' '' @ a) args) @ options"

definition lift_state :: "'a state_op \<Rightarrow> state_dir \<Rightarrow> (cli_error + 'a) \<times> state_dir" where
  "lift_state m d = (case m d of (res, d) \<Rightarrow> (map_err CliState res, d))"

definition rotate_command ::
  "io_env \<Rightarrow> key_api \<Rightarrow> persisted_host_state codec \<Rightarrow> string \<Rightarrow> string \<Rightarrow> (config_error + 'u service_config list) option \<Rightarrow>
   string \<Rightarrow> socket_addr option \<Rightarrow> string option \<Rightarrow> state_dir \<Rightarrow> (cli_error + string) \<times> state_dir" where
  "rotate_command io keys sc fresh new_secret config service direct relay d =
     (case (case config of
              None \<Rightarrow> Inr None
            | Some loaded \<Rightarrow> res_bind (map_err CliConfig loaded) (\<lambda>services. res_bind (service_type_of services service) (\<lambda>t. Inr (Some t)))) of
        Inl e \<Rightarrow> (Inl e, d)
      | Inr ty \<Rightarrow>
          (case lift_state (rotate_secret io keys sc fresh new_secret service) d of
             (Inl e, d) \<Rightarrow> (Inl e, d)
           | (Inr (host_id, secret), d) \<Rightarrow>
               (Inr (attach_line host_id
                  (case ty of Some t \<Rightarrow> [capability_format service t secret] | None \<Rightarrow> [service, secret])
                  (format_attach_options direct relay)), d)))"

definition secret_command ::
  "io_env \<Rightarrow> key_api \<Rightarrow> persisted_host_state codec \<Rightarrow> (config_error + 'u service_config list) \<Rightarrow> string \<Rightarrow> state_dir \<Rightarrow>
   (cli_error + string) \<times> state_dir" where
  "secret_command io keys sc config service d =
     (case res_bind (map_err CliConfig config) (\<lambda>services. service_type_of services service) of
        Inl e \<Rightarrow> (Inl e, d)
      | Inr t \<Rightarrow>
          (case lift_state (read_service_secret io keys sc service) d of
             (Inl e, d) \<Rightarrow> (Inl e, d)
           | (Inr secret, d) \<Rightarrow> (Inr (capability_format service t secret), d)))"

definition share_command ::
  "'w url_api \<Rightarrow> payload codec \<Rightarrow> base64_api \<Rightarrow> io_env \<Rightarrow> key_api \<Rightarrow> persisted_host_state codec \<Rightarrow>
   (config_error + 'u service_config list) \<Rightarrow> string \<Rightarrow> bool \<Rightarrow> string list \<Rightarrow> socket_addr option \<Rightarrow> string option \<Rightarrow>
   state_dir \<Rightarrow> (cli_error + string) \<times> state_dir" where
  "share_command api plc b io keys sc config service ticket relays direct relay d =
     (case res_bind (map_err CliConfig config) (\<lambda>services. service_type_of services service) of
        Inl e \<Rightarrow> (Inl e, d)
      | Inr t \<Rightarrow>
          (case lift_state (op_bind (read_service_secret io keys sc service) (\<lambda>secret.
                  op_bind (read_host_endpoint_id io keys sc) (\<lambda>host_id. op_return (secret, host_id)))) d of
             (Inl e, d) \<Rightarrow> (Inl e, d)
           | (Inr (secret, host_id), d) \<Rightarrow>
               (if ticket
                then map_err CliTicket (res_bind (ticket_new api plc b host_id (capability_format service t secret) relays) (ticket_encode plc b))
                else Inr (attach_line host_id [capability_format service t secret] (format_attach_options direct relay)), d)))"

subsection \<open>Words of a shell\<close>

text \<open>
  The text of one word: outside quotes a backslash quotes the next character, single quotes take
  everything up to the next one; \<open>None\<close> for an open quote, for a backslash at the end of the line,
  which joins the next line to the word, and for characters that mean something to the shell.
\<close>

definition shell_plain :: "char \<Rightarrow> bool" where
  "shell_plain c = (is_ascii_alphanumeric c \<or> c \<in> {CHR ''/'', CHR ''.'', CHR ''_'', CHR ''-'', CHR '':'', CHR '','', CHR ''+'', CHR ''@''})"

fun sh_word :: "bool \<Rightarrow> string \<Rightarrow> string option" where
  "sh_word quoted [] = (if quoted then None else Some [])"
| "sh_word quoted (c # cs) =
     (if quoted
      then if c = quote_char then sh_word False cs else map_option (Cons c) (sh_word True cs)
      else if c = quote_char then sh_word True cs
      else if c = CHR 0x5C then (case cs of [] \<Rightarrow> None | d # ds \<Rightarrow> map_option (Cons d) (sh_word False ds))
      else if shell_plain c then map_option (Cons c) (sh_word False cs)
      else None)"

lemma plain_shell_byte_cases: "plain_shell_byte c \<Longrightarrow> c \<noteq> quote_char \<and> (c = CHR 0x5C \<or> shell_plain c)"
  by (auto simp: plain_shell_byte_def shell_plain_def quote_char_def ascii_defs)

lemma sh_word_plain: "list_all plain_shell_byte v \<Longrightarrow> CHR 0x5C \<notin> set v \<Longrightarrow> sh_word False v = Some v"
proof (induction v)
  case (Cons c v)
  with plain_shell_byte_cases [of c] have "c \<noteq> quote_char" "c \<noteq> CHR 0x5C" "shell_plain c" by auto
  with Cons show ?case by simp
qed simp

lemma sh_word_length: "sh_word quoted v = Some w \<Longrightarrow> length w \<le> length v"
proof (induction quoted v arbitrary: w rule: sh_word.induct)
  case (2 quoted c cs)
  then show ?case by (fastforce split: if_splits list.splits)
qed (auto split: if_splits)

text \<open>A backslash outside quotes is dropped, so the word is not the text.\<close>

lemma sh_word_backslash: "list_all plain_shell_byte v \<Longrightarrow> CHR 0x5C \<in> set v \<Longrightarrow> sh_word False v \<noteq> Some v"
proof (induction v)
  case (Cons c v)
  have q: "CHR 0x5C \<noteq> quote_char" by (simp add: quote_char_def)
  show ?case
  proof (cases "c = CHR 0x5C")
    case True
    show ?thesis
    proof
      assume eq: "sh_word False (c # v) = Some (c # v)"
      with True q obtain d ds w where "v = d # ds" "sh_word False ds = Some w" "length w = Suc (length ds)"
        by (auto split: list.splits)
      with sh_word_length [of False ds w] show False by simp
    qed
  next
    case False
    with Cons have "sh_word False v \<noteq> Some v" by auto
    with False plain_shell_byte_cases [of c] Cons.prems show ?thesis by auto
  qed
qed simp

lemma sh_word_quoted:
  "sh_word True (concat (map (\<lambda>c. if c = quote_char then [quote_char, CHR 0x5C, quote_char, quote_char] else [c]) v) @ [quote_char]) = Some v"
proof (induction v)
  case (Cons c v)
  have "CHR 0x5C \<noteq> quote_char" by (simp add: quote_char_def)
  with Cons show ?case by simp
qed simp


definition attach_of :: "string \<Rightarrow> string \<Rightarrow> string option \<Rightarrow> attach_args" where
  "attach_of host v legacy_secret = \<lparr>aa_host_id = Some host, aa_capability = Some v, aa_legacy_secret = legacy_secret, aa_config = None,
     aa_tcp = False, aa_listen = None, aa_listen_unix = None, aa_tcp_idle_timeout_secs = None, aa_http_timeout_secs = None\<rparr>"

lemma run_options_plain:
  assumes "capability_parse v = Inr cap"
  shows "\<exists>att. run_options v (TcpListen l) None None = Inr att \<and> at_capability att = cap \<and> at_listen att = TcpListen l"
proof (cases "cap_service_type cap")
  case Http
  with assms show ?thesis
    by (simp add: run_options_def run_http_timeout_def run_idle_timeout_def resolve_http_timeout_def HTTP_REQUEST_TIMEOUT_def
        MAX_HTTP_REQUEST_TIMEOUT_SECS_def from_secs_def)
next
  case Tcp
  with assms show ?thesis
    by (simp add: run_options_def run_http_timeout_def run_idle_timeout_def resolve_tcp_idle_timeout_def)
qed

lemma safe_name_no_capability: "is_safe_service_name service \<Longrightarrow> \<not> is_ok (capability_parse service)"
  using capability_parse_sound [of service] safe_name_no_colon [of service]
  by (cases "capability_parse service") (auto simp: capability_text_def capability_format_def)



end
