(* ===== verification/Diagnostics.thy ===== *)
theory Diagnostics
  imports Host_Startup Session_Status
begin

text \<open>
  The \<open>diagnose\<close> command, \<open>src/diagnostics.rs\<close>: it reports the relay configuration, the state
  directory, the service configuration and, on request, whether a host can be reached and over
  which path. A run is what it prints and does to the endpoint, in order, and its result. It reads
  the state directory without changing it. Besides the surroundings of a start, its parameters are
  the parser of endpoint identities, which gives an identity's canonical text, and what the network
  does. The checks of file modes are those of Unix.
\<close>

subsection \<open>Output and results\<close>

datatype diag_error =
    DiagDirectAddress | DiagState state_error | DiagRelay relay_file_error | DiagBroadMode string u32 | DiagInspect string
  | DiagKeyLength | DiagParseState | DiagSchema u8 | DiagEndpointId | DiagIdentityMismatch | DiagEmptyCapability
  | DiagConfig config_error | DiagHostId | DiagEndpoint | DiagProbeFailed string | DiagProbeTimeout

datatype diag_event = Printed string | EndpointBound | ConnectionShut | EndpointClosed

type_synonym 'a diag = "diag_event list \<times> (diag_error + 'a)"

definition diag_bind :: "'a diag \<Rightarrow> ('a \<Rightarrow> 'b diag) \<Rightarrow> 'b diag" where
  "diag_bind m f =
     (case m of (out, Inl e) \<Rightarrow> (out, Inl e) | (out, Inr x) \<Rightarrow> (case f x of (out', r) \<Rightarrow> (out @ out', r)))"

definition diag_result :: "diag_error + 'a \<Rightarrow> 'a diag" where
  "diag_result r = ([], r)"

definition println :: "string \<Rightarrow> unit diag" where
  "println s = ([Printed s], Inr ())"

definition diag_event :: "diag_event \<Rightarrow> unit diag" where
  "diag_event e = ([e], Inr ())"

subsection \<open>Checks of the state\<close>

definition report_state_file :: "io_env \<Rightarrow> string \<Rightarrow> string \<Rightarrow> state_dir \<Rightarrow> unit diag" where
  "report_state_file io name label d =
     (case sd_files d name of
        None \<Rightarrow> println (label @ '': not initialized'')
      | Some f \<Rightarrow>
          if io_inspect_fails io name then diag_result (Inl (DiagInspect name))
          else
            let mode = and (f_mode f) 0x1FF in
            if and mode 0x3F \<noteq> 0 then diag_result (Inl (DiagBroadMode label mode))
            else println (label @ '': present and private''))"

definition validate_host_key :: "io_env \<Rightarrow> key_api \<Rightarrow> state_dir \<Rightarrow> diag_error + string" where
  "validate_host_key io keys d =
     res_bind (map_err DiagState (fst (read_file io host_key_path d))) (\<lambda>data.
     if length data \<noteq> 32 then Inl DiagKeyLength else Inr (key_identity keys data))"

definition empty_capability :: "persisted_host_state \<Rightarrow> bool" where
  "empty_capability st \<longleftrightarrow>
     trim (attach_secret st) = [] \<or>
     (\<exists>name secret. service_secrets st name = Some secret \<and> (trim name = [] \<or> trim secret = []))"

definition validate_host_state ::
  "io_env \<Rightarrow> persisted_host_state codec \<Rightarrow> (string \<Rightarrow> string option) \<Rightarrow> string option \<Rightarrow> state_dir \<Rightarrow> diag_error + unit" where
  "validate_host_state io sc parse_id host_identity d =
     res_bind (map_err DiagState (fst (read_file io host_state_path d))) (\<lambda>data.
     res_bind (ok_or DiagParseState (from_slice sc data)) (\<lambda>st.
     if schema_version st \<noteq> 1 \<and> schema_version st \<noteq> 2 then Inl (DiagSchema (schema_version st))
     else
       res_bind (ok_or DiagEndpointId (parse_id (endpoint_id st))) (\<lambda>i.
       if host_identity \<noteq> None \<and> host_identity \<noteq> Some i then Inl DiagIdentityMismatch
       else if empty_capability st then Inl DiagEmptyCapability
       else Inr ())))"

definition diagnose_state ::
  "io_env \<Rightarrow> key_api \<Rightarrow> persisted_host_state codec \<Rightarrow> (string \<Rightarrow> string option) \<Rightarrow> state_dir \<Rightarrow> unit diag" where
  "diagnose_state io keys sc parse_id d =
     diag_bind (report_state_file io host_key_path ''host identity'' d) (\<lambda>_.
     diag_bind (diag_result (if file_exists host_key_path d
       then res_bind (validate_host_key io keys d) (\<lambda>i. Inr (Some i)) else Inr None)) (\<lambda>host_identity.
     diag_bind (report_state_file io host_state_path ''host state'' d) (\<lambda>_.
     diag_result (if file_exists host_state_path d then validate_host_state io sc parse_id host_identity d else Inr ()))))"

subsection \<open>The transport path\<close>

datatype path_observation = ObservationEnds | PathStreamEnds | PathUpdate "path_info list"

definition has_direct :: "path_info list \<Rightarrow> bool" where
  "has_direct ps = list_ex (\<lambda>(_, ip, _, _). ip) ps"

text \<open>What the loop sees, in order; \<open>None\<close> while the observation still runs.\<close>

fun observe_loop :: "string \<Rightarrow> path_observation list \<Rightarrow> string option" where
  "observe_loop p [] = None"
| "observe_loop p (ObservationEnds # os) = Some p"
| "observe_loop p (PathStreamEnds # os) = Some p"
| "observe_loop p (PathUpdate ps # os) =
     (if has_direct ps then Some (format_transport_paths ps) else observe_loop (format_transport_paths ps) os)"

definition observe_transport_path :: "path_info list \<Rightarrow> path_observation list \<Rightarrow> string option" where
  "observe_transport_path ps os =
     (if has_direct ps then Some (format_transport_paths ps) else observe_loop (format_transport_paths ps) os)"

subsection \<open>The run\<close>

datatype probe = ProbeConnected "path_info list" "path_observation list" | ProbeFailed string | ProbeTimedOut

record 'u diag_env =
  dg_start :: "'u startup_env"
  dg_state_dir :: "state_error + string"
  dg_parse_id :: "string \<Rightarrow> string option"
  dg_connect :: "string \<Rightarrow> socket_addr option \<Rightarrow> probe"

definition bool_text :: "bool \<Rightarrow> string" where
  "bool_text b = (if b then ''true'' else ''false'')"

definition relay_line :: "'u url_api \<Rightarrow> 'u configured_relay \<Rightarrow> string" where
  "relay_line api relay =
     ''relay: '' @ url_to_string api (relay_url relay) @ '' (QAD '' @ (if relay_quic relay then ''enabled'' else ''disabled'') @ '')''"

fun print_all :: "string list \<Rightarrow> unit diag" where
  "print_all [] = diag_result (Inr ())"
| "print_all (s # ss) = diag_bind (println s) (\<lambda>_. print_all ss)"

definition diagnose_relays :: "'u url_api \<Rightarrow> 'u relay_settings option \<Rightarrow> unit diag" where
  "diagnose_relays api settings =
     (case settings of
        None \<Rightarrow> println ''relay configuration: N0 default''
      | Some s \<Rightarrow>
          (case relay_settings_report s of (configured, include_n0) \<Rightarrow>
             print_all
               ((''relay configuration: custom ('' @ decimal (length configured) @ '' relays, include_n0_relays='' @ bool_text include_n0 @ '')'') #
                map (relay_line api) configured)))"

definition type_debug :: "service_type \<Rightarrow> string" where
  "type_debug t = (case t of Http \<Rightarrow> ''Http'' | Tcp \<Rightarrow> ''Tcp'')"

definition diagnose_config :: "'u startup_env \<Rightarrow> string option \<Rightarrow> unit diag" where
  "diagnose_config env config_path =
     (case config_path of
        None \<Rightarrow> println ''configuration: not checked (use --config PATH)''
      | Some p \<Rightarrow>
          diag_bind (diag_result (map_err DiagConfig
            (config_load (se_urls env) False (se_read env) (se_pem_ok env) (se_config_toml env) p))) (\<lambda>services.
          print_all
            ((''configuration: valid ('' @ decimal (length services) @ '' services from '' @ p @ '')'') #
             map (\<lambda>svc. ''service: '' @ svc_name svc @ '' ('' @ type_debug (svc_type svc) @ '')'') services)))"

text \<open>The probe; \<open>None\<close> while the path is still being observed.\<close>

definition diagnose_probe :: "'u diag_env \<Rightarrow> string \<Rightarrow> socket_addr option \<Rightarrow> unit diag option" where
  "diagnose_probe env host_id direct =
     (case dg_parse_id env host_id of
        None \<Rightarrow> Some (diag_result (Inl DiagHostId))
      | Some node_id \<Rightarrow>
          if \<not> se_endpoint_binds (dg_start env) then Some (diag_result (Inl DiagEndpoint))
          else
            map_option (\<lambda>m. diag_bind (diag_event EndpointBound) (\<lambda>_. m))
              (case dg_connect env node_id direct of
                 ProbeFailed e \<Rightarrow> Some (diag_bind (diag_event EndpointClosed) (\<lambda>_. diag_result (Inl (DiagProbeFailed e))))
               | ProbeTimedOut \<Rightarrow> Some (diag_bind (diag_event EndpointClosed) (\<lambda>_. diag_result (Inl DiagProbeTimeout)))
               | ProbeConnected ps os \<Rightarrow>
                   map_option (\<lambda>p.
                     diag_bind (println ''connectivity: reachable'') (\<lambda>_.
                     diag_bind (println (''transport path: '' @ p)) (\<lambda>_.
                     diag_bind (diag_event ConnectionShut) (\<lambda>_. diag_event EndpointClosed))))
                     (observe_transport_path ps os)))"

definition diagnose_local :: "'u diag_env \<Rightarrow> string option \<Rightarrow> string option \<Rightarrow> state_dir \<Rightarrow> unit diag" where
  "diagnose_local env config_path relay_path d =
     (let st = dg_start env in
      diag_bind (println ''locho diagnostics'') (\<lambda>_.
      diag_bind (diag_result (map_err DiagState (dg_state_dir env))) (\<lambda>dir.
      diag_bind (println (''state directory: '' @ dir)) (\<lambda>_.
      diag_bind (diag_result (map_err DiagRelay
        (relay_file_load (se_urls st) (se_header_value_ok st) (se_n0_map st) (se_env st) (se_relay_toml st) (se_read st) relay_path))) (\<lambda>settings.
      diag_bind (diagnose_relays (se_urls st) settings) (\<lambda>_.
      diag_bind (diagnose_state (se_io st) (se_keys st) (se_codec st) (dg_parse_id env) d) (\<lambda>_.
      diagnose_config st config_path)))))))"

definition diagnose ::
  "'u diag_env \<Rightarrow> string option \<Rightarrow> string option \<Rightarrow> string option \<Rightarrow> socket_addr option \<Rightarrow> state_dir \<Rightarrow> unit diag option" where
  "diagnose env config_path relay_path host_id direct d =
     (if direct \<noteq> None \<and> host_id = None then Some (diag_result (Inl DiagDirectAddress))
      else
        case diagnose_local env config_path relay_path d of
          (out, Inl e) \<Rightarrow> Some (out, Inl e)
        | (out, Inr _) \<Rightarrow>
            map_option (\<lambda>(out', r). (out @ out', r))
              (case host_id of
                 None \<Rightarrow> Some (println ''connectivity: not checked (use --host-id HOST_ID)'')
               | Some i \<Rightarrow> diagnose_probe env i direct))"

subsection \<open>Lemmas\<close>

lemma trim_not_Nil:
  assumes "c \<in> set s" "\<not> is_trim_space c"
  shows "trim s \<noteq> []"
proof -
  have "c \<in> set (takeWhile is_trim_space s) \<union> set (dropWhile is_trim_space s)"
    using assms(1) by (metis set_append takeWhile_dropWhile_id)
  with assms(2) have "c \<in> set (dropWhile is_trim_space s)" by (auto dest: set_takeWhileD)
  with assms(2) show ?thesis by (auto simp: trim_def)
qed

lemma safe_name_not_blank:
  assumes "is_safe_service_name name"
  shows "trim name \<noteq> []"
proof -
  from assms obtain c where "c \<in> set name" "safe_name_byte c"
    by (cases name) (auto simp: is_safe_service_name_def)
  then show ?thesis by (intro trim_not_Nil) (auto simp: safe_name_byte_def ascii_defs)
qed

lemma private_mode: "is_private mode \<Longrightarrow> and (and mode 0x1FF) 0x3F = 0"
  by (simp add: is_private_def OTHERS_MASK_def and.assoc)

text \<open>The key file after a start.\<close>

lemma host_key_file:
  assumes "load_or_create_host_secret_key io keys d = (Inr key, d')"
  shows "\<exists>f. sd_files d' host_key_path = Some f \<and> f_bytes f = key \<and> is_private (f_mode f) \<and> (length key = 32 \<or> key = key_generate keys)"
proof (cases "file_exists host_key_path d")
  case True
  with assms show ?thesis
    by (auto simp: load_or_create_host_secret_key_def state_op_simps ensure_private_file_def read_file_def is_private_def
        PRIVATE_MODE_def OTHERS_MASK_def split: if_splits option.splits)
next
  case False
  with assms obtain d1 where "write_file_atomic io host_key_path (key_generate keys) d = (Inr (), d1)" "key = key_generate keys" "d' = d1"
    by (auto simp: load_or_create_host_secret_key_def state_op_simps split: if_splits)
  with write_file_atomic_Inr show ?thesis by fastforce
qed

definition keeps_key_file :: "'a state_op \<Rightarrow> bool" where
  "keeps_key_file m \<longleftrightarrow> (\<forall>d. sd_files (snd (m d)) host_key_path = sd_files d host_key_path)"

lemma keeps_key_bind: "keeps_key_file m \<Longrightarrow> (\<And>x. keeps_key_file (f x)) \<Longrightarrow> keeps_key_file (op_bind m f)"
  unfolding keeps_key_file_def op_bind_def by (auto split: prod.splits sum.splits) (metis snd_conv)+

lemma keeps_key_write: "keeps_key_file (write_host_state_file io sc st)"
  unfolding keeps_key_file_def
proof
  fix d
  obtain res d' where "write_host_state_file io sc st d = (res, d')" by fastforce
  then show "sd_files (snd (write_host_state_file io sc st d)) host_key_path = sd_files d host_key_path"
    using write_file_atomic_result [of io host_state_path _ d res d']
    by (auto simp: write_host_state_file_def op_fail_def split: option.splits)
qed

lemma keeps_key_simple:
  "keeps_key_file (op_return x)" "keeps_key_file (op_fail e)" "keeps_key_file (read_file io name)"
  "keeps_key_file (ensure_private_file io host_state_path)"
  by (auto simp: keeps_key_file_def op_return_def op_fail_def read_file_def ensure_private_file_def split: option.splits)

lemma keeps_key_parse: "keeps_key_file (parse_state_file io sc)"
  unfolding parse_state_file_def
  by (auto intro!: keeps_key_bind keeps_key_simple split: option.split sum.split)

lemma keeps_key_load: "keeps_key_file (load_or_create_host_state io sc fresh identity)"
proof -
  have "keeps_key_file (op_bind (parse_state_file io sc) (\<lambda>st.
      let (st, changed) = upgrade_state fresh identity st
      in if changed then op_bind (write_host_state_file io sc st) (\<lambda>_. op_return st) else op_return st))"
    "keeps_key_file (op_bind (write_host_state_file io sc st) (\<lambda>_. op_return st))" for st
    by (auto simp: Let_def intro!: keeps_key_bind keeps_key_parse keeps_key_write keeps_key_simple split: prod.split)
  then show ?thesis unfolding keeps_key_file_def load_or_create_host_state_def by (simp add: Let_def)
qed

text \<open>The state a start works with.\<close>

lemma load_state_content:
  assumes "load_or_create_host_state io sc fresh identity d = (Inr st, d')" "trim fresh \<noteq> []"
  shows "trim (attach_secret st) \<noteq> [] \<and> endpoint_id st = identity \<and> schema_version st = CURRENT_SCHEMA_VERSION \<and>
    (\<forall>name secret. service_secrets st name = Some secret \<longrightarrow> (\<exists>st0. persisted sc d = Some st0 \<and> service_secrets st0 name = Some secret))"
proof (cases "file_exists host_state_path d")
  case False
  with assms show ?thesis by (auto simp: load_or_create_host_state_def Let_def state_op_simps)
next
  case True
  with assms(1) obtain st0 d1 where p: "parse_state_file io sc d = (Inr st0, d1)"
    and k: "(let (st, changed) = upgrade_state fresh identity st0
      in if changed then op_bind (write_host_state_file io sc st) (\<lambda>_. op_return st) else op_return st) d1 = (Inr st, d')"
    by (auto simp: load_or_create_host_state_def op_bind_Inr)
  obtain st1 changed where u1: "upgrade_state fresh identity st0 = (st1, changed)" by fastforce
  with k have "st1 = st" by (auto simp: state_op_simps split: if_splits)
  with u1 have u: "upgrade_state fresh identity st0 = (st, changed)" by simp
  from parse_state_file_result [OF p] have st0: "persisted sc d = Some st0"
    "schema_version st0 \<in> {CURRENT_SCHEMA_VERSION, LEGACY_SCHEMA_VERSION}" by auto
  moreover from u assms(2) have "trim (attach_secret st) \<noteq> []"
    by (auto simp: upgrade_state_def repair_host_state_def Let_def split: if_splits)
  ultimately show ?thesis using upgrade_state_simps [OF u st0(2)] by simp
qed

lemma save_state_file:
  assumes "codec_roundtrip sc" "save_host_state io sc st d = (Inr (), d')"
  shows "\<exists>f. sd_files d' host_state_path = Some f \<and> is_private (f_mode f) \<and> from_slice sc (f_bytes f) = Some st"
proof -
  from assms(2) obtain data where data: "to_vec sc st = Some data" and w: "write_file_atomic io host_state_path data d = (Inr (), d')"
    by (auto simp: save_host_state_def write_host_state_file_def state_op_simps split: option.splits)
  from write_file_atomic_Inr [OF w] data assms(1) show ?thesis by (auto simp: codec_roundtrip_def)
qed

lemma start_locked_files:
  assumes sc: "codec_roundtrip (se_codec env)" and start: "start_locked env bind_address services d = (Inr (hs, identity), d')"
    and fresh: "trim (se_attach_secret env) \<noteq> []"
  shows "\<exists>kf sf st stored. sd_files d' host_key_path = Some kf \<and> is_private (f_mode kf) \<and>
      (length (f_bytes kf) = 32 \<or> f_bytes kf = key_generate (se_keys env)) \<and> identity = key_identity (se_keys env) (f_bytes kf) \<and>
    sd_files d' host_state_path = Some sf \<and> is_private (f_mode sf) \<and>
    from_slice (se_codec env) (f_bytes sf) = Some (st\<lparr>service_secrets := hs_secrets hs\<rparr>) \<and>
    trim (attach_secret st) \<noteq> [] \<and> endpoint_id st = identity \<and> schema_version st = CURRENT_SCHEMA_VERSION \<and>
    hs = prepare_services (se_fresh env) services stored \<and>
    (\<forall>name secret. stored name = Some secret \<longrightarrow>
      (\<exists>st0. persisted (se_codec env) d = Some st0 \<and> service_secrets st0 name = Some secret))"
proof -
  from start obtain key d1 st d2 where
    k: "load_or_create_host_secret_key (se_io env) (se_keys env) d = (Inr key, d1)" "identity = key_identity (se_keys env) key"
    and l: "load_or_create_host_state (se_io env) (se_codec env) (se_attach_secret env) identity d1 = (Inr st, d2)"
    and hs: "hs = prepare_services (se_fresh env) services (service_secrets st)"
    and s: "save_host_state (se_io env) (se_codec env) (st\<lparr>service_secrets := hs_secrets hs\<rparr>) d2 = (Inr (), d')"
    by (auto simp: start_locked_def state_op_simps Let_def)
  from keeps_key_load l keeps_key_write s have "sd_files d' host_key_path = sd_files d1 host_key_path"
    unfolding keeps_key_file_def save_host_state_def by (metis snd_conv)
  moreover from host_key_file [OF k(1)] obtain kf where
    "sd_files d1 host_key_path = Some kf" "f_bytes kf = key" "is_private (f_mode kf)" "length key = 32 \<or> key = key_generate (se_keys env)"
    by blast
  moreover from load_state_content [OF l fresh] host_key_keeps_state [OF k(1), of "se_codec env"]
  have "trim (attach_secret st) \<noteq> []" "endpoint_id st = identity" "schema_version st = CURRENT_SCHEMA_VERSION"
    "\<forall>name secret. service_secrets st name = Some secret \<longrightarrow>
      (\<exists>st0. persisted (se_codec env) d = Some st0 \<and> service_secrets st0 name = Some secret)" by auto
  moreover from save_state_file [OF sc s] obtain sf where "sd_files d' host_state_path = Some sf" "is_private (f_mode sf)"
    "from_slice (se_codec env) (f_bytes sf) = Some (st\<lparr>service_secrets := hs_secrets hs\<rparr>)" by blast
  ultimately show ?thesis using k(2) hs
    by - (rule exI [of _ kf], rule exI [of _ sf], rule exI [of _ st], rule exI [of _ "service_secrets st"], simp)
qed

text \<open>What the checks of the state ask for, at once.\<close>

lemma diagnose_state_ok:
  assumes kf: "sd_files d host_key_path = Some kf" "is_private (f_mode kf)" "length (f_bytes kf) = 32"
    and sf: "sd_files d host_state_path = Some sf" "is_private (f_mode sf)" "from_slice sc (f_bytes sf) = Some st"
    and st: "schema_version st = CURRENT_SCHEMA_VERSION" "parse_id (endpoint_id st) = Some (key_identity keys (f_bytes kf))"
      "\<not> empty_capability st"
    and io: "\<And>n. \<not> io_inspect_fails io n" "\<And>n. \<not> io_read_fails io n"
  shows "diagnose_state io keys sc parse_id d =
    ([Printed ''host identity: present and private'', Printed ''host state: present and private''], Inr ())"
proof -
  have "validate_host_key io keys d = Inr (key_identity keys (f_bytes kf))"
    using kf io by (simp add: validate_host_key_def read_file_def)
  moreover have "validate_host_state io sc parse_id (Some (key_identity keys (f_bytes kf))) d = Inr ()"
    using sf st io by (simp add: validate_host_state_def read_file_def CURRENT_SCHEMA_VERSION_def)
  ultimately show ?thesis
    using kf sf io private_mode
    by (simp add: diagnose_state_def report_state_file_def diag_bind_def diag_result_def println_def file_exists_def Let_def)
qed


lemma print_all_output: "\<exists>ss'. print_all ss = (map Printed ss', Inr ())"
  by (induction ss) (auto simp: diag_bind_def diag_result_def println_def intro: exI [of _ "[]"] exI [of _ "_ # _"])

text \<open>What a part without network prints only.\<close>

definition only_prints :: "'a diag \<Rightarrow> bool" where
  "only_prints m \<longleftrightarrow> list_all (\<lambda>e. \<exists>s. e = Printed s) (fst m)"

lemma only_prints_bind: "only_prints m \<Longrightarrow> (\<And>x. only_prints (f x)) \<Longrightarrow> only_prints (diag_bind m f)"
  unfolding only_prints_def diag_bind_def by (auto split: prod.splits sum.splits) (metis fst_conv)

lemma only_prints_simple: "only_prints (diag_result r)" "only_prints (println s)"
  by (auto simp: only_prints_def diag_result_def println_def)

lemma only_prints_all: "only_prints (print_all ss)"
  by (induction ss) (auto intro!: only_prints_bind only_prints_simple)

lemma only_prints_state: "only_prints (diagnose_state io keys sc parse_id d)"
  unfolding diagnose_state_def report_state_file_def
  by (auto intro!: only_prints_bind only_prints_simple simp: Let_def split: option.split)

lemma only_prints_local: "only_prints (diagnose_local env config_path relay_path d)"
  unfolding diagnose_local_def diagnose_relays_def diagnose_config_def Let_def
  by (intro only_prints_bind only_prints_simple only_prints_state)
    (auto intro!: only_prints_bind only_prints_simple only_prints_all split: option.split prod.split simp del: print_all.simps)

text \<open>Events other than printing, of the probe and of a whole run.\<close>

definition endpoint_events :: "diag_event list \<Rightarrow> diag_event list" where
  "endpoint_events es = filter (\<lambda>e. e = EndpointBound \<or> e = ConnectionShut \<or> e = EndpointClosed) es"

lemma endpoint_events_prints: "only_prints m \<Longrightarrow> endpoint_events (fst m) = []"
  by (auto simp: only_prints_def endpoint_events_def list_all_iff filter_empty_conv)

lemma probe_events:
  assumes "diagnose_probe env i direct = Some (out, r)"
  shows "endpoint_events out =
    (if r \<in> {Inl DiagHostId, Inl DiagEndpoint} then []
     else if r = Inr () then [EndpointBound, ConnectionShut, EndpointClosed] else [EndpointBound, EndpointClosed])"
  using assms
  by (auto simp: diagnose_probe_def diag_bind_def diag_result_def println_def diag_event_def endpoint_events_def
      split: option.splits if_splits probe.splits)

text \<open>
  A diagnosis leaves no endpoint open and only uses the network on request: in every run that
  returns, the endpoint is bound only when a host is to be probed and everything before has
  passed, and then it is closed again, after the connection when there was one, whatever the probe
  found; every error of the local checks comes before any use of the network.
\<close>

theorem diagnosis_closes_endpoint:
  "case diagnose env config_path relay_path host_id direct d of
     None \<Rightarrow> host_id \<noteq> None
   | Some (out, r) \<Rightarrow>
       endpoint_events out =
         (if host_id = None \<or> (\<exists>e. snd (diagnose_local env config_path relay_path d) = Inl e) \<or> r \<in> {Inl DiagHostId, Inl DiagEndpoint} then []
          else if r = Inr () then [EndpointBound, ConnectionShut, EndpointClosed] else [EndpointBound, EndpointClosed])"
proof -
  obtain out1 r1 where loc: "diagnose_local env config_path relay_path d = (out1, r1)" by fastforce
  with only_prints_local [of env config_path relay_path d] have none: "endpoint_events out1 = []"
    using endpoint_events_prints by fastforce
  show ?thesis
  proof (cases host_id)
    case None
    with loc none show ?thesis
      by (cases r1) (auto simp: diagnose_def diag_result_def println_def endpoint_events_def)
  next
    case (Some i)
    with loc none probe_events [of env i direct] show ?thesis
      by (cases r1; cases "diagnose_probe env i direct") (auto simp: diagnose_def endpoint_events_def)
  qed
qed

text \<open>The path reported is the first with a direct address, and otherwise the last one seen.\<close>

lemma observe_loop_updates:
  "e = ObservationEnds \<or> e = PathStreamEnds \<Longrightarrow>
   observe_loop (format_transport_paths ps) (map PathUpdate us @ e # os) =
     Some (format_transport_paths (case find has_direct us of Some q \<Rightarrow> q | None \<Rightarrow> last (ps # us)))"
  by (induction us arbitrary: ps) (auto split: option.split)

lemma observed_path_exact:
  assumes "e = ObservationEnds \<or> e = PathStreamEnds"
  shows "observe_transport_path ps (map PathUpdate us @ e # os) =
    Some (format_transport_paths (case find has_direct (ps # us) of Some q \<Rightarrow> q | None \<Rightarrow> last (ps # us)))"
  using observe_loop_updates [OF assms, of ps us os] by (simp add: observe_transport_path_def)

subsection \<open>Witness\<close>


end
