(* ===== verification/Commands.thy ===== *)
theory Commands
  imports Cli Diagnostics
begin

text \<open>
  The program's commands, \<open>main\<close> of \<open>src/main.rs\<close>: the arguments as \<open>clap\<close> accepts them, and for each
  command what it goes on to do, with the surroundings of the parts it calls. A command works on two
  directories: the state directory of the host and the one that holds an attachment file. A host
  that has started keeps the lock of the state directory until it stops, and an attachment runs on
  from the listeners and options given here. Setting up the log is left out.
\<close>

subsection \<open>Arguments\<close>

datatype command =
    CmdHost string "string option" "socket_addr option"
  | CmdResetIdentity
  | CmdRotateSecret string "string option" "string option" "socket_addr option"
  | CmdSecret string string
  | CmdShare string string bool "string list" "string option" "socket_addr option"
  | CmdDiagnose "string option" "string option" "string option" "socket_addr option"
  | CmdAttach attach_args "string option" "socket_addr option"

text \<open>The declared conflicts and requirements.\<close>

fun clap_accepts :: "command \<Rightarrow> bool" where
  "clap_accepts (CmdShare service config ticket peer_relays relay_config direct) =
     ((ticket \<longrightarrow> relay_config = None \<and> direct = None) \<and> (peer_relays \<noteq> [] \<longrightarrow> ticket))"
| "clap_accepts (CmdAttach a relay_config direct) = (aa_listen a = None \<or> aa_listen_unix a = None)"
| "clap_accepts _ = True"

subsection \<open>Running a command\<close>

datatype main_error =
    MainUsage | MainCli cli_error | MainStart startup_error | MainState state_error | MainDiag diag_error
  | MainRelay relay_file_error | MainRun run_error

datatype 'u command_end =
    EndPrinted string
  | EndReset
  | EndServing "'u host_services" string
  | EndDiagnosed "diag_event list"
  | EndDiagnosing
  | EndAttach string "attachment_config list" "socket_addr option" "'u relay_settings option"

record 'u cli_env =
  ce_diag :: "'u diag_env"
  ce_payloads :: "payload codec"
  ce_base64 :: base64_api
  ce_new_secret :: string
  ce_attach_toml :: "bytes \<Rightarrow> attach_config option"

record cli_world =
  cw_state :: state_dir
  cw_config :: state_dir

definition command_config :: "'u cli_env \<Rightarrow> string \<Rightarrow> config_error + 'u service_config list" where
  "command_config env p =
     (let st = dg_start (ce_diag env)
      in config_load (se_urls st) False (se_read st) (se_pem_ok st) (se_config_toml st) p)"

definition command_relay :: "'u cli_env \<Rightarrow> string option \<Rightarrow> relay_file_error + 'u relay_settings option" where
  "command_relay env p =
     (let st = dg_start (ce_diag env)
      in relay_file_load (se_urls st) (se_header_value_ok st) (se_n0_map st) (se_env st) (se_relay_toml st) (se_read st) p)"

definition on_state :: "(state_dir \<Rightarrow> ('e + 'a) \<times> state_dir) \<Rightarrow> ('e \<Rightarrow> main_error) \<Rightarrow> ('a \<Rightarrow> 'b) \<Rightarrow> cli_world \<Rightarrow> (main_error + 'b) \<times> cli_world" where
  "on_state m err end w =
     (case m (cw_state w) of
        (Inl e, d) \<Rightarrow> (Inl (err e), w\<lparr>cw_state := d\<rparr>)
      | (Inr x, d) \<Rightarrow> (Inr (end x), w\<lparr>cw_state := d\<rparr>))"

definition run_diagnose ::
  "'u cli_env \<Rightarrow> string option \<Rightarrow> string option \<Rightarrow> string option \<Rightarrow> socket_addr option \<Rightarrow> cli_world \<Rightarrow>
   (main_error + 'u command_end) \<times> cli_world" where
  "run_diagnose env config relay_config host_id direct w =
     (case diagnose (ce_diag env) config relay_config host_id direct (cw_state w) of
        None \<Rightarrow> (Inr EndDiagnosing, w)
      | Some (out, Inl e) \<Rightarrow> (Inl (MainDiag e), w)
      | Some (out, Inr _) \<Rightarrow> (Inr (EndDiagnosed out), w))"

definition run_attach ::
  "'u cli_env \<Rightarrow> attach_args \<Rightarrow> string option \<Rightarrow> socket_addr option \<Rightarrow> cli_world \<Rightarrow> (main_error + 'u command_end) \<times> cli_world" where
  "run_attach env a relay_config direct w =
     (case attach_command a of
        Inl e \<Rightarrow> (Inl (MainCli e), w)
      | Inr (AttachOne host_id att) \<Rightarrow>
          (res_bind (map_err MainRelay (command_relay env relay_config)) (\<lambda>relay. Inr (EndAttach host_id [att] direct relay)), w)
      | Inr (AttachFile config) \<Rightarrow>
          (case run_config (se_io (dg_start (ce_diag env))) (ce_attach_toml env) config direct (cw_config w) of
             (Inl e, d) \<Rightarrow> (Inl (MainRun e), w\<lparr>cw_config := d\<rparr>)
           | (Inr (host_id, atts, direct), d) \<Rightarrow>
               (res_bind (map_err MainRelay (command_relay env relay_config)) (\<lambda>relay. Inr (EndAttach host_id atts direct relay)),
                w\<lparr>cw_config := d\<rparr>)))"

definition run_command :: "'u cli_env \<Rightarrow> command \<Rightarrow> cli_world \<Rightarrow> (main_error + 'u command_end) \<times> cli_world" where
  "run_command env cmd w =
     (let st = dg_start (ce_diag env); io = se_io st; keys = se_keys st; sc = se_codec st in
      if \<not> clap_accepts cmd then (Inl MainUsage, w)
      else case cmd of
        CmdHost config relay_config bind_address \<Rightarrow>
          on_state (host_startup st config relay_config bind_address) MainStart (\<lambda>(hs, i). EndServing hs i) w
      | CmdResetIdentity \<Rightarrow> on_state (reset_identity io) MainState (\<lambda>_. EndReset) w
      | CmdRotateSecret service config relay_config direct \<Rightarrow>
          on_state (rotate_command io keys sc (se_attach_secret st) (ce_new_secret env)
            (map_option (command_config env) config) service direct relay_config) MainCli EndPrinted w
      | CmdSecret service config \<Rightarrow>
          on_state (secret_command io keys sc (command_config env config) service) MainCli EndPrinted w
      | CmdShare service config ticket peer_relays relay_config direct \<Rightarrow>
          on_state (share_command (se_urls st) (ce_payloads env) (ce_base64 env) io keys sc (command_config env config)
            service ticket peer_relays direct relay_config) MainCli EndPrinted w
      | CmdDiagnose config relay_config host_id direct \<Rightarrow> run_diagnose env config relay_config host_id direct w
      | CmdAttach a relay_config direct \<Rightarrow> run_attach env a relay_config direct w)"

subsection \<open>What commands do to the state\<close>

text \<open>Operations that change no content, and operations that change none while the lock is held.\<close>

definition same_contents :: "state_dir \<Rightarrow> state_dir \<Rightarrow> bool" where
  "same_contents d d' \<longleftrightarrow> (\<forall>n. file_bytes n d' = file_bytes n d) \<and> sd_locked d' = sd_locked d"

definition reads_only :: "(state_dir \<Rightarrow> 'r \<times> state_dir) \<Rightarrow> bool" where
  "reads_only m \<longleftrightarrow> (\<forall>d. same_contents d (snd (m d)))"

definition same_host_files :: "state_dir \<Rightarrow> state_dir \<Rightarrow> bool" where
  "same_host_files d d' \<longleftrightarrow> file_bytes host_key_path d' = file_bytes host_key_path d \<and>
     file_bytes host_state_path d' = file_bytes host_state_path d \<and> sd_locked d' = sd_locked d"

definition respects_lock :: "(state_dir \<Rightarrow> ('e + 'a) \<times> state_dir) \<Rightarrow> bool" where
  "respects_lock m \<longleftrightarrow> (\<forall>d. sd_locked d \<longrightarrow> same_host_files d (snd (m d)) \<and> (\<exists>e. fst (m d) = Inl e))"

lemma same_contents_refl [simp]: "same_contents d d"
  by (simp add: same_contents_def)

lemma same_contents_trans: "same_contents d d1 \<Longrightarrow> same_contents d1 d2 \<Longrightarrow> same_contents d d2"
  by (simp add: same_contents_def)

lemma same_contents_host: "same_contents d d' \<Longrightarrow> same_host_files d d'"
  by (simp add: same_contents_def same_host_files_def)

named_theorems reading

lemma reads_only_bind [reading]:
  assumes "reads_only m" "\<And>x. reads_only (f x)"
  shows "reads_only (op_bind m f)"
  unfolding reads_only_def
proof
  fix d
  obtain r d1 where m: "m d = (r, d1)" by fastforce
  with assms(1) have d1: "same_contents d d1" by (metis reads_only_def snd_conv)
  show "same_contents d (snd (op_bind m f d))"
  proof (cases r)
    case (Inl e)
    with m d1 show ?thesis by (simp add: op_bind_def)
  next
    case (Inr x)
    with m d1 assms(2) [of x] show ?thesis by (auto simp: op_bind_def reads_only_def intro: same_contents_trans)
  qed
qed

lemma reads_only_simple [reading]: "reads_only (op_return x)" "reads_only (op_fail e)" "reads_only (read_file io name)"
  by (auto simp: reads_only_def op_return_def op_fail_def read_file_def split: option.split)

lemma reads_only_ensure [reading]: "reads_only (ensure_private_file io name)"
  unfolding reads_only_def same_contents_def using ensure_private_bytes [of io name] by (metis surjective_pairing)

lemma reads_only_parse [reading]: "reads_only (parse_state_file io sc)"
  unfolding parse_state_file_def
  by (intro reads_only_bind reading) (auto intro!: reading split: option.split sum.split)

lemma reads_only_state [reading]: "reads_only (read_host_state io keys sc)"
proof -
  have "reads_only (op_bind (parse_state_file io sc) (\<lambda>st.
      if identity_parses keys (endpoint_id st) then op_return st else op_fail InvalidHostIdInState))"
    by (auto intro!: reading)
  then show ?thesis by (auto simp: reads_only_def read_host_state_def)
qed

lemma reads_only_key [reading]: "reads_only (read_existing_host_endpoint_id io keys)"
proof -
  have "reads_only (op_bind (ensure_private_file io host_key_path) (\<lambda>_. op_bind (read_file io host_key_path) (\<lambda>data.
      if length data \<noteq> 32 then op_fail InvalidKeyLength else op_return (key_identity keys data))))"
    by (auto intro!: reading)
  then show ?thesis by (auto simp: reads_only_def read_existing_host_endpoint_id_def)
qed

lemma reads_only_secret [reading]: "reads_only (read_service_secret io keys sc service)"
  unfolding read_service_secret_def by (auto intro!: reading split: option.split)

lemma reads_only_id [reading]: "reads_only (read_host_endpoint_id io keys sc)"
  unfolding read_host_endpoint_id_def by (auto intro!: reading)

lemma reads_only_lift: "reads_only m \<Longrightarrow> reads_only (lift_state m)"
  by (auto simp: reads_only_def lift_state_def split: prod.split) (metis snd_conv)

lemma reads_only_secret_command: "reads_only (secret_command io keys sc config service)"
  unfolding reads_only_def
proof
  fix d
  have "reads_only (lift_state (read_service_secret io keys sc service))" by (intro reads_only_lift reading)
  then have "same_contents d (snd (lift_state (read_service_secret io keys sc service) d))" by (simp add: reads_only_def)
  then show "same_contents d (snd (secret_command io keys sc config service d))"
    by (auto simp: secret_command_def split: sum.split prod.split)
qed

lemma reads_only_share_command: "reads_only (share_command api plc b io keys sc config service ticket hints direct relay)"
  unfolding reads_only_def
proof
  fix d
  have "reads_only (lift_state (op_bind (read_service_secret io keys sc service) (\<lambda>secret.
      op_bind (read_host_endpoint_id io keys sc) (\<lambda>host_id. op_return (secret, host_id)))))"
    by (intro reads_only_lift reading)
  then have "same_contents d (snd (lift_state (op_bind (read_service_secret io keys sc service) (\<lambda>secret.
      op_bind (read_host_endpoint_id io keys sc) (\<lambda>host_id. op_return (secret, host_id)))) d))" by (simp add: reads_only_def)
  then show "same_contents d (snd (share_command api plc b io keys sc config service ticket hints direct relay d))"
    by (auto simp: share_command_def split: sum.split prod.split)
qed

lemma acquire_locked:
  assumes "sd_locked d"
  shows "same_host_files d (snd (acquire_state_lock io d)) \<and> (\<exists>e. fst (acquire_state_lock io d) = Inl e)"
  using assms by (simp add: acquire_state_lock_def same_host_files_def file_bytes_def Let_def)

lemma respects_lock_with: "respects_lock (with_state_lock io m)"
  unfolding respects_lock_def
proof (intro allI impI)
  fix d :: state_dir assume "sd_locked d"
  from acquire_locked [OF this, of io] obtain e d1 where "acquire_state_lock io d = (Inl e, d1)" "same_host_files d d1"
    by (cases "acquire_state_lock io d") auto
  then show "same_host_files d (snd (with_state_lock io m d)) \<and> (\<exists>e. fst (with_state_lock io m d) = Inl e)"
    by (simp add: with_state_lock_def op_bind_def)
qed

lemma respects_lock_startup: "respects_lock (host_startup env config relay_config bind_address)"
  unfolding respects_lock_def
proof (intro allI impI)
  fix d :: state_dir assume "sd_locked d"
  from acquire_locked [OF this, of "se_io env"] obtain e d1 where
    a: "acquire_state_lock (se_io env) d = (Inl e, d1)" "same_host_files d d1"
    by (cases "acquire_state_lock (se_io env) d") auto
  have "same_host_files d d" by (simp add: same_host_files_def)
  with a show "same_host_files d (snd (host_startup env config relay_config bind_address d)) \<and>
      (\<exists>e. fst (host_startup env config relay_config bind_address d) = Inl e)"
    by (auto simp: host_startup_def start_bind_def pure_start_def state_start_def split: sum.split prod.split)
qed

lemma respects_lock_rotate: "respects_lock (rotate_command io keys sc fresh new_secret config service direct relay)"
  unfolding respects_lock_def
proof (intro allI impI)
  fix d :: state_dir assume l: "sd_locked d"
  have "respects_lock (rotate_secret io keys sc fresh new_secret service)"
    unfolding rotate_secret_def by (rule respects_lock_with)
  with l obtain e d1 where r: "rotate_secret io keys sc fresh new_secret service d = (Inl e, d1)" "same_host_files d d1"
    by (cases "rotate_secret io keys sc fresh new_secret service d") (auto simp: respects_lock_def dest: spec [of _ d])
  have "same_host_files d d" by (simp add: same_host_files_def)
  with r show "same_host_files d (snd (rotate_command io keys sc fresh new_secret config service direct relay d)) \<and>
      (\<exists>e. fst (rotate_command io keys sc fresh new_secret config service direct relay d) = Inl e)"
    by (auto simp: rotate_command_def lift_state_def split: sum.split)
qed

lemma on_state_world: "cw_state (snd (on_state m err end w)) = snd (m (cw_state w)) \<and> cw_config (snd (on_state m err end w)) = cw_config w"
  by (auto simp: on_state_def split: prod.split sum.split)

lemma on_state_error: "fst (m (cw_state w)) = Inl e \<Longrightarrow> fst (on_state m err end w) = Inl (err e)"
  by (cases "m (cw_state w)") (simp add: on_state_def)

lemma respects_lock_on:
  assumes "respects_lock m" "sd_locked (cw_state w)"
  shows "same_host_files (cw_state w) (cw_state (snd (on_state m err end w))) \<and> (\<exists>e. fst (on_state m err end w) = Inl e)"
  using assms on_state_error [of m w _ err "end"] by (auto simp: respects_lock_def on_state_world)

lemma run_attach_state: "cw_state (snd (run_attach env a relay_config direct w)) = cw_state w"
  by (auto simp: run_attach_def split: sum.split prod.split attach_start.split)

lemma run_diagnose_world: "snd (run_diagnose env config relay_config host_id direct w) = w"
  by (auto simp: run_diagnose_def split: option.split sum.split prod.split)

text \<open>The commands that write, and what the others do to the state directory.\<close>

fun writes_state :: "command \<Rightarrow> bool" where
  "writes_state (CmdHost _ _ _) = True"
| "writes_state CmdResetIdentity = True"
| "writes_state (CmdRotateSecret _ _ _ _) = True"
| "writes_state _ = False"

lemma reading_command:
  assumes "\<not> writes_state cmd"
  shows "same_contents (cw_state w) (cw_state (snd (run_command env cmd w)))"
  using assms
  by (cases cmd) (auto simp: run_command_def Let_def on_state_world run_attach_state run_diagnose_world
      reads_only_secret_command [unfolded reads_only_def, rule_format] reads_only_share_command [unfolded reads_only_def, rule_format])

lemma writing_command:
  assumes "writes_state cmd" "sd_locked (cw_state w)"
  shows "same_host_files (cw_state w) (cw_state (snd (run_command env cmd w))) \<and> (\<exists>e. fst (run_command env cmd w) = Inl e)"
proof -
  have "same_host_files (cw_state w) (cw_state w)" by (simp add: same_host_files_def)
  with assms show ?thesis
    by (cases cmd)
      (simp_all add: run_command_def Let_def respects_lock_on [OF respects_lock_startup] respects_lock_on [OF respects_lock_rotate]
        respects_lock_on [OF respects_lock_with] reset_identity_def)
qed

subsection \<open>What the commands read\<close>

lemma read_host_state_Inr:
  assumes "read_host_state io keys sc d = (Inr st, d')"
  shows "persisted sc d = Some st \<and> same_contents d d'"
proof -
  from assms obtain d1 where "parse_state_file io sc d = (Inr st, d1)"
    by (auto simp: read_host_state_def state_op_simps split: if_splits)
  with parse_state_file_result have "persisted sc d = Some st" by blast
  moreover have "reads_only (read_host_state io keys sc)" by (rule reading)
  ultimately show ?thesis using assms by (metis reads_only_def snd_conv)
qed

lemma read_service_secret_Inr:
  assumes "read_service_secret io keys sc service d = (Inr secret, d')"
  shows "\<exists>st. persisted sc d = Some st \<and> service_secrets st service = Some secret"
  using assms read_host_state_Inr [of io keys sc d]
  by (fastforce simp: read_service_secret_def state_op_simps split: option.splits)

lemma read_host_endpoint_id_Inr:
  assumes "read_host_endpoint_id io keys sc d = (Inr i, d')"
  shows "\<exists>key. file_bytes host_key_path d = Some key \<and> i = key_identity keys key"
proof -
  from assms obtain st d1 d2 where s: "read_host_state io keys sc d = (Inr st, d1)"
    and e: "read_existing_host_endpoint_id io keys d1 = (Inr i, d2)"
    by (auto simp: read_host_endpoint_id_def state_op_simps split: if_splits)
  from e have "\<exists>key. file_bytes host_key_path d1 = Some key \<and> i = key_identity keys key"
    by (auto simp: read_existing_host_endpoint_id_def op_fail_def op_return_def split: if_splits dest!: private_read_Inr)
  with read_host_state_Inr [OF s] show ?thesis by (simp add: same_contents_def)
qed

text \<open>The ticket that \<open>share\<close> prints is made of the stored secret and the stored identity.\<close>

lemma share_ticket_Inr:
  assumes "share_command api plc b io keys sc config service True hints direct relay d = (Inr txt, d')"
  shows "\<exists>services ty secret key st t. config = Inr services \<and> service_type_of services service = Inr ty \<and>
    persisted sc d = Some st \<and> service_secrets st service = Some secret \<and> file_bytes host_key_path d = Some key \<and>
    ticket_new api plc b (key_identity keys key) (capability_format service ty secret) hints = Inr t \<and>
    ticket_encode plc b t = Inr txt"
proof -
  let ?read = "op_bind (read_service_secret io keys sc service) (\<lambda>secret.
    op_bind (read_host_endpoint_id io keys sc) (\<lambda>host_id. op_return (secret, host_id)))"
  obtain rr dr where rr: "?read d = (rr, dr)" by fastforce
  from assms obtain services ty where c: "config = Inr services" "service_type_of services service = Inr ty"
    by (cases config) (auto simp: share_command_def split: sum.splits)
  with assms rr obtain secret i where "rr = Inr (secret, i)"
    and tk: "res_bind (ticket_new api plc b i (capability_format service ty secret) hints) (ticket_encode plc b) = Inr txt"
    by (cases rr) (auto simp: share_command_def lift_state_def result_simps)
  with rr obtain d1 d2 where s: "read_service_secret io keys sc service d = (Inr secret, d1)"
    and e: "read_host_endpoint_id io keys sc d1 = (Inr i, d2)"
    by (auto simp: state_op_simps)
  have "reads_only (read_service_secret io keys sc service)" by (rule reading)
  with s have "same_contents d d1" by (metis reads_only_def snd_conv)
  with read_service_secret_Inr [OF s] read_host_endpoint_id_Inr [OF e] c tk show ?thesis
    by (auto simp: same_contents_def result_simps)
qed

text \<open>What a started host leaves for the commands: its key, and a state with the secrets of its services.\<close>

lemma started_host:
  assumes sc: "codec_roundtrip (se_codec env)"
    and start: "host_startup env config relay bind_address d = (Inr (hs, i), d')"
  obtains key st where
    "config_load (se_urls env) False (se_read env) (se_pem_ok env) (se_config_toml env) config = Inr (hs_services hs)"
    "file_bytes host_key_path d' = Some key" "i = key_identity (se_keys env) key"
    "persisted (se_codec env) d' = Some st" "service_secrets st = hs_secrets hs"
proof -
  from host_startup_Inr [OF start] obtain services d0 where
    c: "config_load (se_urls env) False (se_read env) (se_pem_ok env) (se_config_toml env) config = Inr services"
    and s: "start_locked env bind_address services d0 = (Inr (hs, i), d')" by metis
  from start_locked_Inr [OF sc s] obtain key da db st where
    k: "load_or_create_host_secret_key (se_io env) (se_keys env) d0 = (Inr key, da)" "i = key_identity (se_keys env) key"
    and l: "load_or_create_host_state (se_io env) (se_codec env) (se_attach_secret env) i da = (Inr st, db)"
    and hs: "hs = prepare_services (se_fresh env) services (service_secrets st)"
    and p: "persisted (se_codec env) d' = Some (st\<lparr>service_secrets := hs_secrets hs\<rparr>)"
      "file_bytes host_key_path d' = file_bytes host_key_path db" by metis
  have key: "file_bytes host_key_path d' = Some key" using host_key_Inr [OF k(1)] new_state_key [OF sc l] p(2) by simp
  have "hs_services hs = services" by (simp add: hs prepare_services_def)
  with c have "config_load (se_urls env) False (se_read env) (se_pem_ok env) (se_config_toml env) config = Inr (hs_services hs)"
    by simp
  from that [OF this key k(2) p(1)] show thesis by simp
qed

text \<open>A ticket shared on a directory that a started host has left: the host's identity and the service's secret.\<close>

lemma shared_on_host:
  assumes sc: "codec_roundtrip (se_codec (dg_start (ce_diag env)))"
    and start: "host_startup (dg_start (ce_diag env)) config relay bind_address d = (Inr (hs, i), d')"
    and share: "run_command env (CmdShare service config True hints None None) \<lparr>cw_state = d', cw_config = dc\<rparr> = (Inr (EndPrinted txt), w)"
  obtains svc secret t where "find_service service (hs_services hs) = Some svc" "hs_secrets hs service = Some secret"
    "ticket_new (se_urls (dg_start (ce_diag env))) (ce_payloads env) (ce_base64 env) i
       (capability_format service (svc_type svc) secret) hints = Inr t"
    "ticket_encode (ce_payloads env) (ce_base64 env) t = Inr txt"
proof -
  let ?st = "dg_start (ce_diag env)"
  from started_host [OF sc start] obtain key st where
    c: "config_load (se_urls ?st) False (se_read ?st) (se_pem_ok ?st) (se_config_toml ?st) config = Inr (hs_services hs)"
    and s: "file_bytes host_key_path d' = Some key" "i = key_identity (se_keys ?st) key"
      "persisted (se_codec ?st) d' = Some st" "service_secrets st = hs_secrets hs" by metis
  obtain r d2 where "share_command (se_urls ?st) (ce_payloads env) (ce_base64 env) (se_io ?st) (se_keys ?st) (se_codec ?st)
      (command_config env config) service True hints None None d' = (r, d2)" by fastforce
  with share have "share_command (se_urls ?st) (ce_payloads env) (ce_base64 env) (se_io ?st) (se_keys ?st) (se_codec ?st)
      (command_config env config) service True hints None None d' = (Inr txt, d2)"
    by (cases r) (auto simp: run_command_def on_state_def Let_def)
  from share_ticket_Inr [OF this] c s that show thesis
    by (auto simp: command_config_def service_type_of_def find_service_def split: option.splits)
qed

subsection \<open>Properties\<close>

text \<open>
  C12. While a host runs, no other command changes its identity or its secrets. Whatever command is
  run on a state directory whose lock is held, with whatever arguments and failures, the key and
  the state keep their content and the lock stays with its holder; another host, a rotation and a
  reset end in an error. The commands that only read, secret, share, diagnose and attach, never
  change the content of any file of the directory, locked or not.
\<close>

theorem commands_respect_lock:
  "(if sd_locked (cw_state w)
    then same_host_files (cw_state w) (cw_state (snd (run_command env cmd w))) \<and>
      (if writes_state cmd then \<exists>e. fst (run_command env cmd w) = Inl e else True)
    else True) \<and>
   (if writes_state cmd then True else same_contents (cw_state w) (cw_state (snd (run_command env cmd w))))"
  using reading_command [of cmd w env] writing_command [of cmd w env] same_contents_host by auto

end
