(* ===== verification/Spec2Isabelle.thy ===== *)
theory Spec2Isabelle
  imports Tunnel Native_Client Host_Startup Web_Connect Unix_Socket Dns_Race Mobile_Api Tasks Listener_Group Commands
begin

text \<open>
  Verification development of \<^emph>\<open>locho\<close>, a private tunnel for HTTP and TCP services. A \<^emph>\<open>host\<close> publishes
  services of its machine under a cryptographic identity; a client that holds a \<^emph>\<open>capability\<close> (service,
  type, secret), usually inside a \<^emph>\<open>ticket\<close>, reaches them over an \<open>iroh\<close> connection. Paths below are
  relative to \<open>src/\<close> of the repository.

  \<^bold>\<open>The program and its parts.\<close>

  \<^item> \<open>crates/locho-core\<close>: capabilities and secret proofs, the wire protocol, the peer session that keeps
    one connection alive, relay policy, tickets. Used by everything else.
  \<^item> \<open>src/\<close>: the program. \<open>host\<close> loads a configuration and the persistent state, accepts connections
    and handles each stream: it authenticates the request head, then forwards an HTTP request or relays
    a TCP connection. \<open>attach\<close> binds local listeners, keeps a peer session and carries local
    connections and requests over it. \<open>share\<close>, \<open>secret\<close>, \<open>rotate-secret\<close>, \<open>reset-identity\<close> and
    \<open>diagnose\<close> work on the state of a host.
  \<^item> \<open>crates/locho-client-native\<close>: listeners, Unix sockets and the embeddable client with its registry of
    attachments; \<open>packages/locho_flutter/rust\<close> exposes it to Dart.
  \<^item> \<open>crates/locho-web\<close>: the browser client, with its own HTTP/1.1 subset over a TCP service.

  \<^bold>\<open>Theories.\<close> Each holds the data, the operations in the order of the source, lemmas, and the
  properties of its component.

  \<^item> \<open>Prelude\<close>: \<open>Result\<close>, \<open>?\<close>, durations, ASCII classes, text and list functions of Rust's library,
    with their lemmas (collections \<open>result_simps\<close> and \<open>wire_simps\<close>, bundle \<open>ascii_defs\<close>).
  \<^item> \<open>Step_Systems\<close>: the interfaces of state machines (below).
  \<^item> \<open>Capability\<close> (\<open>locho-core/src/capability.rs\<close>, \<open>service.rs\<close>, \<open>auth.rs\<close>): parsing accepts exactly the
    canonical texts; a proof is accepted exactly for its secret.
  \<^item> \<open>Wire_Protocol\<close>, \<open>Idle_Relay\<close> (\<open>locho-core/src/protocol.rs\<close>): heads and bodies read back what was
    written and nothing after it, limits and timeouts; the relay gives up exactly after an idle period.
  \<^item> \<open>Session_Status\<close>, \<open>Session_Driver\<close>, \<open>Session_Client\<close> (\<open>locho-core/src/session.rs\<close>): the driver as a
    program counter with one value per \<open>await\<close> and per write to shared state, interleaved with the other
    tasks; leases by generation; opening and closing. Status and connection stay consistent in every
    interleaving, old leases are harmless, a stop ends.
  \<^item> \<open>Relay_Policy\<close> (\<open>locho-core/src/relay.rs\<close>, \<open>src/relay.rs\<close>) and \<open>Tickets\<close> (\<open>locho-core/src/ticket.rs\<close>):
    well-formedness of what is accepted, and exactly when a ticket reads back.
  \<^item> \<open>Config\<close> (\<open>src/config.rs\<close>, \<open>src/attach_config.rs\<close>): what a validated configuration guarantees, and
    which error the first fault gives.
  \<^item> \<open>Http_Utils\<close>, \<open>Host_Forward\<close>, \<open>Host\<close> (\<open>src/http_utils.rs\<close>, \<open>src/host.rs\<close>): header filtering, the joining
    of URLs, forwarding with its body task, the stream handler, the accept loops with the limit on
    relays. Nothing reaches a service without its secret; validated configurations do not panic.
  \<^item> \<open>Host_State\<close> (\<open>src/state.rs\<close>), \<open>Host_Startup\<close> (start of \<open>src/host.rs\<close>): the state directory under faults
    of every system call. Writes are all or nothing at every moment, files stay private, restarts keep
    identity and secrets.
  \<^item> \<open>Listeners\<close>, \<open>Serve\<close>, \<open>Listener_Group\<close> (\<open>locho-client-native/src/listener.rs\<close>, \<open>forward.rs\<close>, the listeners
    of \<open>src/attach.rs\<close>): retry of \<open>accept\<close>, the admission contract, one serving loop, and all loops of a
    process over one semaphore, which implement the contract.
  \<^item> \<open>Attach_Http\<close>, \<open>Attach_Run\<close> (\<open>src/attach.rs\<close>): a local request over a leased connection and the
    statuses of its failures; the start, supervision and end of all listeners.
  \<^item> \<open>Unix_Socket\<close> (\<open>locho-client-native/src/unix.rs\<close>, \<open>unix/filesystem.rs\<close>): directory checks, binding and
    removal while other processes act on the same entry.
  \<^item> \<open>Native_Client\<close> (\<open>locho-client-native/src/client.rs\<close>, \<open>error.rs\<close>), \<open>Mobile_Api\<close>
    (\<open>locho_flutter/rust/src/api/simple.rs\<close>, \<open>android.rs\<close>): the life of an attachment, the registry, the
    calls of a Dart program.
  \<^item> \<open>Web_Http\<close>, \<open>Web_Response\<close>, \<open>Web_Client\<close>, \<open>Web_Requests\<close>, \<open>Web_Connect\<close> (\<open>locho-web/src/http.rs\<close>,
    \<open>lib.rs\<close>, \<open>addressing.rs\<close>): requests that cannot be split, responses decoded independently of how
    they arrive, streaming with its owner task, limits, connecting.
  \<^item> \<open>Dns_Race\<close> (\<open>src/dns.rs\<close>), \<open>Tasks\<close> (\<open>src/task.rs\<close>), \<open>Diagnostics\<close> (\<open>src/diagnostics.rs\<close>).
  \<^item> \<open>Cli\<close>, \<open>Commands\<close> (\<open>src/main.rs\<close>): what commands print and accept; every command from its arguments
    to its effect on the state directory and its lock.
  \<^item> \<open>Tunnel\<close> and this theory: both ends together. \<open>tcp_verdict\<close> is the contract of the TCP handshake,
    without any wire format; the theorems here run the client against the host, an HTTP request to the
    upstream and back, and a ticket from \<open>share\<close> to the verdict of the host that was shared.

  \<^bold>\<open>How code becomes definitions.\<close> A struct is a record and an enum a datatype with the constructors of the
  source (suffixed where HOL has the name). \<open>Result\<close> is a sum with the error on the left; an \<open>anyhow\<close>
  error is a datatype with one constructor per place that raises it. A text is the list of its bytes.
  Numbers that reach the wire or can overflow are words (\<open>u8\<close> to \<open>u64\<close>); numbers that are only counted or
  compared are naturals, and each theory says which. An asynchronous operation is \<open>Done\<close>, \<open>Fail\<close> or
  \<open>Hang\<close>; time is an argument or an event. Code that changes files is a function of the state directory
  and of which system calls fail. Tasks that share state are step functions over actions, and the
  theorems quantify over all sequences of actions, which are all interleavings.

  \<^bold>\<open>Interfaces.\<close> \<open>Step_Systems\<close> has four locales. \<open>invariant_system\<close> (an invariant that holds initially and is
  kept by every step holds in every reachable state) is interpreted for the session, peers, host,
  admission, serving loops, registry, state directory, browser streams and browser pages;
  \<open>revisioned_system\<close> (an equal revision means an unchanged status) for the session and the native
  attachment; \<open>bounded_progress\<close> (a rank that falls until a goal) for stopping and closing the session
  driver; \<open>simulation\<close>, which extends the first by an abstract system, for the listeners of a process
  against the admission contract. \<open>framing\<close> in \<open>Wire_Protocol\<close> (an item is read back whatever follows it)
  is interpreted for body chunks, and the client's lemma on whole bodies follows from it.

  \<^bold>\<open>Bounds and fuel.\<close> Every constant of the source keeps its value: heads of 1 MiB, 128 connections per
  listener and 512 in all, 512 streams per session, tickets of 8192 bytes, timeouts. All loops are
  total functions with a measure on the unread input, except \<open>drain\<close>, the reader of a whole framed
  sequence, whose fuel is one unit per item; the length of the input is proved to be enough. A waiting
  operation takes the list of what it sees, whose end is its deadline.

  \<^bold>\<open>Parameters.\<close> Third-party code is an argument of the definitions that use it: \<open>serde_json\<close> and \<open>toml\<close>
  (\<open>codec\<close>), \<open>base64\<close>, \<open>url\<close> (\<open>url_api\<close>), \<open>http\<close>, \<open>hyper\<close>, \<open>reqwest\<close> and \<open>httparse\<close>, SHA-256 and the
  constant-time comparison (\<open>crypto_api\<close>), key derivation, \<open>iroh\<close> (connections, paths, lookups), JNI and
  the browser's streams, the kernel (\<open>io_env\<close>, \<open>unix_os\<close>). Theorems that rely on their documented behaviour
  say so by name: \<open>codec_roundtrip\<close>, \<open>codecs_ok\<close>, \<open>b64_roundtrip\<close>, \<open>ct_eq_is_equality\<close>, \<open>hex_is_base16\<close>,
  \<open>header_roundtrip\<close>, \<open>url_setters_keep_origin\<close>. A property that assumes one of them has a witness
  with a concrete instance of the parameter.

  \<^bold>\<open>Not modelled.\<close> Generated marshalling of the Flutter bridge (\<open>frb_generated.rs\<close>); the build script and the
  example \<open>dns-probe.rs\<close>; the Dart and TypeScript wrappers; log lines and the display texts of errors
  that nothing reads; installing signal handlers; switches compiled only for the integration tests;
  branches for Windows. The transport delivers what was written in order or fails: the network below
  \<open>iroh\<close> is not modelled, nor is the secrecy of its encryption.
\<close>

subsection \<open>The tunnel from end to end\<close>

text \<open>
  C1. The TCP handshake implements its contract: for a host prepared from a validated
  configuration, the client that presents a capability and the host that handles its stream agree
  on the verdict of the contract. The host relays exactly when the verdict is 200, and then the
  client succeeds, the host has read nothing of the application data that follows the handshake and
  the client nothing of what the service sends; for any other verdict the host has answered and the
  client reports the service's rejection with exactly that status.
\<close>

theorem tcp_handshake_refines:
  assumes "codecs_ok (he_reqc env) (he_respc env)" "ct_eq_is_equality (he_crypto env)"
    and config: "config_validate api it rf pem services = Inr ()"
    and hs: "hs = prepare_services fresh services stored"
    and json: "to_vec (he_reqc env) (tcp_head_of (he_crypto env) cap) = Some json" "length json \<le> MAX_HEAD_LEN"
    and host: "handle_stream env hs free
      \<lparr>r_bytes = w_sent (snd (authorize_tcp (he_crypto env) (he_reqc env) (he_respc env) cap new_writer r0)) @ upload,
       r_end = e\<rparr> new_writer = (res, hr, hw)"
    and client: "client = fst (authorize_tcp (he_crypto env) (he_reqc env) (he_respc env) cap new_writer
      \<lparr>r_bytes = w_sent hw @ download, r_end = e'\<rparr>)"
  shows "if tcp_verdict env hs free cap = 200
    then (\<exists>endpoint idle. res = StreamRelaying endpoint idle) \<and> r_bytes hr = upload \<and>
      client = Done \<lparr>r_bytes = download, r_end = e'\<rparr>
    else res = StreamAnswered (Done ()) \<and> client = Fail (SessServiceRejected (tcp_verdict env hs free cap))"
proof -
  have svcs: "config_validate api it rf pem (hs_services hs) = Inr ()"
    using config hs by (simp add: prepare_services_def)
  from handle_tcp_verdict [OF assms(1,2) svcs, of free cap] prepared_secret [OF config] hs obtain w tres where
    h: "handle_tcp_stream (he_crypto env) (he_respc env) (he_connect_timeout env) (he_connect env) hs free
      \<lparr>tcp_version = PROTOCOL_VERSION, tcp_service = cap_service cap,
       tcp_secret_proof = secret_proof (he_crypto env) (cap_secret cap)\<rparr> new_writer = (tres, w)"
    and a: "answered (he_respc env) (tcp_verdict env hs free cap) w"
    and res: "if tcp_verdict env hs free cap = 200 then \<exists>endpoint idle. tres = TcpRelaying endpoint idle
      else tres = TcpAnswered (Done ())"
    by blast
  from assms(1) json(1) have dec: "from_slice (he_reqc env) json = Some (tcp_head_of (he_crypto env) cap)"
    by (auto simp: codecs_ok_def codec_roundtrip_def)
  from handle_stream_tcp [OF dec [unfolded tcp_head_of_def] json(2) h, of upload e] host
    authorize_tcp_sends [OF json, of "he_respc env" r0]
  have "res = of_tcp_result tres" "hr = \<lparr>r_bytes = upload, r_end = e\<rparr>" "hw = w" by simp_all
  with res authorize_tcp_answered [OF json a, of download e'] tcp_verdict_rejected [of env hs free cap]
  show ?thesis by (auto simp: client)
qed

theorem tcp_handshake_refines_witness:
  "\<exists>res hr hw. handle_stream tunnel_env demo_host 5
      \<lparr>r_bytes = w_sent (snd (authorize_tcp sample_crypto (he_reqc tunnel_env) (he_respc tunnel_env) sample_cap new_writer
         \<lparr>r_bytes = [], r_end = Eof\<rparr>)) @ ''select'', r_end = Eof\<rparr> new_writer = (res, hr, hw) \<and>
    (\<exists>endpoint idle. res = StreamRelaying endpoint idle) \<and> r_bytes hr = ''select'' \<and>
    fst (authorize_tcp sample_crypto (he_reqc tunnel_env) (he_respc tunnel_env) sample_cap new_writer
      \<lparr>r_bytes = w_sent hw @ ''rows'', r_end = Eof\<rparr>) = Done \<lparr>r_bytes = ''rows'', r_end = Eof\<rparr>"
proof -
  obtain res hr hw where h: "handle_stream tunnel_env demo_host 5
      \<lparr>r_bytes = w_sent (snd (authorize_tcp (he_crypto tunnel_env) (he_reqc tunnel_env) (he_respc tunnel_env) sample_cap
         new_writer \<lparr>r_bytes = [], r_end = Eof\<rparr>)) @ ''select'', r_end = Eof\<rparr> new_writer = (res, hr, hw)"
    by (metis prod_cases3)
  from tcp_handshake_refines [OF tunnel_codecs tunnel_ct demo_services_valid(1) demo_host_def tunnel_request_json h refl,
      where download = "''rows''" and e' = Eof] h tunnel_verdict
  show ?thesis by (simp add: tunnel_env_crypto)
qed

text \<open>
  C2. An HTTP request through the tunnel: a local request whose body is data within the limits,
  sent for a service the host serves with this secret, reaches the upstream as exactly the request
  its route determines, the same method, path, forwardable headers and body bytes; and if the
  upstream answers it with a response that fits the tunnel, the handler ends well and the local
  client gets that response's status, its end-to-end headers and exactly its body bytes.
\<close>

theorem http_request_end_to_end:
  assumes codecs: "codec_roundtrip (he_reqc env)" "codec_roundtrip (he_respc env)"
    and same: "ae_crypto aenv = he_crypto env" "ae_http aenv = he_http env" "ae_reqc aenv = he_reqc env"
      "ae_respc aenv = he_respc env" and ct: "ct_eq_is_equality (he_crypto env)"
    and hs: "hs = prepare_services fresh services stored"
    and req: "local_data req ds" "to_vec (he_reqc env) (HttpHead (request_head_of aenv req)) = Some json"
      "length json \<le> MAX_HEAD_LEN"
    and up: "http_route env hs req ds = Some ur" "uc_send (he_client env) ur = Reply response"
      "uc_room (he_client env) = None" "tunnelable (he_respc env) (he_http env) response"
  shows "\<exists>w hr hw resp blocks. send_request aenv req new_writer = (Done (), w) \<and>
    handle_stream env hs free \<lparr>r_bytes = w_sent w, r_end = e\<rparr> new_writer = (StreamAnswered (Done ()), hr, hw) \<and>
    receive_response aenv \<lparr>r_bytes = w_sent hw, r_end = e'\<rparr> = Inr resp \<and>
    hr_status resp = up_status response \<and>
    hr_headers resp = filter (\<lambda>(n, _). \<not> is_hop_by_hop_header n)
      (pairs_to_headers (he_http env) (headers_to_pairs (he_http env) (up_headers response))) \<and>
    response_stream (hr_body_len resp) (hr_reader resp) = (blocks, Inr \<lparr>r_bytes = [], r_end = e'\<rparr>) \<and>
    concat blocks = concat (up_chunks response)"
proof -
  let ?w = "\<lparr>w_sent = json_frame json @ wire_body (tr_exact_len req) ds, w_limit = None\<rparr>"
  let ?hw = "snd (write_response (he_respc env) (he_http env) response new_writer)"
  have sent: "send_request aenv req new_writer = (Done (), ?w)"
    by (rule send_request_data [OF req(1)]) (use req same in simp_all)
  have dec: "from_slice (he_reqc env) json = Some (HttpHead (request_head_of aenv req))"
    using codecs(1) req(2) by (simp add: codec_roundtrip_def)
  have handled: "handle_http_stream (he_crypto env) (he_urls env) (he_http env) (he_respc env) (he_client env) hs
      (request_head_of aenv req) \<lparr>r_bytes = wire_body (tr_exact_len req) ds, r_end = e\<rparr> new_writer = (Done (), ?hw)"
    by (rule handle_http_routed [OF up(1,2,3) req(1) up(4) ct same(1)]) (use prepared_client hs in blast)
  from handle_stream_http [OF dec req(3) handled, of free]
    receive_tunnelled [OF codecs(2) up(4) same(4,2), of e'] sent
  show ?thesis by fastforce
qed

theorem http_request_end_to_end_witness:
  "\<exists>w hr hw resp blocks. send_request demo_web_attach demo_web_request new_writer = (Done (), w) \<and>
    handle_stream demo_web_env demo_host 7 \<lparr>r_bytes = w_sent w, r_end = Eof\<rparr> new_writer = (StreamAnswered (Done ()), hr, hw) \<and>
    receive_response demo_web_attach \<lparr>r_bytes = w_sent hw, r_end = Eof\<rparr> = Inr resp \<and> hr_status resp = 201 \<and>
    response_stream (hr_body_len resp) (hr_reader resp) = (blocks, Inr \<lparr>r_bytes = [], r_end = Eof\<rparr>) \<and>
    concat blocks = ''made''"
  using http_request_end_to_end [OF web_codecs web_same web_ct demo_host_def web_sends web_upstream,
      where free = 7 and e = Eof and e' = Eof]
  by (auto simp: demo_web_response_def)

subsection \<open>From the command line to a service\<close>

text \<open>
  C3. A shared ticket opens the service it names. When a host has started and its operator runs
  share for one of its TCP services on the same state directory, the text it prints is accepted by
  the mobile client, which gets the identity of that host and a capability; and the host's verdict
  on that capability depends only on the host's free places and on whether the service can be
  reached: the ticket is never answered with an unknown service, a wrong secret or a bad request.
\<close>

theorem shared_ticket_opens_service:
  assumes codecs: "codec_roundtrip (se_codec (dg_start (ce_diag env)))" "codec_roundtrip (ce_payloads env)" "b64_roundtrip (ce_base64 env)"
    and phone: "mb_payloads menv = ce_payloads env" "mb_base64 menv = ce_base64 env"
    and start: "host_startup (dg_start (ce_diag env)) config relay bind_address d = (Inr (hs, i), d')"
    and share: "run_command env (CmdShare service config True [] None None) \<lparr>cw_state = d', cw_config = dc\<rparr> = (Inr (EndPrinted txt), w)"
    and svc: "svc \<in> set (hs_services hs)" "svc_name svc = service" "svc_type svc = Tcp"
  shows "\<exists>options cap endpoint. mobile_options menv [] [] port None (Some txt) = Inr options \<and>
    to_host_id options = to_ascii_lowercase i \<and> capability_parse (to_capability options) = Inr cap \<and>
    stream_endpoint_of svc = Some endpoint \<and>
    tcp_verdict henv hs free cap =
      (if free = 0 then 429 else if he_connect_timeout henv = 0 then 504
       else case he_connect henv endpoint of Done _ \<Rightarrow> 200 | Fail _ \<Rightarrow> 502 | Hang \<Rightarrow> 504)"
proof -
  let ?st = "dg_start (ce_diag env)"
  from started_host [OF codecs(1) start]
  have config: "config_validate (se_urls ?st) False (se_read ?st) (se_pem_ok ?st) (hs_services hs) = Inr ()"
    by (metis config_load_valid)
  from find_service_distinct [OF validated_names [OF config] svc(1)] svc(2)
  have found: "find_service service (hs_services hs) = Some svc" by simp
  obtain secret t where
    secret: "hs_secrets hs service = Some secret"
    and t: "ticket_new (se_urls ?st) (ce_payloads env) (ce_base64 env) i (capability_format service Tcp secret) [] = Inr t"
    and enc: "ticket_encode (ce_payloads env) (ce_base64 env) t = Inr txt"
    by (rule shared_on_host [OF codecs(1) start share]) (use found svc(3) in auto)
  from t have t': "t_host_id t = to_ascii_lowercase i" "capability_parse (capability_format service Tcp secret) = Inr (t_capability t)"
    "t_peer_relay_urls t = []" by (simp_all add: ticket_new_Inr_iff ticket_relays_Inr_iff)
  have "is_safe_service_name service" using validated_service_name [OF config svc(1)] svc(2) by simp
  then have cap: "t_capability t = \<lparr>cap_service = service, cap_service_type = Tcp, cap_secret = secret\<rparr>"
    "capability_parse (capability_text (t_capability t)) = Inr (t_capability t)"
    using capability_parse_parts_of [OF t'(2)] capability_parse_sound [OF t'(2)] capability_parse_text [of "t_capability t"]
    by simp_all
  have "ticket_parse (mb_urls menv) (ce_payloads env) (ce_base64 env) txt = Inr t"
    using ticket_parse_encode [OF codecs(2,3) enc ticket_new_ok [OF t], of "mb_urls menv"] t'(3) enc
    by (cases t) (simp add: ticket_relays_def)
  with phone cap(1) t' have "mobile_options menv [] [] port None (Some txt) = Inr \<lparr>to_host_id = to_ascii_lowercase i,
      to_capability = capability_text (t_capability t), to_local_port = port, to_direct_address = None,
      to_peer_relay_urls = [], to_relay_settings = None\<rparr>"
    by (simp add: mobile_options_def parse_native_ticket_def tcp_options_from_ticket_def tcp_options_new_def capability_text_def Let_def)
  moreover have "stream_endpoint_of svc \<noteq> None"
    using validated_service_ok [OF config svc(1)] svc(3)
    by (auto simp: validate_service_def validate_tcp_service_def stream_endpoint_of_def Let_def split: if_splits option.splits)
  moreover have "tcp_verdict henv hs free (t_capability t) = (if free = 0 then 429 else if he_connect_timeout henv = 0 then 504
       else case he_connect henv (the (stream_endpoint_of svc)) of Done _ \<Rightarrow> 200 | Fail _ \<Rightarrow> 502 | Hang \<Rightarrow> 504)"
    if "stream_endpoint_of svc \<noteq> None"
    using that found secret svc cap(1) by (auto simp: tcp_verdict_def)
  ultimately show ?thesis using cap(2) by fastforce
qed

text \<open>A sample host whose identity is a public key, with the state it has saved before.\<close>

definition hex_id :: string where
  "hex_id = replicate 64 CHR ''a''"

definition shared_state :: persisted_host_state where
  "shared_state = \<lparr>schema_version = CURRENT_SCHEMA_VERSION, endpoint_id = hex_id, attach_secret = ''x'',
     service_secrets = [''db'' \<mapsto> ''k'']\<rparr>"

definition shared_codec :: "persisted_host_state codec" where
  "shared_codec = \<lparr>to_vec = (\<lambda>st. if st = shared_state then Some ''s'' else None), from_slice = (\<lambda>_. Some shared_state)\<rparr>"

definition shared_keys :: key_api where
  "shared_keys = \<lparr>key_generate = replicate 32 CHR ''k'', key_identity = (\<lambda>_. hex_id), identity_parses = (\<lambda>_. True)\<rparr>"

definition shared_startup :: "string startup_env" where
  "shared_startup = demo_startup\<lparr>se_keys := shared_keys, se_codec := shared_codec\<rparr>"

definition shared_env :: "string cli_env" where
  "shared_env = \<lparr>ce_diag = \<lparr>dg_start = shared_startup, dg_state_dir = Inr ''/s'', dg_parse_id = Some, dg_connect = (\<lambda>_ _. ProbeTimedOut)\<rparr>,
     ce_payloads = sample_payloads, ce_base64 = plain_base64, ce_new_secret = ''n'', ce_attach_toml = Map.empty\<rparr>"

definition shared_dir :: state_dir where
  "shared_dir = \<lparr>sd_files = [host_key_path \<mapsto> new_file (replicate 32 CHR ''k''), host_state_path \<mapsto> new_file ''s''], sd_locked = False\<rparr>"

definition shared_files :: "state_dir \<Rightarrow> bool" where
  "shared_files d \<longleftrightarrow> sd_files d host_key_path = Some (new_file (replicate 32 CHR ''k'')) \<and>
     sd_files d host_state_path = Some (new_file ''s'') \<and> sd_files d (temp_path quiet_io host_state_path) = None"

lemma shared_parse:
  assumes "shared_files d"
  shows "parse_state_file quiet_io shared_codec d = (Inr shared_state, d)"
  using assms by (simp add: shared_files_def quiet_io_def op_bind_def ensure_private_file_def read_file_def op_return_def
      parse_state_file_def shared_codec_def validate_host_state_schema_def shared_state_def)

lemma shared_save:
  assumes "shared_files d"
  obtains d' where "save_host_state quiet_io shared_codec shared_state d = (Inr (), d')" "shared_files d'"
  using assms by (auto simp: save_host_state_def write_host_state_file_def write_file_atomic_def write_states_def new_file_def
      quiet_io_def shared_codec_def shared_files_def Let_def)

lemma shared_load:
  assumes "shared_files d"
  shows "load_or_create_host_state quiet_io shared_codec ''f'' hex_id d = (Inr shared_state, d)"
proof -
  have "trim ''x'' = ''x''" by code_simp
  then have "upgrade_state ''f'' hex_id shared_state = (shared_state, False)"
    by (simp add: shared_state_def upgrade_state_def repair_host_state_def CURRENT_SCHEMA_VERSION_def LEGACY_SCHEMA_VERSION_def)
  with assms shared_parse [OF assms] show ?thesis
    by (simp add: load_or_create_host_state_def file_exists_def shared_files_def op_bind_def op_return_def)
qed

lemma shared_key:
  assumes "shared_files d"
  shows "load_or_create_host_secret_key quiet_io shared_keys d = (Inr (replicate 32 CHR ''k''), d)"
  using assms by (simp add: shared_files_def load_or_create_host_secret_key_def quiet_io_def file_exists_def op_bind_def
      ensure_private_file_def read_file_def op_return_def)

definition shared_host :: "string host_services" where
  "shared_host = prepare_services (\<lambda>_. ''fresh'') [demo_tcp_service] [''db'' \<mapsto> ''k'']"

lemma shared_start:
  "\<exists>d'. host_startup shared_startup ''c'' None None shared_dir = (Inr (shared_host, hex_id), d') \<and> shared_files d'"
proof -
  obtain d1 where a: "acquire_state_lock quiet_io shared_dir = (Inr (), d1)" "shared_files d1"
    by (auto simp: acquire_state_lock_def quiet_io_def shared_dir_def shared_files_def Let_def)
  obtain d2 where s: "save_host_state quiet_io shared_codec shared_state d1 = (Inr (), d2)" "shared_files d2"
    using shared_save [OF a(2)] by blast
  have "prepare_secrets (\<lambda>_. ''fresh'') [demo_tcp_service] [''db'' \<mapsto> ''k''] = [''db'' \<mapsto> ''k'']"
    by (rule ext) (simp add: prepare_secrets_def demo_tcp_service_def)
  then have "shared_state\<lparr>service_secrets := hs_secrets shared_host\<rparr> = shared_state"
    by (simp add: shared_state_def shared_host_def prepare_services_def)
  moreover have "build_clients shared_startup [demo_tcp_service] = Inr ()"
    by (simp add: build_clients_def load_ca_certificate_def build_client_def demo_tcp_service_def)
  moreover have "service_secrets shared_state = [''db'' \<mapsto> ''k'']" by (simp add: shared_state_def)
  ultimately have "start_locked shared_startup None [demo_tcp_service] d1 = (Inr (shared_host, hex_id), d2)"
    using shared_key [OF a(2)] shared_load [OF a(2)] s(1)
    by (simp add: start_locked_def start_bind_def state_start_def pure_start_def bind_option_def shared_startup_def demo_startup_def
        shared_keys_def shared_host_def Let_def)
  with a(1) s(2) show ?thesis
    by (simp add: host_startup_def start_bind_def state_start_def pure_start_def unlock_on_error_def shared_startup_def
        demo_startup_def demo_config relay_file_load_def)
qed

lemma shared_ticket:
  "\<exists>printed. ticket_new scheme_urls sample_payloads plain_base64 hex_id (capability_format ''db'' Tcp ''k'') [] = Inr (demo_ticket []) \<and>
     ticket_encode sample_payloads plain_base64 (demo_ticket []) = Inr printed"
proof -
  have "to_ascii_lower CHR ''a'' = CHR ''a''" by code_simp
  then have hex: "list_all is_ascii_hexdigit hex_id" "to_ascii_lowercase hex_id = hex_id"
    by (simp_all only: hex_id_def list_all_iff to_ascii_lowercase_def map_replicate) (simp add: ascii_defs)
  have cap: "capability_parse (capability_format ''db'' Tcp ''k'') = Inr \<lparr>cap_service = ''db'', cap_service_type = Tcp, cap_secret = ''k''\<rparr>"
    by code_simp
  obtain printed where enc: "ticket_encode sample_payloads plain_base64 (demo_ticket []) = Inr printed"
    by (simp add: ticket_encode_def sample_payloads_def plain_base64_def demo_ticket_def MAX_TICKET_LEN_def
        TICKET_PREFIX_def capability_format_def Let_def)
  moreover have "length hex_id = 64" "t_host_id (demo_ticket []) = hex_id" by (simp_all add: hex_id_def demo_ticket_def)
  ultimately show ?thesis
    using hex cap by (simp add: ticket_new_Inr_iff ticket_relays_Inr_iff demo_ticket_def MAX_TICKET_LEN_def
        MAX_PEER_RELAYS_def ascii_defs is_ok_iff capability_format_def)
qed

lemma shared_share:
  assumes "shared_files d"
  shows "\<exists>printed w. run_command shared_env (CmdShare ''db'' ''c'' True [] None None) \<lparr>cw_state = d, cw_config = shared_dir\<rparr> =
    (Inr (EndPrinted printed), w)"
proof -
  have st: "read_host_state quiet_io shared_keys shared_codec d = (Inr shared_state, d)"
    using assms shared_parse [OF assms]
    by (simp add: read_host_state_def shared_files_def file_exists_def op_bind_def op_return_def shared_keys_def)
  have key: "read_existing_host_endpoint_id quiet_io shared_keys d = (Inr hex_id, d)"
    using assms by (simp add: read_existing_host_endpoint_id_def shared_files_def quiet_io_def file_exists_def op_bind_def
        ensure_private_file_def read_file_def op_return_def shared_keys_def)
  have "read_service_secret quiet_io shared_keys shared_codec ''db'' d = (Inr ''k'', d)"
    "read_host_endpoint_id quiet_io shared_keys shared_codec d = (Inr hex_id, d)"
    using st key by (simp_all add: read_service_secret_def read_host_endpoint_id_def op_bind_def op_return_def shared_state_def)
  moreover have "service_type_of [demo_tcp_service] ''db'' = Inr Tcp" by (simp add: service_type_of_def demo_tcp_service_def)
  ultimately show ?thesis
    using shared_ticket
    by (auto simp: run_command_def on_state_def share_command_def lift_state_def op_bind_def op_return_def command_config_def
        shared_env_def shared_startup_def demo_startup_def demo_config Let_def)
qed

theorem shared_ticket_opens_service_witness:
  "\<exists>d' printed w options cap endpoint.
     host_startup shared_startup ''c'' None None shared_dir = (Inr (shared_host, hex_id), d') \<and>
     run_command shared_env (CmdShare ''db'' ''c'' True [] None None) \<lparr>cw_state = d', cw_config = shared_dir\<rparr> = (Inr (EndPrinted printed), w) \<and>
     mobile_options demo_mobile [] [] 8080 None (Some printed) = Inr options \<and>
     capability_parse (to_capability options) = Inr cap \<and> stream_endpoint_of demo_tcp_service = Some endpoint \<and>
     tcp_verdict tunnel_env shared_host 5 cap = 200"
proof -
  from shared_start obtain d' where start: "host_startup shared_startup ''c'' None None shared_dir = (Inr (shared_host, hex_id), d')"
    and d': "shared_files d'" by blast
  from shared_share [OF d'] obtain printed w where
    share: "run_command shared_env (CmdShare ''db'' ''c'' True [] None None) \<lparr>cw_state = d', cw_config = shared_dir\<rparr> = (Inr (EndPrinted printed), w)"
    by blast
  have env: "dg_start (ce_diag shared_env) = shared_startup" "ce_payloads shared_env = sample_payloads" "ce_base64 shared_env = plain_base64"
    "se_codec shared_startup = shared_codec"
    by (simp_all add: shared_env_def shared_startup_def)
  have "codec_roundtrip shared_codec" by (simp add: codec_roundtrip_def shared_codec_def)
  moreover have "mb_payloads demo_mobile = sample_payloads" "mb_base64 demo_mobile = plain_base64" by (simp_all add: demo_mobile_def)
  moreover have "demo_tcp_service \<in> set (hs_services shared_host)" "svc_name demo_tcp_service = ''db''" "svc_type demo_tcp_service = Tcp"
    by (simp_all add: shared_host_def prepare_services_def demo_tcp_service_def)
  ultimately have "\<exists>options cap endpoint. mobile_options demo_mobile [] [] 8080 None (Some printed) = Inr options \<and>
    to_host_id options = to_ascii_lowercase hex_id \<and> capability_parse (to_capability options) = Inr cap \<and>
    stream_endpoint_of demo_tcp_service = Some endpoint \<and>
    tcp_verdict tunnel_env shared_host 5 cap =
      (if 5 = (0::nat) then 429 else if he_connect_timeout tunnel_env = 0 then 504
       else case he_connect tunnel_env endpoint of Done _ \<Rightarrow> 200 | Fail _ \<Rightarrow> 502 | Hang \<Rightarrow> 504)"
    using shared_ticket_opens_service [of shared_env demo_mobile "''c''" None None shared_dir shared_host hex_id d' "''db''" shared_dir printed w
        demo_tcp_service 8080 tunnel_env 5] start share env
    by (simp add: sample_payloads_roundtrip plain_base64_roundtrip)
  moreover have "he_connect_timeout tunnel_env \<noteq> 0" "he_connect tunnel_env endpoint = Done ()" for endpoint
    by (simp_all add: tunnel_env_def demo_env_def TCP_CONNECT_TIMEOUT_def from_secs_def)
  ultimately show ?thesis using start share by auto
qed

end
